(* ===== verification/Prelude.thy ===== *)
theory Prelude
  imports
    Main
    "HOL-Library.Word"
    "HOL-Library.Multiset"
    "HOL-Library.AList"
    "HOL-Library.Product_Lexorder"
    "HOL-Library.List_Lexorder"
    "HOL-Library.Char_ord"
begin

text \<open>
  Shared vocabulary of the development: the machine types of the Rust sources, the few
  standard-library operations on them that the sources call, byte arrays and their
  conversion to byte vectors, hash maps as association lists, the codec interface that
  several storage columns implement, and the fact collections the component theories use.

  Conventions.
  \<^item> \<open>u8\<close>, \<open>u32\<close>, \<open>u64\<close> are words read unsigned; \<open>i64\<close> is the same 64-bit word read with
    \<open>sint\<close>.  The casts \<open>as i64\<close> and \<open>as u64\<close> between 64-bit integers keep the bit pattern, so
    they are the identity here, and \<open>+ 1\<close> wraps as it does in a release build.
  \<^item> \<open>usize\<close> only counts elements of in-memory collections and is \<open>nat\<close>.
  \<^item> \<open>[u8; 32]\<close> is a 256-bit word, the array read big-endian; Rust's lexicographic order on
    such arrays is the numeric order of that word.
  \<^item> \<open>String\<close> is \<open>string\<close>, one character per UTF-8 byte.
\<close>

named_theorems wordarith \<open>word operations as integer arithmetic\<close>
named_theorems table_simps \<open>lookup laws of keyed tables and hash maps\<close>

type_synonym u8 = "8 word"
type_synonym u32 = "32 word"
type_synonym u64 = "64 word"
type_synonym i64 = "64 word"
type_synonym usize = nat
type_synonym bytes = "u8 list"
type_synonym bytes32 = "256 word"

section \<open>Machine integers\<close>

lemma unat_bound: "unat (x :: 'a::len word) < 2 ^ LENGTH('a)"
  by (rule unsigned_less)

subsection \<open>Bounds of the signed reading\<close>

abbreviation i64_max :: int where "i64_max \<equiv> 9223372036854775807"
abbreviation i64_min :: int where "i64_min \<equiv> - 9223372036854775808"

lemma sint_i64_bounds: "i64_min \<le> sint (x :: i64) \<and> sint x \<le> i64_max"
  using sint_greater_eq [of x] sint_less [of x] by simp

lemma sint_i64_ge [simp]: "i64_min \<le> sint (x :: i64)"
  and sint_i64_le [simp]: "sint (x :: i64) \<le> i64_max"
  using sint_i64_bounds by auto

lemma sint_of_int_i64 [wordarith]:
  "i64_min \<le> k \<Longrightarrow> k \<le> i64_max \<Longrightarrow> sint (word_of_int k :: i64) = k"
  by (simp add: sint_sbintrunc' signed_take_bit_int_eq_self)

lemma of_int_sint_i64 [simp]: "word_of_int (sint (x :: i64)) = x"
  by simp

lemma sint_i64_eq_iff: "sint (x :: i64) = sint y \<longleftrightarrow> x = y"
  by (metis of_int_sint_i64)

lemma sint_i64_succ [wordarith]:
  "sint (x :: i64) < i64_max \<Longrightarrow> sint (x + 1) = sint x + 1"
proof -
  assume "sint x < i64_max"
  moreover have "i64_min \<le> sint x" by (rule sint_i64_ge)
  ultimately have "- 9223372036854775808 \<le> sint x + 1" "sint x + 1 < 9223372036854775808"
    by linarith+
  then show ?thesis by (simp add: sint_word_ariths(1) signed_take_bit_int_eq_self)
qed

lemma sint_i64_pred [wordarith]:
  "i64_min < sint (x :: i64) \<Longrightarrow> sint (x - 1) = sint x - 1"
proof -
  assume "i64_min < sint x"
  moreover have "sint x \<le> i64_max" by (rule sint_i64_le)
  ultimately have "- 9223372036854775808 \<le> sint x - 1" "sint x - 1 < 9223372036854775808"
    by linarith+
  then show ?thesis by (simp add: sint_word_ariths(2) signed_take_bit_int_eq_self)
qed

lemma sint_i64_add [wordarith]:
  "i64_min \<le> sint (x :: i64) + sint y \<Longrightarrow> sint x + sint y \<le> i64_max \<Longrightarrow>
   sint (x + y) = sint x + sint y"
  by (simp add: sint_word_ariths(1) signed_take_bit_int_eq_self)

subsection \<open>Saturating and ordered operations of the standard library\<close>

text \<open>\<open>u64::saturating_sub\<close>: stops at zero.\<close>

definition u64_saturating_sub :: "u64 \<Rightarrow> u64 \<Rightarrow> u64" where
  "u64_saturating_sub a b = (if b \<le> a then a - b else 0)"

lemma unat_u64_saturating_sub [wordarith]:
  "unat (u64_saturating_sub a b) = unat a - unat b"
  by (auto simp: u64_saturating_sub_def unat_sub word_le_nat_alt)

text \<open>\<open>i64::saturating_add\<close>, \<open>i64::saturating_sub\<close>: clamp to the ends of the range.\<close>

definition clamp_i64 :: "int \<Rightarrow> i64" where
  "clamp_i64 k = word_of_int (max i64_min (min i64_max k))"

definition i64_saturating_add :: "i64 \<Rightarrow> i64 \<Rightarrow> i64" where
  "i64_saturating_add a b = clamp_i64 (sint a + sint b)"

definition i64_saturating_sub :: "i64 \<Rightarrow> i64 \<Rightarrow> i64" where
  "i64_saturating_sub a b = clamp_i64 (sint a - sint b)"

lemma sint_clamp_i64 [wordarith]: "sint (clamp_i64 k) = max i64_min (min i64_max k)"
  by (simp add: clamp_i64_def sint_of_int_i64)

lemma sint_i64_saturating_add [wordarith]:
  "sint (i64_saturating_add a b) = max i64_min (min i64_max (sint a + sint b))"
  by (simp add: i64_saturating_add_def sint_clamp_i64)

lemma sint_i64_saturating_sub [wordarith]:
  "sint (i64_saturating_sub a b) = max i64_min (min i64_max (sint a - sint b))"
  by (simp add: i64_saturating_sub_def sint_clamp_i64)

text \<open>\<open>Ord::min\<close> on \<open>i64\<close>.\<close>

definition i64_minimum :: "i64 \<Rightarrow> i64 \<Rightarrow> i64" where
  "i64_minimum a b = (if sint a \<le> sint b then a else b)"

lemma sint_i64_minimum [wordarith]: "sint (i64_minimum a b) = min (sint a) (sint b)"
  by (simp add: i64_minimum_def)

text \<open>The inclusive range \<open>a..=b\<close> over \<open>i64\<close>, collected into a vector.\<close>

definition i64_range :: "i64 \<Rightarrow> i64 \<Rightarrow> i64 list" where
  "i64_range a b = map word_of_int [sint a..sint b]"

lemma sint_i64_range: "map sint (i64_range a b) = [sint a..sint b]"
proof -
  have "map sint (i64_range a b) = map (\<lambda>k. k) [sint a..sint b]"
    unfolding i64_range_def map_map comp_def
  proof (rule map_cong [OF refl])
    fix k
    assume "k \<in> set [sint a..sint b]"
    then have "sint a \<le> k" "k \<le> sint b" by auto
    then have "i64_min \<le> k" "k \<le> i64_max"
      using sint_i64_ge [of a] sint_i64_le [of b] by linarith+
    then show "sint (word_of_int k :: i64) = k" by (rule sint_of_int_i64)
  qed
  then show ?thesis by simp
qed

lemma set_i64_range: "set (i64_range a b) = {x. sint a \<le> sint x \<and> sint x \<le> sint b}"
proof -
  have "x \<in> set (i64_range a b) \<longleftrightarrow> sint x \<in> set (map sint (i64_range a b))" for x
    by (auto simp: sint_i64_eq_iff)
  then show ?thesis by (auto simp: sint_i64_range)
qed

text \<open>\<open>std::time::Duration\<close>.\<close>

record duration =
  dur_secs :: u64
  dur_nanos :: u32

definition as_secs :: "duration \<Rightarrow> u64" where
  "as_secs d = dur_secs d"

definition from_secs :: "u64 \<Rightarrow> duration" where
  "from_secs s = \<lparr>dur_secs = s, dur_nanos = 0\<rparr>"

lemma as_secs_from_secs [simp]: "as_secs (from_secs s) = s"
  by (simp add: as_secs_def from_secs_def)

section \<open>Text\<close>

text \<open>Decimal rendering of integers (\<open>Display\<close>).\<close>

definition digit_char :: "nat \<Rightarrow> char" where
  "digit_char d = char_of (48 + d)"

fun show_nat :: "nat \<Rightarrow> string" where
  "show_nat n = (if n < 10 then [digit_char n] else show_nat (n div 10) @ [digit_char (n mod 10)])"

declare show_nat.simps [simp del]

definition show_int :: "int \<Rightarrow> string" where
  "show_int k = (if k < 0 then CHR ''-'' # show_nat (nat (- k)) else show_nat (nat k))"

definition show_i64 :: "i64 \<Rightarrow> string" where
  "show_i64 x = show_int (sint x)"

definition show_u64 :: "u64 \<Rightarrow> string" where
  "show_u64 x = show_nat (unat x)"

text \<open>\<open>str::as_bytes\<close>.\<close>

definition as_bytes :: "string \<Rightarrow> bytes" where
  "as_bytes s = map of_char s"

lemma as_bytes_append [simp]: "as_bytes (s @ t) = as_bytes s @ as_bytes t"
  by (simp add: as_bytes_def)

lemma length_as_bytes [simp]: "length (as_bytes s) = length s"
  by (simp add: as_bytes_def)

lemma unat_of_char [simp]: "unat (of_char c :: u8) = of_char c"
proof -
  have "(of_char c :: u8) = of_nat (of_char c)" by (simp add: of_nat_of_char)
  then have "unat (of_char c :: u8) = unat (of_nat (of_char c) :: u8)" by (rule arg_cong)
  also have "\<dots> = of_char c mod 256" by (simp add: unat_of_nat)
  finally show ?thesis by simp
qed

lemma as_bytes_inj [simp]: "as_bytes s = as_bytes t \<longleftrightarrow> s = t"
proof -
  have "inj (of_char :: char \<Rightarrow> u8)"
  proof (rule injI)
    fix c d :: char
    assume "(of_char c :: u8) = of_char d"
    then have "unat (of_char c :: u8) = unat (of_char d :: u8)" by (rule arg_cong)
    then show "c = d" by simp
  qed
  then show ?thesis by (simp add: as_bytes_def inj_map_eq_map)
qed

section \<open>Byte encodings of integers\<close>

text \<open>
  \<open>le_bytes n k\<close> are the \<open>n\<close> low bytes of \<open>k\<close>, least significant first
  (\<open>to_le_bytes\<close>); \<open>be_bytes\<close> is the big-endian order (\<open>to_be_bytes\<close>, and the layout of
  a \<open>[u8; 32]\<close>).
\<close>

fun le_bytes :: "nat \<Rightarrow> nat \<Rightarrow> bytes" where
  "le_bytes 0 k = []"
| "le_bytes (Suc n) k = word_of_nat k # le_bytes n (k div 256)"

fun of_le_bytes :: "bytes \<Rightarrow> nat" where
  "of_le_bytes [] = 0"
| "of_le_bytes (b # bs) = unat b + 256 * of_le_bytes bs"

definition be_bytes :: "nat \<Rightarrow> nat \<Rightarrow> bytes" where
  "be_bytes n k = rev (le_bytes n k)"

definition of_be_bytes :: "bytes \<Rightarrow> nat" where
  "of_be_bytes bs = of_le_bytes (rev bs)"

lemma length_le_bytes [simp]: "length (le_bytes n k) = n"
  by (induction n arbitrary: k) auto

lemma length_be_bytes [simp]: "length (be_bytes n k) = n"
  by (simp add: be_bytes_def)

lemma of_le_bytes_less: "of_le_bytes bs < 256 ^ length bs"
proof (induction bs)
  case Nil
  then show ?case by simp
next
  case (Cons b bs)
  have "unat b < 256" using unat_bound [of b] by simp
  with Cons.IH show ?case by simp
qed

lemma of_le_le_bytes: "of_le_bytes (le_bytes n k) = k mod 256 ^ n"
proof (induction n arbitrary: k)
  case 0
  then show ?case by simp
next
  case (Suc n)
  have "unat (word_of_nat k :: u8) = k mod 256"
    by (simp add: unat_of_nat)
  then show ?case
    using Suc.IH [of "k div 256"] by (simp add: mod_mult2_eq)
qed

lemma le_of_le_bytes: "le_bytes (length bs) (of_le_bytes bs) = bs"
proof (induction bs)
  case Nil
  then show ?case by simp
next
  case (Cons b bs)
  have lt: "unat b < 256" using unat_bound [of b] by simp
  have "(unat b + 256 * of_le_bytes bs) div 256 = of_le_bytes bs"
    using lt by simp
  moreover have "(word_of_nat (unat b + 256 * of_le_bytes bs) :: u8) = b"
  proof (rule word_unat_eq_iff [THEN iffD2])
    have "unat (word_of_nat (unat b + 256 * of_le_bytes bs) :: u8) =
        (unat b + 256 * of_le_bytes bs) mod 2 ^ 8"
      by (subst unat_of_nat) simp
    also have "\<dots> = unat b" using lt by simp
    finally show "unat (word_of_nat (unat b + 256 * of_le_bytes bs) :: u8) = unat b" .
  qed
  ultimately show ?case using Cons.IH by simp
qed

lemma of_be_be_bytes: "of_be_bytes (be_bytes n k) = k mod 256 ^ n"
  by (simp add: of_be_bytes_def be_bytes_def of_le_le_bytes)

lemma be_of_be_bytes: "be_bytes (length bs) (of_be_bytes bs) = bs"
  using le_of_le_bytes [of "rev bs"] by (simp add: of_be_bytes_def be_bytes_def)

lemma of_be_bytes_less: "of_be_bytes bs < 256 ^ length bs"
  using of_le_bytes_less [of "rev bs"] by (simp add: of_be_bytes_def)

definition u64_le_bytes :: "u64 \<Rightarrow> bytes" where
  "u64_le_bytes x = le_bytes 8 (unat x)"

definition u64_be_bytes :: "u64 \<Rightarrow> bytes" where
  "u64_be_bytes x = be_bytes 8 (unat x)"

definition u32_be_bytes :: "u32 \<Rightarrow> bytes" where
  "u32_be_bytes x = be_bytes 4 (unat x)"

lemma length_u64_le_bytes [simp]: "length (u64_le_bytes x) = 8"
  by (simp add: u64_le_bytes_def)

lemma u64_le_bytes_inj: "u64_le_bytes x = u64_le_bytes y \<longleftrightarrow> x = y"
proof
  assume "u64_le_bytes x = u64_le_bytes y"
  then have "of_le_bytes (le_bytes 8 (unat x)) = of_le_bytes (le_bytes 8 (unat y))"
    by (simp add: u64_le_bytes_def)
  moreover have "unat x < 256 ^ 8" "unat y < 256 ^ 8"
    using unat_bound [of x] unat_bound [of y] by simp_all
  ultimately have "unat x = unat y" by (simp add: of_le_le_bytes)
  then show "x = y" by (simp add: word_unat_eq_iff)
qed simp

text \<open>
  \<open>[u8; 32]::to_vec\<close> and the fallible conversion back, \<open>Vec<u8>::try_into\<close>, which
  succeeds exactly on vectors of 32 bytes.
\<close>

definition to_vec :: "bytes32 \<Rightarrow> bytes" where
  "to_vec x = be_bytes 32 (unat x)"

definition try_into32 :: "bytes \<Rightarrow> bytes32 option" where
  "try_into32 bs = (if length bs = 32 then Some (word_of_nat (of_be_bytes bs)) else None)"

lemma length_to_vec [simp]: "length (to_vec x) = 32"
  by (simp add: to_vec_def)

lemma try_into32_to_vec [simp]: "try_into32 (to_vec x) = Some x"
proof -
  have "unat x < 256 ^ 32" using unat_bound [of x] by simp
  then show ?thesis by (simp add: try_into32_def to_vec_def of_be_be_bytes)
qed

lemma to_vec_inj [simp]: "to_vec x = to_vec y \<longleftrightarrow> x = y"
  by (metis try_into32_to_vec option.inject)

lemma try_into32_Some: "try_into32 bs = Some x \<Longrightarrow> bs = to_vec x"
proof -
  assume a: "try_into32 bs = Some x"
  then have len: "length bs = 32" and x: "x = word_of_nat (of_be_bytes bs)"
    by (auto simp: try_into32_def split: if_splits)
  have "of_be_bytes bs < 2 ^ 256" using of_be_bytes_less [of bs] len by simp
  then have "unat x = of_be_bytes bs" unfolding x by (simp add: unat_of_nat)
  then show "bs = to_vec x" using be_of_be_bytes [of bs] len by (simp add: to_vec_def)
qed

section \<open>The codec interface\<close>

text \<open>
  A column of the database stores a value through an encoder and reads it back through a
  decoder that can fail.  What the clients rely on is only that decoding undoes encoding.
\<close>

locale codec =
  fixes enc :: "'a \<Rightarrow> 'b"
    and dec :: "'b \<Rightarrow> 'a option"
  assumes dec_enc: "dec (enc x) = Some x"
begin

lemma enc_inj: "enc x = enc y \<longleftrightarrow> x = y"
  by (metis dec_enc option.inject)

lemma enc_not_invalid: "dec b = None \<Longrightarrow> enc x \<noteq> b"
  using dec_enc by force

lemma dec_all: "map dec (map enc xs) = map Some xs"
  by (simp add: dec_enc comp_def)

end

interpretation id_codec: codec to_vec try_into32
  by unfold_locales simp

section \<open>Hash maps with their entries\<close>

text \<open>
  A \<open>HashMap\<close> that is only looked up is a map; one whose entries are counted, filtered or
  listed is an association list with distinct keys, its order standing for the (unspecified)
  iteration order.  These are the laws the clients use.
\<close>

lemma map_of_filter_keys [table_simps]:
  "distinct (map fst kvs) \<Longrightarrow>
   map_of (filter (\<lambda>(k, v). P k v) kvs) k =
   (case map_of kvs k of None \<Rightarrow> None | Some v \<Rightarrow> if P k v then Some v else None)"
proof (induction kvs)
  case Nil
  then show ?case by simp
next
  case (Cons kv kvs)
  obtain k' v' where kv: "kv = (k', v')" by (cases kv)
  show ?case
  proof (cases "k = k'")
    case True
    with Cons.prems kv have "map_of kvs k = None" by (auto simp: map_of_eq_None_iff)
    then have "map_of (filter (\<lambda>(k, v). P k v) kvs) k = None"
      using Cons kv by simp
    with True kv show ?thesis by simp
  next
    case False
    with Cons kv show ?thesis by simp
  qed
qed

lemma distinct_keys_filter [table_simps]:
  "distinct (map fst kvs) \<Longrightarrow> distinct (map fst (filter P kvs))"
  by (rule distinct_map_filter)

lemma length_update_fresh [table_simps]:
  "map_of kvs k = None \<Longrightarrow> length (AList.update k v kvs) = Suc (length kvs)"
  by (induction kvs) (auto split: if_splits)

lemma length_delete_le: "length (AList.delete k kvs) \<le> length kvs"
  by (simp add: AList.delete_eq)

section \<open>Lists\<close>

lemma sorted_wrt_map_filter: "sorted_wrt R (map f xs) \<Longrightarrow> sorted_wrt R (map f (filter P xs))"
  by (induction xs) auto

lemma sorted_key_unique:
  assumes "mset xs = mset ys" and "sorted (map f xs)" and "sorted (map f ys)"
    and "inj_on f (set xs)"
  shows "xs = ys"
proof -
  have "set xs = set ys" using assms(1) by (rule mset_eq_setD)
  moreover have "map f xs = map f ys"
    using assms(1-3) by (metis mset_map properties_for_sort sorted_sort_id)
  ultimately show ?thesis using assms(4) by (metis map_inj_on Un_absorb)
qed

text \<open>Lists gathered from the entries of a map, where every element carries its key.\<close>

lemma distinct_concat_keyed:
  assumes "distinct (map fst gs)"
    and "\<forall>g \<in> set gs. distinct (f g) \<and> (\<forall>x \<in> set (f g). key x = fst g)"
  shows "distinct (concat (map f gs))"
  using assms
proof (induction gs)
  case (Cons g gs)
  have "x \<notin> set (f g)" if "h \<in> set gs" "x \<in> set (f h)" for h x
    using Cons.prems that by (metis image_eqI list.set_intros distinct.simps(2) list.simps(9) set_map
        set_ConsD list.set_intros(2) insertI1 list.simps(15))
  then show ?case using Cons by auto
qed simp

lemma sorted_key_set_unique:
  assumes "set xs = set ys" and "distinct xs" and "distinct ys" and "inj f"
  shows "sort_key f xs = sort_key f ys"
proof (rule sorted_key_unique)
  show "mset (sort_key f xs) = mset (sort_key f ys)"
    using assms(1-3) by (simp add: set_eq_iff_mset_eq_distinct)
  show "inj_on f (set (sort_key f xs))"
    using assms(4) by (rule inj_on_subset) simp
qed simp_all

text \<open>The index pairs \<open>i < j\<close> of a nested loop over one list.\<close>

fun ordered_pairs :: "'a list \<Rightarrow> ('a \<times> 'a) list" where
  "ordered_pairs [] = []"
| "ordered_pairs (x # xs) = map (Pair x) xs @ ordered_pairs xs"

lemma set_ordered_pairs:
  "sorted_wrt (<) (xs :: 'a::linorder list) \<Longrightarrow>
   set (ordered_pairs xs) = {(x, y). x \<in> set xs \<and> y \<in> set xs \<and> x < y}"
proof (induction xs)
  case (Cons x xs)
  then show ?case by (auto dest: less_asym)
qed simp

lemma distinct_ordered_pairs: "distinct xs \<Longrightarrow> distinct (ordered_pairs xs)"
proof (induction xs)
  case (Cons x xs)
  have "fst p \<in> set xs" if "p \<in> set (ordered_pairs xs)" for p
    using that by (induction xs) auto
  with Cons show ?case by (auto simp: distinct_map inj_on_def)
qed simp

text \<open>\<open>sort\<close> followed by \<open>dedup\<close>.\<close>

definition sort_dedup :: "'a::linorder list \<Rightarrow> 'a list" where
  "sort_dedup xs = remdups_adj (sort xs)"

lemma set_sort_dedup [simp]: "set (sort_dedup xs) = set xs"
  by (simp add: sort_dedup_def)

lemma strict_sorted_remdups_adj: "sorted xs \<Longrightarrow> sorted_wrt (<) (remdups_adj xs)"
proof (induction xs rule: remdups_adj.induct)
  case (3 x y xs)
  have "z \<in> set (remdups_adj (y # xs)) \<Longrightarrow> y \<le> z" for z
    using "3.prems" by auto
  with 3 show ?case by (fastforce dest: le_neq_trans)
qed simp_all

lemma strict_sorted_sort_dedup: "sorted_wrt (<) (sort_dedup xs)"
  unfolding sort_dedup_def by (rule strict_sorted_remdups_adj) simp

lemma distinct_sort_dedup [simp]: "distinct (sort_dedup xs)"
  using strict_sorted_sort_dedup strict_sorted_iff by blast

lemma sort_dedup_set: "sort_dedup xs = sorted_list_of_set (set xs)"
  using strict_sorted_sort_dedup [of xs]
  by (metis set_sort_dedup sorted_list_of_set.idem_if_sorted_distinct strict_sorted_iff)

end
