(* ===== verification/Clock.thy ===== *)
theory Clock
  imports Prelude
begin

text \<open>
  \<open>src/clock.rs\<close>: the clock abstraction.  A clock is what \<open>now_secs\<close> reads; \<open>HybridClock\<close>
  keeps the wall time at its creation and the monotonic instant of that moment, and adds the
  monotonic time elapsed since; \<open>MockClock\<close> holds a settable time.  The operating system's
  monotonic counter is a parameter, given here in seconds.
\<close>

text \<open>The trait's provided method, on the value \<open>now_secs\<close> returned.\<close>

definition elapsed_since :: "u64 \<Rightarrow> u64 \<Rightarrow> u64" where
  "elapsed_since now earlier_secs = (if earlier_secs \<le> now then now - earlier_secs else 0)"

record hybrid_clock =
  baseline_wall_secs :: u64
  baseline_monotonic :: nat

definition hybrid_new :: "u64 \<Rightarrow> nat \<Rightarrow> hybrid_clock" where
  "hybrid_new wall ticks = \<lparr>baseline_wall_secs = wall, baseline_monotonic = ticks\<rparr>"

definition hybrid_now_secs :: "hybrid_clock \<Rightarrow> nat \<Rightarrow> u64" where
  "hybrid_now_secs c ticks =
     baseline_wall_secs c + word_of_nat (ticks - baseline_monotonic c)"

record mock_clock =
  current_time :: u64

definition mock_new :: "u64 \<Rightarrow> mock_clock" where
  "mock_new initial_secs = \<lparr>current_time = initial_secs\<rparr>"

definition mock_advance :: "mock_clock \<Rightarrow> u64 \<Rightarrow> mock_clock" where
  "mock_advance c secs = c\<lparr>current_time := current_time c + secs\<rparr>"

definition mock_set_time :: "mock_clock \<Rightarrow> u64 \<Rightarrow> mock_clock" where
  "mock_set_time c secs = c\<lparr>current_time := secs\<rparr>"

definition mock_now_secs :: "mock_clock \<Rightarrow> u64" where
  "mock_now_secs c = current_time c"

section \<open>Elapsed time\<close>

lemma elapsed_since_saturates: "elapsed_since now t = u64_saturating_sub now t"
  by (simp add: elapsed_since_def u64_saturating_sub_def)

lemma unat_elapsed_since [wordarith]: "unat (elapsed_since now t) = unat now - unat t"
  by (simp add: elapsed_since_saturates unat_u64_saturating_sub)

lemma elapsed_since_le: "elapsed_since now t \<le> now"
  by (simp add: word_le_nat_alt unat_elapsed_since)

lemma unat_hybrid_now:
  assumes "unat (baseline_wall_secs c) + (ticks - baseline_monotonic c) < 2 ^ 64"
  shows "unat (hybrid_now_secs c ticks) = unat (baseline_wall_secs c) + (ticks - baseline_monotonic c)"
proof -
  let ?d = "ticks - baseline_monotonic c"
  have "unat (word_of_nat ?d :: u64) = ?d"
    using assms by (simp add: unat_of_nat)
  with assms show ?thesis
    by (simp add: hybrid_now_secs_def unat_word_ariths)
qed

lemma hybrid_clock_monotone:
  assumes "m1 \<le> m2"
    and "unat (baseline_wall_secs c) + (m2 - baseline_monotonic c) < 2 ^ 64"
  shows "hybrid_now_secs c m1 \<le> hybrid_now_secs c m2"
  using assms by (simp add: word_le_nat_alt unat_hybrid_now)

end
