(* ===== verification/Errors.thy ===== *)
theory Errors
  imports Prelude
begin

text \<open>
  \<open>src/errors.rs\<close>: the error enumeration every fallible operation of the crate returns, and
  its classification into recovery buckets.  The payloads that wrap errors of third-party
  crates (SQLite, MessagePack) keep only a description.
\<close>

datatype error_class = Permanent | Transient | RequiresEscalation

datatype sync_engine_error =
    NoSequenceReserved string
  | SequenceOutOfOrder (soo_account: string) (soo_requested: i64) (soo_last_reserved: i64)
  | InvalidEnvelope string
  | XdrParse string
  | SourceAccountMismatch (sam_claimed: string) (sam_actual: string)
  | SequenceMismatch (sm_account: string) (sm_reserved: i64) (sm_actual: i64)
  | EnvelopeNotFound string
  | InvalidStateTransition (ist_from: string) (ist_to: string)
  | BackpressureWindowFull (bwf_max_in_flight: usize)
  | DuplicateInFlight
  | InvalidDispatchWindow string
  | UnresolvedConflict string
  | EmergencyQueueLimitExceeded (eqle_current: usize) (eqle_max: usize) (eqle_window_secs: u64)
  | UnknownMultisigSigner (ums_account: string)
  | MultisigThresholdNotMet (mtn_account: string) (mtn_accumulated_weight: u32)
      (mtn_required_threshold: u32)
  | ConnectionError string
  | SqliteError string
  | SerializationError string
  | DeserializationError string
  | PqVerificationFailed
  | EncryptionError string
  | EncryptionKeyMismatch
  | DecryptionFailed
  | ImportTargetNotEmpty
  | IncompatibleSnapshotSchemaVersion (issv_found: u32) (issv_expected: u32)

text \<open>Rust's \<open>Result<T, SyncEngineError>\<close>: \<open>Inl\<close> is \<open>Err\<close>, \<open>Inr\<close> is \<open>Ok\<close>.\<close>

type_synonym 'a result = "sync_engine_error + 'a"

definition is_ok :: "'e + 'a \<Rightarrow> bool" where
  "is_ok r = (case r of Inl _ \<Rightarrow> False | Inr _ \<Rightarrow> True)"

lemma is_ok_simps [simp]: "is_ok (Inr a) = True" "is_ok (Inl e) = False"
  by (simp_all add: is_ok_def)

text \<open>\<open>collect::<Result<Vec<_>, _>>\<close>: the first error, or all the values.\<close>

fun collect_results :: "('e + 'a) list \<Rightarrow> 'e + 'a list" where
  "collect_results [] = Inr []"
| "collect_results (Inl e # rs) = Inl e"
| "collect_results (Inr a # rs) =
     (case collect_results rs of Inl e \<Rightarrow> Inl e | Inr as \<Rightarrow> Inr (a # as))"

lemma collect_results_Inr [simp]: "collect_results (map (\<lambda>x. Inr (f x)) xs) = Inr (map f xs)"
  by (induction xs) auto

lemma collect_results_cong:
  "(\<And>x. x \<in> set xs \<Longrightarrow> g x = Inr (f x)) \<Longrightarrow> collect_results (map g xs) = Inr (map f xs)"
  by (induction xs) auto

section \<open>SyncEngineError::classify\<close>

fun classify :: "sync_engine_error \<Rightarrow> error_class" where
  "classify (NoSequenceReserved _) = Permanent"
| "classify (SequenceOutOfOrder _ _ _) = Permanent"
| "classify (InvalidEnvelope _) = Permanent"
| "classify (XdrParse _) = Permanent"
| "classify (SourceAccountMismatch _ _) = Permanent"
| "classify (SequenceMismatch _ _ _) = Permanent"
| "classify (EnvelopeNotFound _) = Permanent"
| "classify (InvalidStateTransition _ _) = Permanent"
| "classify (BackpressureWindowFull _) = Transient"
| "classify DuplicateInFlight = Permanent"
| "classify (InvalidDispatchWindow _) = Permanent"
| "classify (UnknownMultisigSigner _) = Permanent"
| "classify (MultisigThresholdNotMet _ _ _) = Permanent"
| "classify (SerializationError _) = Permanent"
| "classify (DeserializationError _) = Permanent"
| "classify PqVerificationFailed = Permanent"
| "classify (EncryptionError _) = Permanent"
| "classify EncryptionKeyMismatch = Permanent"
| "classify DecryptionFailed = Permanent"
| "classify ImportTargetNotEmpty = Permanent"
| "classify (IncompatibleSnapshotSchemaVersion _ _) = Permanent"
| "classify (UnresolvedConflict _) = RequiresEscalation"
| "classify (EmergencyQueueLimitExceeded _ _ _) = RequiresEscalation"
| "classify (ConnectionError _) = Transient"
| "classify (SqliteError _) = Transient"

lemma classify_transient_iff:
  "classify e = Transient \<longleftrightarrow>
     (\<exists>n. e = BackpressureWindowFull n) \<or> (\<exists>s. e = ConnectionError s) \<or> (\<exists>s. e = SqliteError s)"
  by (cases e) auto

end
