(* ===== verification/Core_Types.thy ===== *)
theory Core_Types
  imports Errors
begin

text \<open>
  The types of the \<open>stellarconduit-core\<close> crate that the sources construct and take apart: the
  mesh envelope and the relay-chain proof.  Only the fields the sources name are kept; a
  64-byte signature is a 512-bit word.  How that crate computes message ids and signatures and
  how it checks proofs stays a parameter of the definitions that need it.
\<close>

record transaction_envelope =
  message_id :: bytes32
  origin_pubkey :: bytes32
  tx_xdr :: string
  ttl_hops :: u8
  env_timestamp :: u64
  env_signature :: "512 word"

record relay_chain_proof =
  chain_hash :: bytes32
  proof_sequence :: u64
  proof_signature :: "512 word"

text \<open>\<open>hex::encode\<close> on a 32-byte array is a parameter of this type.\<close>

type_synonym hex_encode = "bytes32 \<Rightarrow> string"

text \<open>A concrete envelope, for the examples that instantiate properties.\<close>

abbreviation sample_envelope :: "bytes32 \<Rightarrow> transaction_envelope" where
  "sample_envelope mid \<equiv>
     \<lparr>message_id = mid, origin_pubkey = 1, tx_xdr = [], ttl_hops = 3, env_timestamp = 0, env_signature = 0\<rparr>"

end
