(* ===== verification/Detector.thy ===== *)
theory Detector
  imports Core_Types
begin

text \<open>
  \<open>src/conflict/detector.rs\<close>: two different envelopes that claim one (account, sequence) slot.
  The slots are grouped in a \<open>HashMap\<close> whose iteration order is unspecified; it is the
  parameter \<open>order\<close>, any rearrangement of the entries.
\<close>

record queued_slot =
  slot_source_account :: string
  slot_sequence :: i64
  slot_message_id :: bytes32

record conflict =
  c_source_account :: string
  c_sequence :: i64
  envelope_a :: bytes32
  envelope_b :: bytes32

definition conflicts_between :: "queued_slot \<Rightarrow> queued_slot \<Rightarrow> conflict option" where
  "conflicts_between a b =
     (if slot_source_account a \<noteq> slot_source_account b \<or> slot_sequence a \<noteq> slot_sequence b then None
      else if slot_message_id a = slot_message_id b then None
      else Some \<lparr>c_source_account = slot_source_account a, c_sequence = slot_sequence a,
                 envelope_a = slot_message_id a, envelope_b = slot_message_id b\<rparr>)"

type_synonym slot_groups = "((string \<times> i64) \<times> bytes32 list) list"

definition push_group :: "slot_groups \<Rightarrow> queued_slot \<Rightarrow> slot_groups" where
  "push_group groups slot =
     (let k = (slot_source_account slot, slot_sequence slot);
          ids = (case map_of groups k of None \<Rightarrow> [] | Some ids \<Rightarrow> ids)
      in AList.update k (ids @ [slot_message_id slot]) groups)"

definition group_slots :: "queued_slot list \<Rightarrow> slot_groups" where
  "group_slots slots = foldl push_group [] slots"

definition conflicts_of_group :: "(string \<times> i64) \<times> bytes32 list \<Rightarrow> conflict list" where
  "conflicts_of_group g =
     (case g of ((account, sequence), ids) \<Rightarrow>
        map (\<lambda>(a, b). \<lparr>c_source_account = account, c_sequence = sequence,
                        envelope_a = a, envelope_b = b\<rparr>)
          (ordered_pairs (sort_dedup ids)))"

definition conflict_key :: "conflict \<Rightarrow> string \<times> int \<times> bytes32 \<times> bytes32" where
  "conflict_key c = (c_source_account c, sint (c_sequence c), envelope_a c, envelope_b c)"

definition detect_conflicts ::
  "(slot_groups \<Rightarrow> slot_groups) \<Rightarrow> queued_slot list \<Rightarrow> conflict list" where
  "detect_conflicts order slots =
     sort_key conflict_key (concat (map conflicts_of_group (order (group_slots slots))))"

record nway_conflict =
  n_source_account :: string
  n_sequence :: i64
  message_ids :: "bytes32 list"

definition nway_of_group :: "(string \<times> i64) \<times> bytes32 list \<Rightarrow> nway_conflict list" where
  "nway_of_group g =
     (case g of ((account, sequence), ids) \<Rightarrow>
        let ids' = sort_dedup ids
        in if 2 \<le> length ids'
           then [\<lparr>n_source_account = account, n_sequence = sequence, message_ids = ids'\<rparr>] else [])"

definition nway_key :: "nway_conflict \<Rightarrow> string \<times> int \<times> bytes32 list" where
  "nway_key c = (n_source_account c, sint (n_sequence c), message_ids c)"

definition detect_nway_conflicts ::
  "(slot_groups \<Rightarrow> slot_groups) \<Rightarrow> queued_slot list \<Rightarrow> nway_conflict list" where
  "detect_nway_conflicts order slots =
     sort_key nway_key (concat (map nway_of_group (order (group_slots slots))))"

section \<open>The groups\<close>

definition slot_key :: "queued_slot \<Rightarrow> string \<times> i64" where
  "slot_key s = (slot_source_account s, slot_sequence s)"

definition ids_at :: "queued_slot list \<Rightarrow> string \<times> i64 \<Rightarrow> bytes32 list" where
  "ids_at slots k = map slot_message_id (filter (\<lambda>s. slot_key s = k) slots)"

definition claimants :: "queued_slot set \<Rightarrow> string \<times> i64 \<Rightarrow> bytes32 set" where
  "claimants S k = slot_message_id ` {s \<in> S. slot_key s = k}"

lemma set_ids_at [simp]: "set (ids_at slots k) = claimants (set slots) k"
  by (auto simp: ids_at_def claimants_def)

lemma finite_claimants [simp]: "finite (claimants (set slots) k)"
  by (simp add: claimants_def)

lemma group_slots_append: "group_slots (slots @ [s]) = push_group (group_slots slots) s"
  by (simp add: group_slots_def)

lemma map_of_group_slots:
  "map_of (group_slots slots) k = (if ids_at slots k = [] then None else Some (ids_at slots k))"
proof (induction slots rule: rev_induct)
  case Nil
  then show ?case by (simp add: group_slots_def ids_at_def)
next
  case (snoc s slots)
  then show ?case
    by (auto simp: group_slots_append push_group_def update_conv ids_at_def slot_key_def Let_def)
qed

lemma distinct_group_slots: "distinct (map fst (group_slots slots))"
proof (induction slots rule: rev_induct)
  case Nil
  then show ?case by (simp add: group_slots_def)
next
  case (snoc s slots)
  then show ?case by (simp add: group_slots_append push_group_def distinct_update Let_def)
qed

lemma set_group_slots:
  "set (group_slots slots) = {(k, ids_at slots k) | k. claimants (set slots) k \<noteq> {}}"
proof -
  have "(k, ids) \<in> set (group_slots slots) \<longleftrightarrow> map_of (group_slots slots) k = Some ids" for k ids
    using distinct_group_slots by (simp add: map_of_eq_Some_iff)
  moreover have "ids_at slots k = [] \<longleftrightarrow> claimants (set slots) k = {}" for k
    by (metis set_empty set_ids_at)
  ultimately show ?thesis by (auto simp: map_of_group_slots split: if_splits)
qed

section \<open>The conflicts of a group\<close>

lemma set_conflicts_of_group:
  "set (conflicts_of_group ((acc, sq), ids)) =
     {c. c_source_account c = acc \<and> c_sequence c = sq \<and> envelope_a c \<in> set ids \<and>
         envelope_b c \<in> set ids \<and> envelope_a c < envelope_b c}" (is "?L = ?R")
proof
  show "?L \<subseteq> ?R"
    by (auto simp: conflicts_of_group_def set_ordered_pairs [OF strict_sorted_sort_dedup])
  show "?R \<subseteq> ?L"
  proof
    fix c :: conflict
    assume "c \<in> ?R"
    moreover have "c = \<lparr>c_source_account = c_source_account c, c_sequence = c_sequence c,
        envelope_a = envelope_a c, envelope_b = envelope_b c\<rparr>" by simp
    ultimately show "c \<in> ?L"
      by (auto simp: conflicts_of_group_def set_ordered_pairs [OF strict_sorted_sort_dedup]
          intro!: image_eqI [of _ _ "(envelope_a c, envelope_b c)"])
  qed
qed

lemma distinct_conflicts_of_group: "distinct (conflicts_of_group g)"
  by (cases g) (auto simp: conflicts_of_group_def distinct_map inj_on_def distinct_ordered_pairs)

lemma set_nway_of_group:
  "set (nway_of_group ((acc, sq), ids)) =
     {n. n_source_account n = acc \<and> n_sequence n = sq \<and>
         message_ids n = sorted_list_of_set (set ids) \<and> 2 \<le> card (set ids)}"
proof -
  have "length (sort_dedup ids) = card (set ids)"
    using distinct_card [OF distinct_sort_dedup [of ids]] by simp
  then show ?thesis by (auto simp: nway_of_group_def Let_def sort_dedup_set)
qed

lemma distinct_nway_of_group: "distinct (nway_of_group g)"
  by (cases g) (auto simp: nway_of_group_def Let_def)

lemma inj_conflict_key: "inj conflict_key"
  by (rule injI) (auto simp: conflict_key_def sint_i64_eq_iff)

lemma inj_nway_key: "inj nway_key"
  by (rule injI) (auto simp: nway_key_def sint_i64_eq_iff)

section \<open>The detected conflicts\<close>

definition rearranges :: "('a list \<Rightarrow> 'a list) \<Rightarrow> bool" where
  "rearranges order \<longleftrightarrow> (\<forall>xs. mset (order xs) = mset xs)"

lemma rearranges_set [simp]: "rearranges order \<Longrightarrow> set (order xs) = set xs"
  by (metis mset_eq_setD rearranges_def)

lemma rearranges_distinct [simp]:
  "rearranges order \<Longrightarrow> distinct (map fst (order xs)) \<longleftrightarrow> distinct (map fst xs)"
  by (metis mset_eq_imp_distinct_iff mset_map rearranges_def)

lemma conflicts_between_Some:
  "conflicts_between a b = Some c \<longleftrightarrow>
     slot_key a = (c_source_account c, c_sequence c) \<and> slot_key b = (c_source_account c, c_sequence c) \<and>
     envelope_a c = slot_message_id a \<and> envelope_b c = slot_message_id b \<and> envelope_a c \<noteq> envelope_b c"
  by (cases c) (auto simp: conflicts_between_def slot_key_def)

lemma set_conflicts:
  assumes "rearranges order"
  shows "c \<in> set (concat (map conflicts_of_group (order (group_slots slots)))) \<longleftrightarrow>
     (\<exists>a \<in> set slots. \<exists>b \<in> set slots. conflicts_between a b = Some c \<and> envelope_a c < envelope_b c)"
    (is "?L \<longleftrightarrow> ?R")
proof -
  let ?k = "(c_source_account c, c_sequence c)"
  have "?L \<longleftrightarrow> envelope_a c \<in> claimants (set slots) ?k \<and> envelope_b c \<in> claimants (set slots) ?k \<and>
      envelope_a c < envelope_b c"
    using assms by (auto simp: set_group_slots set_conflicts_of_group)
  also have "\<dots> \<longleftrightarrow> ?R"
    unfolding claimants_def conflicts_between_Some by fastforce
  finally show ?thesis .
qed

lemma distinct_conflicts:
  assumes "rearranges order"
  shows "distinct (concat (map conflicts_of_group (order (group_slots slots))))"
proof (rule distinct_concat_keyed)
  show "distinct (map fst (order (group_slots slots)))"
    using assms by (simp add: distinct_group_slots)
  show "\<forall>g \<in> set (order (group_slots slots)). distinct (conflicts_of_group g) \<and>
      (\<forall>c \<in> set (conflicts_of_group g). (c_source_account c, c_sequence c) = fst g)"
    by (auto simp: distinct_conflicts_of_group set_conflicts_of_group)
qed

lemma set_nway:
  assumes "rearranges order"
  shows "n \<in> set (concat (map nway_of_group (order (group_slots slots)))) \<longleftrightarrow>
     message_ids n = sorted_list_of_set (claimants (set slots) (n_source_account n, n_sequence n)) \<and>
     2 \<le> card (claimants (set slots) (n_source_account n, n_sequence n))"
  using assms by (auto simp: set_group_slots set_nway_of_group)

lemma distinct_nway:
  assumes "rearranges order"
  shows "distinct (concat (map nway_of_group (order (group_slots slots))))"
proof (rule distinct_concat_keyed)
  show "distinct (map fst (order (group_slots slots)))"
    using assms by (simp add: distinct_group_slots)
  show "\<forall>g \<in> set (order (group_slots slots)). distinct (nway_of_group g) \<and>
      (\<forall>n \<in> set (nway_of_group g). (n_source_account n, n_sequence n) = fst g)"
    by (auto simp: distinct_nway_of_group set_nway_of_group)
qed

text \<open>
  C21. Double-spend detection is sound, complete and free of repetitions: a conflict is
  reported exactly when two of the queued slots clash in the sense of \<open>conflicts_between\<close>,
  each unordered pair of envelopes once (the smaller id first), in the order of account,
  sequence and ids, whatever the iteration order of the hash map.
\<close>

theorem detect_conflicts_exact:
  "rearranges order \<Longrightarrow>
     (\<forall>c. c \<in> set (detect_conflicts order slots) \<longleftrightarrow>
       (\<exists>a \<in> set slots. \<exists>b \<in> set slots. conflicts_between a b = Some c \<and> envelope_a c < envelope_b c)) \<and>
     distinct (detect_conflicts order slots) \<and>
     sorted (map conflict_key (detect_conflicts order slots))"
  unfolding detect_conflicts_def
  using set_conflicts [of order] distinct_conflicts [of order] by simp

theorem detect_conflicts_exact_witness:
  "distinct (detect_conflicts rev
     [\<lparr>slot_source_account = ''A'', slot_sequence = 5, slot_message_id = 2\<rparr>,
      \<lparr>slot_source_account = ''A'', slot_sequence = 5, slot_message_id = 1\<rparr>])"
  using detect_conflicts_exact [of rev "[\<lparr>slot_source_account = ''A'', slot_sequence = 5, slot_message_id = 2\<rparr>,
      \<lparr>slot_source_account = ''A'', slot_sequence = 5, slot_message_id = 1\<rparr>]"]
  by (simp add: rearranges_def)

lemma detect_conflicts_set:
  "rearranges order \<Longrightarrow> rearranges order' \<Longrightarrow> set slots = set slots' \<Longrightarrow>
   detect_conflicts order slots = detect_conflicts order' slots'"
  unfolding detect_conflicts_def
  by (rule sorted_key_set_unique [OF _ distinct_conflicts distinct_conflicts inj_conflict_key])
    (use set_conflicts in \<open>blast+\<close>)

lemma detect_nway_set:
  "rearranges order \<Longrightarrow> rearranges order' \<Longrightarrow> set slots = set slots' \<Longrightarrow>
   detect_nway_conflicts order slots = detect_nway_conflicts order' slots'"
  unfolding detect_nway_conflicts_def
  by (rule sorted_key_set_unique [OF _ distinct_nway distinct_nway inj_nway_key])
    (auto simp: set_nway simp del: set_concat)

lemma set_detect_nway:
  "rearranges order \<Longrightarrow> n \<in> set (detect_nway_conflicts order slots) \<longleftrightarrow>
     message_ids n = sorted_list_of_set (claimants (set slots) (n_source_account n, n_sequence n)) \<and>
     2 \<le> card (claimants (set slots) (n_source_account n, n_sequence n))"
  using set_nway [of order] by (simp add: detect_nway_conflicts_def)

lemma set_detect_conflicts:
  assumes "rearranges order"
  shows "c \<in> set (detect_conflicts order slots) \<longleftrightarrow>
     envelope_a c \<in> claimants (set slots) (c_source_account c, c_sequence c) \<and>
     envelope_b c \<in> claimants (set slots) (c_source_account c, c_sequence c) \<and>
     envelope_a c < envelope_b c"
  using assms by (auto simp: detect_conflicts_def set_group_slots set_conflicts_of_group)

lemma nway_pairs:
  assumes "rearranges order"
  shows "c \<in> set (detect_conflicts order slots) \<longleftrightarrow>
     (\<exists>n \<in> set (detect_nway_conflicts order slots).
        n_source_account n = c_source_account c \<and> n_sequence n = c_sequence c \<and>
        envelope_a c \<in> set (message_ids n) \<and> envelope_b c \<in> set (message_ids n) \<and>
        envelope_a c < envelope_b c)" (is "?L \<longleftrightarrow> ?R")
proof
  let ?k = "(c_source_account c, c_sequence c)"
  let ?C = "claimants (set slots) ?k"
  assume ?L
  then have in_C: "envelope_a c \<in> ?C" "envelope_b c \<in> ?C" "envelope_a c < envelope_b c"
    by (auto simp: set_detect_conflicts [OF assms])
  then have "card {envelope_a c, envelope_b c} \<le> card ?C"
    by (intro card_mono) auto
  then have "2 \<le> card ?C" using in_C(3) by simp
  then have "\<lparr>n_source_account = c_source_account c, n_sequence = c_sequence c,
      message_ids = sorted_list_of_set ?C\<rparr> \<in> set (detect_nway_conflicts order slots)"
    by (simp add: set_detect_nway [OF assms])
  then show ?R
    using in_C by (auto intro: bexI [rotated])
next
  assume ?R
  then show ?L by (auto simp: set_detect_nway [OF assms] set_detect_conflicts [OF assms])
qed

lemma nway_slots_distinct:
  assumes "rearranges order"
  shows "distinct (map (\<lambda>n. (n_source_account n, n_sequence n)) (detect_nway_conflicts order slots))"
proof -
  have "distinct (detect_nway_conflicts order slots)"
    using distinct_nway [OF assms] by (simp add: detect_nway_conflicts_def)
  moreover have "inj_on (\<lambda>n. (n_source_account n, n_sequence n))
      (set (detect_nway_conflicts order slots))"
    by (rule inj_onI) (simp add: set_detect_nway [OF assms])
  ultimately show ?thesis by (simp add: distinct_map)
qed

text \<open>
  Both detectors are functions of the set of queued slots: neither the order in which
  slots are scanned, nor repetitions, nor the iteration order of the hash map changes the
  result.  The grouped report has one entry per contested slot, and the pairwise report is
  exactly what the grouped one says pair by pair.
\<close>

theorem detect_set_dependence:
  "rearranges order \<Longrightarrow> rearranges order' \<Longrightarrow> set slots = set slots' \<Longrightarrow>
     detect_conflicts order slots = detect_conflicts order' slots' \<and>
     detect_nway_conflicts order slots = detect_nway_conflicts order' slots' \<and>
     distinct (map (\<lambda>n. (n_source_account n, n_sequence n)) (detect_nway_conflicts order slots)) \<and>
     (\<forall>c. c \<in> set (detect_conflicts order slots) \<longleftrightarrow>
       (\<exists>n \<in> set (detect_nway_conflicts order slots).
          n_source_account n = c_source_account c \<and> n_sequence n = c_sequence c \<and>
          envelope_a c \<in> set (message_ids n) \<and> envelope_b c \<in> set (message_ids n) \<and>
          envelope_a c < envelope_b c))"
  by (intro conjI allI detect_conflicts_set detect_nway_set nway_slots_distinct nway_pairs)

theorem detect_set_dependence_witness:
  "detect_nway_conflicts rev
     [\<lparr>slot_source_account = ''A'', slot_sequence = 5, slot_message_id = 2\<rparr>,
      \<lparr>slot_source_account = ''A'', slot_sequence = 5, slot_message_id = 1\<rparr>] =
   detect_nway_conflicts id
     [\<lparr>slot_source_account = ''A'', slot_sequence = 5, slot_message_id = 1\<rparr>,
      \<lparr>slot_source_account = ''A'', slot_sequence = 5, slot_message_id = 2\<rparr>]"
  using detect_set_dependence [of rev id
      "[\<lparr>slot_source_account = ''A'', slot_sequence = 5, slot_message_id = 2\<rparr>,
        \<lparr>slot_source_account = ''A'', slot_sequence = 5, slot_message_id = 1\<rparr>]"
      "[\<lparr>slot_source_account = ''A'', slot_sequence = 5, slot_message_id = 1\<rparr>,
        \<lparr>slot_source_account = ''A'', slot_sequence = 5, slot_message_id = 2\<rparr>]"]
  by (simp add: rearranges_def insert_commute)

end
