(* ===== verification/Resolver.thy ===== *)
theory Resolver
  imports Detector Errors
begin

text \<open>
  \<open>src/conflict/resolver.rs\<close>: the deterministic decision between conflicting envelopes from
  relay-chain proofs.  Parsing a relay key and verifying a proof are functions of third-party
  crates: \<open>from_key\<close> is \<open>VerifyingKey::from_bytes\<close> (\<open>None\<close> its error) and
  \<open>verify proof key tx_id\<close> is \<open>RelayChainProof::verify\<close>.  A \<open>HashSet\<close> of relay keys is a list
  without repetitions; only its size is used.
\<close>

definition MIN_QUORUM :: usize where "MIN_QUORUM = 2"

record relay_observation =
  relay_pubkey :: bytes32
  obs_proof :: relay_chain_proof

record conflict_evidence =
  envelope_a_timestamp :: u64
  envelope_b_timestamp :: u64
  envelope_a_observations :: "relay_observation list"
  envelope_b_observations :: "relay_observation list"

type_synonym 'vk from_key = "bytes32 \<Rightarrow> 'vk option"
type_synonym 'vk verify_proof = "relay_chain_proof \<Rightarrow> 'vk \<Rightarrow> bytes32 \<Rightarrow> bool"

definition observation_verifies ::
  "'vk from_key \<Rightarrow> 'vk verify_proof \<Rightarrow> bytes32 \<Rightarrow> relay_observation \<Rightarrow> bool" where
  "observation_verifies from_key verify tx_id obs =
     (case from_key (relay_pubkey obs) of
        Some key \<Rightarrow> verify (obs_proof obs) key tx_id
      | None \<Rightarrow> False)"

definition count_distinct_valid_relays ::
  "'vk from_key \<Rightarrow> 'vk verify_proof \<Rightarrow> relay_observation list \<Rightarrow> i64 \<Rightarrow> bytes32 \<Rightarrow> bytes32 list" where
  "count_distinct_valid_relays from_key verify observations conflict_sequence tx_id =
     (let expected_sequence = (conflict_sequence :: u64)
      in remdups (map relay_pubkey
           (filter (observation_verifies from_key verify tx_id)
             (filter (\<lambda>obs. proof_sequence (obs_proof obs) = expected_sequence) observations))))"

definition resolve_conflict ::
  "hex_encode \<Rightarrow> 'vk from_key \<Rightarrow> 'vk verify_proof \<Rightarrow> conflict \<Rightarrow> conflict_evidence \<Rightarrow> bytes32 result" where
  "resolve_conflict hex from_key verify c evidence =
     (let relays_a = count_distinct_valid_relays from_key verify
            (envelope_a_observations evidence) (c_sequence c) (envelope_a c);
          relays_b = count_distinct_valid_relays from_key verify
            (envelope_b_observations evidence) (c_sequence c) (envelope_b c);
          n_a = length relays_a;
          n_b = length relays_b;
          a_wins = (MIN_QUORUM \<le> n_a \<and> n_b < n_a);
          b_wins = (MIN_QUORUM \<le> n_b \<and> n_a < n_b)
      in if a_wins \<and> \<not> b_wins then Inr (envelope_a c)
         else if \<not> a_wins \<and> b_wins then Inr (envelope_b c)
         else Inl (UnresolvedConflict
           (''conflict on account '' @ c_source_account c @
            '' sequence '' @ show_i64 (c_sequence c) @
            '' between '' @ hex (envelope_a c) @
            '' (timestamp '' @ show_u64 (envelope_a_timestamp evidence) @
            '', '' @ show_nat n_a @ '' verified distinct relay(s)) and '' @ hex (envelope_b c) @
            '' (timestamp '' @ show_u64 (envelope_b_timestamp evidence) @
            '', '' @ show_nat n_b @
            '' verified distinct relay(s)) could not be resolved off-chain: a winning side needs at least '' @
            show_nat MIN_QUORUM @
            '' distinct corroborating relays and strictly more than the other side'')))"

section \<open>More than two candidates\<close>

record candidate_evidence =
  cand_message_id :: bytes32
  cand_timestamp :: u64
  cand_observations :: "relay_observation list"

text \<open>
  The two \<open>expect\<close>s of the code are panics; \<open>None\<close> stands for them.  They are reached only on a
  conflict without candidates.
\<close>

definition resolve_nway_conflict ::
  "'vk from_key \<Rightarrow> 'vk verify_proof \<Rightarrow> nway_conflict \<Rightarrow> candidate_evidence list
     \<Rightarrow> bytes32 result option" where
  "resolve_nway_conflict from_key verify c evidence =
     (let expected_ids = sort (message_ids c);
          given_ids = sort (map cand_message_id evidence)
      in if expected_ids \<noteq> given_ids
         then Some (Inl (UnresolvedConflict
           (''evidence provided for account '' @ n_source_account c @
            '' sequence '' @ show_i64 (n_sequence c) @
            '' does not match the '' @ show_nat (length (message_ids c)) @
            '' conflicting envelope(s) on that slot'')))
         else
           let counts = map (\<lambda>candidate. (cand_message_id candidate,
                 length (count_distinct_valid_relays from_key verify
                   (cand_observations candidate) (n_sequence c) (cand_message_id candidate)))) evidence
           in if counts = [] then None
              else
                let max_count = foldr max (map snd counts) 0
                in (case filter (\<lambda>(_, n). n = max_count) counts of
                      [] \<Rightarrow> None
                    | winner # others \<Rightarrow>
                        if others = [] \<and> MIN_QUORUM \<le> max_count then Some (Inr (fst winner))
                        else Some (Inl (UnresolvedConflict
                          (''conflict on account '' @ n_source_account c @
                           '' sequence '' @ show_i64 (n_sequence c) @
                           '' among '' @ show_nat (length (message_ids c)) @
                           '' candidates could not be resolved off-chain: a winning envelope needs at least '' @
                           show_nat MIN_QUORUM @
                           '' distinct corroborating relays and strictly more than every other candidate'')))))"

section \<open>The evidence that counts\<close>

text \<open>The relays whose proofs verify for \<open>tx_id\<close> on the conflict's slot.\<close>

definition valid_relays ::
  "'vk from_key \<Rightarrow> 'vk verify_proof \<Rightarrow> relay_observation set \<Rightarrow> i64 \<Rightarrow> bytes32 \<Rightarrow> bytes32 set" where
  "valid_relays from_key verify Obs sq tx_id =
     {k. \<exists>p key. \<lparr>relay_pubkey = k, obs_proof = p\<rparr> \<in> Obs \<and> proof_sequence p = sq \<and>
           from_key k = Some key \<and> verify p key tx_id}"

lemma observation_eta:
  "\<lparr>relay_pubkey = k, obs_proof = p\<rparr> = (ob :: relay_observation) \<longleftrightarrow> relay_pubkey ob = k \<and> obs_proof ob = p"
  by (cases ob) auto

lemma set_count_distinct:
  "set (count_distinct_valid_relays from_key verify obs sq tx_id) =
     valid_relays from_key verify (set obs) sq tx_id"
proof -
  have "k \<in> valid_relays from_key verify (set obs) sq tx_id \<longleftrightarrow>
      (\<exists>ob \<in> set obs. relay_pubkey ob = k \<and> proof_sequence (obs_proof ob) = sq \<and>
        observation_verifies from_key verify tx_id ob)" for k
  proof
    assume "k \<in> valid_relays from_key verify (set obs) sq tx_id"
    then obtain p key where "\<lparr>relay_pubkey = k, obs_proof = p\<rparr> \<in> set obs" "proof_sequence p = sq"
        "from_key k = Some key" "verify p key tx_id"
      by (auto simp: valid_relays_def)
    then show "\<exists>ob \<in> set obs. relay_pubkey ob = k \<and> proof_sequence (obs_proof ob) = sq \<and>
        observation_verifies from_key verify tx_id ob"
      by (intro bexI [of _ "\<lparr>relay_pubkey = k, obs_proof = p\<rparr>"])
        (simp_all add: observation_verifies_def)
  next
    assume "\<exists>ob \<in> set obs. relay_pubkey ob = k \<and> proof_sequence (obs_proof ob) = sq \<and>
        observation_verifies from_key verify tx_id ob"
    then obtain ob where ob: "ob \<in> set obs" "relay_pubkey ob = k" "proof_sequence (obs_proof ob) = sq"
        "observation_verifies from_key verify tx_id ob" by blast
    then obtain key where "from_key k = Some key" "verify (obs_proof ob) key tx_id"
      by (auto simp: observation_verifies_def split: option.splits)
    moreover have "\<lparr>relay_pubkey = k, obs_proof = obs_proof ob\<rparr> = ob"
      using ob(2) by (simp add: observation_eta)
    ultimately show "k \<in> valid_relays from_key verify (set obs) sq tx_id"
      using ob(1,3) unfolding valid_relays_def
      by (intro CollectI exI [of _ "obs_proof ob"] exI [of _ key]) simp
  qed
  then show ?thesis by (auto simp: count_distinct_valid_relays_def)
qed

lemma length_count_distinct:
  "length (count_distinct_valid_relays from_key verify obs sq tx_id) =
     card (valid_relays from_key verify (set obs) sq tx_id)"
proof -
  have "distinct (count_distinct_valid_relays from_key verify obs sq tx_id)"
    by (simp add: count_distinct_valid_relays_def)
  from distinct_card [OF this] show ?thesis by (simp add: set_count_distinct)
qed

lemma finite_valid_relays [simp]: "finite (valid_relays from_key verify (set obs) sq tx_id)"
  using finite_set [of "count_distinct_valid_relays from_key verify obs sq tx_id"]
  by (simp only: set_count_distinct)

text \<open>The weight of each side.\<close>

definition weight_a :: "'vk from_key \<Rightarrow> 'vk verify_proof \<Rightarrow> conflict \<Rightarrow> conflict_evidence \<Rightarrow> nat" where
  "weight_a from_key verify c e =
     card (valid_relays from_key verify (set (envelope_a_observations e)) (c_sequence c) (envelope_a c))"

definition weight_b :: "'vk from_key \<Rightarrow> 'vk verify_proof \<Rightarrow> conflict \<Rightarrow> conflict_evidence \<Rightarrow> nat" where
  "weight_b from_key verify c e =
     card (valid_relays from_key verify (set (envelope_b_observations e)) (c_sequence c) (envelope_b c))"

lemma resolve_conflict_Inr:
  "resolve_conflict hex from_key verify c e = Inr w \<longleftrightarrow>
     (w = envelope_a c \<and> 2 \<le> weight_a from_key verify c e \<and>
        weight_b from_key verify c e < weight_a from_key verify c e) \<or>
     (w = envelope_b c \<and> 2 \<le> weight_b from_key verify c e \<and>
        weight_a from_key verify c e < weight_b from_key verify c e)"
  by (auto simp: resolve_conflict_def Let_def weight_a_def weight_b_def MIN_QUORUM_def
      length_count_distinct)

definition swap_conflict :: "conflict \<Rightarrow> conflict" where
  "swap_conflict c = c\<lparr>envelope_a := envelope_b c, envelope_b := envelope_a c\<rparr>"

definition swap_evidence :: "conflict_evidence \<Rightarrow> conflict_evidence" where
  "swap_evidence e =
     \<lparr>envelope_a_timestamp = envelope_b_timestamp e, envelope_b_timestamp = envelope_a_timestamp e,
      envelope_a_observations = envelope_b_observations e,
      envelope_b_observations = envelope_a_observations e\<rparr>"

lemma weight_swap [simp]:
  "weight_a from_key verify (swap_conflict c) (swap_evidence e) = weight_b from_key verify c e"
  "weight_b from_key verify (swap_conflict c) (swap_evidence e) = weight_a from_key verify c e"
  by (simp_all add: weight_a_def weight_b_def swap_conflict_def swap_evidence_def)

section \<open>The ranking of many candidates\<close>

definition cand_weight ::
  "'vk from_key \<Rightarrow> 'vk verify_proof \<Rightarrow> nway_conflict \<Rightarrow> candidate_evidence \<Rightarrow> nat" where
  "cand_weight from_key verify c v =
     card (valid_relays from_key verify (set (cand_observations v)) (n_sequence c) (cand_message_id v))"

lemma foldr_max_ge: "n \<in> set ns \<Longrightarrow> n \<le> foldr max ns (0::nat)"
  by (induction ns) auto

lemma foldr_max_in: "ns \<noteq> [] \<Longrightarrow> foldr max ns (0::nat) \<in> set ns"
proof (induction ns)
  case (Cons n ns)
  then show ?case by (cases "ns = []") (auto simp: max_def)
qed simp

lemma filter_singleton_iff:
  "distinct xs \<Longrightarrow> filter P xs = [x] \<longleftrightarrow> x \<in> set xs \<and> P x \<and> (\<forall>y \<in> set xs. P y \<longrightarrow> y = x)"
proof -
  assume d: "distinct xs"
  show ?thesis
  proof
    assume "filter P xs = [x]"
    then have "set (filter P xs) = {x}" by simp
    then show "x \<in> set xs \<and> P x \<and> (\<forall>y \<in> set xs. P y \<longrightarrow> y = x)" by auto
  next
    assume "x \<in> set xs \<and> P x \<and> (\<forall>y \<in> set xs. P y \<longrightarrow> y = x)"
    then have "set (filter P xs) = {x}" by auto
    moreover have "distinct (filter P xs)" using d by simp
    ultimately show "filter P xs = [x]"
      by (metis card.empty card_insert_disjoint distinct_card empty_iff finite.emptyI length_0_conv
          length_Suc_conv list.set_intros(1) singletonD One_nat_def)
  qed
qed

text \<open>
  With the counts in hand: the result is the one candidate whose count exceeds all the others
  and reaches the quorum.
\<close>

lemma top_count:
  fixes cs :: "('a \<times> nat) list"
  assumes "distinct cs" and "cs \<noteq> []"
  shows "(\<exists>others. filter (\<lambda>(_, n). n = foldr max (map snd cs) 0) cs = x # others \<and> others = []) \<longleftrightarrow>
     x \<in> set cs \<and> (\<forall>y \<in> set cs. y \<noteq> x \<longrightarrow> snd y < snd x)" (is "?L \<longleftrightarrow> ?R")
proof -
  let ?m = "foldr max (map snd cs) 0"
  have ge: "snd y \<le> ?m" if "y \<in> set cs" for y using that by (intro foldr_max_ge) simp
  have "?m \<in> snd ` set cs" using foldr_max_in [of "map snd cs"] assms(2) by simp
  then obtain z where z: "z \<in> set cs" "snd z = ?m" by force
  have "?L \<longleftrightarrow> x \<in> set cs \<and> snd x = ?m \<and> (\<forall>y \<in> set cs. snd y = ?m \<longrightarrow> y = x)"
    using filter_singleton_iff [OF assms(1), of "\<lambda>(_, n). n = ?m" x]
    by (auto simp: case_prod_unfold)
  also have "\<dots> \<longleftrightarrow> ?R"
  proof
    assume l: "x \<in> set cs \<and> snd x = ?m \<and> (\<forall>y \<in> set cs. snd y = ?m \<longrightarrow> y = x)"
    then show ?R using ge le_neq_implies_less by metis
  next
    assume r: ?R
    then have "z = x" using ge [of x] z by force
    with r z show "x \<in> set cs \<and> snd x = ?m \<and> (\<forall>y \<in> set cs. snd y = ?m \<longrightarrow> y = x)" by force
  qed
  finally show ?thesis .
qed

lemma top_candidate:
  fixes f :: "'a \<Rightarrow> 'k" and g :: "'a \<Rightarrow> nat"
  assumes dist: "distinct (map f ev)"
    and single: "single \<longleftrightarrow> t \<in> set (map (\<lambda>v. (f v, g v)) ev) \<and>
      (\<forall>y \<in> set (map (\<lambda>v. (f v, g v)) ev). y \<noteq> t \<longrightarrow> snd y < snd t)"
    and v0: "v0 \<in> set ev" "t = (f v0, g v0)" and top: "\<And>v. v \<in> set ev \<Longrightarrow> g v \<le> snd t"
  shows "single \<and> lo \<le> snd t \<and> fst t = w \<longleftrightarrow>
    (\<exists>v \<in> set ev. f v = w \<and> lo \<le> g v \<and> (\<forall>u \<in> set ev. f u \<noteq> w \<longrightarrow> g u < g v))" (is "?L \<longleftrightarrow> ?R")
proof
  assume ?L
  then show ?R using single v0 by (intro bexI [of _ v0]) auto
next
  assume ?R
  then obtain v where v: "v \<in> set ev" "f v = w" "lo \<le> g v"
    and low: "\<And>u. u \<in> set ev \<Longrightarrow> f u \<noteq> w \<Longrightarrow> g u < g v" by blast
  have same: "u = v" if "u \<in> set ev" "f u = w" for u
    using that v(1,2) dist by (auto simp: distinct_map inj_on_def)
  have "f v0 = w"
  proof (rule ccontr)
    assume "f v0 \<noteq> w"
    then show False using low [OF v0(1)] top [OF v(1)] v0(2) by simp
  qed
  then have t: "t = (f v, g v)" using same [OF v0(1)] v0(2) by simp
  have "snd y < snd t" if y: "y \<in> set (map (\<lambda>v. (f v, g v)) ev)" "y \<noteq> t" for y
  proof -
    obtain u where u: "u \<in> set ev" "y = (f u, g u)" using y(1) by auto
    then have "f u \<noteq> w" using same y(2) t by auto
    then show ?thesis using low u t by simp
  qed
  then show ?L using single t v by auto
qed

lemma resolve_nway_Inr:
  assumes "distinct (message_ids c)" and "message_ids c \<noteq> []"
    and m: "mset (map cand_message_id ev) = mset (message_ids c)"
  shows "resolve_nway_conflict from_key verify c ev = Some (Inr w) \<longleftrightarrow>
     (\<exists>v \<in> set ev. cand_message_id v = w \<and> 2 \<le> cand_weight from_key verify c v \<and>
        (\<forall>u \<in> set ev. cand_message_id u \<noteq> w \<longrightarrow>
           cand_weight from_key verify c u < cand_weight from_key verify c v))"
    and "resolve_nway_conflict from_key verify c ev \<noteq> None"
proof -
  let ?cs = "map (\<lambda>v. (cand_message_id v, cand_weight from_key verify c v)) ev"
  let ?m = "foldr max (map snd ?cs) 0"
  have ids: "sort (message_ids c) = sort (map cand_message_id ev)"
    using m by (metis properties_for_sort mset_sort sorted_sort)
  have dist: "distinct (map cand_message_id ev)"
    using assms(1) mset_eq_imp_distinct_iff [OF m] by simp
  then have d: "distinct ?cs"
    using distinct_map [of fst ?cs] by (simp add: comp_def)
  have "ev \<noteq> []" using m assms(2) by auto
  then have ne: "?cs \<noteq> []" by simp
  have "?m \<in> snd ` set ?cs"
    using foldr_max_in [of "map snd ?cs"] ne unfolding set_map [symmetric] by blast
  then have "filter (\<lambda>(_, n). n = ?m) ?cs \<noteq> []" by (auto simp: filter_empty_conv)
  then obtain t ts where tops: "filter (\<lambda>(_, n). n = ?m) ?cs = t # ts"
    by (cases "filter (\<lambda>(_, n). n = ?m) ?cs") auto
  have run: "resolve_nway_conflict from_key verify c ev = Some (Inr w) \<longleftrightarrow> ts = [] \<and> 2 \<le> ?m \<and> fst t = w"
    and total: "resolve_nway_conflict from_key verify c ev \<noteq> None"
    using tops ne ids
    by (auto simp: resolve_nway_conflict_def Let_def cand_weight_def MIN_QUORUM_def
        length_count_distinct)
  have single: "ts = [] \<longleftrightarrow> t \<in> set ?cs \<and> (\<forall>y \<in> set ?cs. y \<noteq> t \<longrightarrow> snd y < snd t)"
    using top_count [OF d ne, of t] tops by simp
  have "t \<in> set (filter (\<lambda>(_, n). n = ?m) ?cs)" using tops by simp
  then obtain v0 where v0: "v0 \<in> set ev" "t = (cand_message_id v0, cand_weight from_key verify c v0)"
    and tm: "snd t = ?m" by auto
  have "cand_weight from_key verify c v \<le> snd t" if "v \<in> set ev" for v
    unfolding tm using that by (intro foldr_max_ge) force
  from top_candidate [OF dist single v0 this]
  show "resolve_nway_conflict from_key verify c ev = Some (Inr w) \<longleftrightarrow>
     (\<exists>v \<in> set ev. cand_message_id v = w \<and> 2 \<le> cand_weight from_key verify c v \<and>
        (\<forall>u \<in> set ev. cand_message_id u \<noteq> w \<longrightarrow>
           cand_weight from_key verify c u < cand_weight from_key verify c v))"
    using run tm by simp
  show "resolve_nway_conflict from_key verify c ev \<noteq> None" by (rule total)
qed

section \<open>Properties\<close>

text \<open>
  C22. Sybil resistance and safety of the pairwise decision: a side wins only with the verified
  proofs of at least two different relays for that very envelope and sequence, and strictly
  more of them than the other side has; whoever controls a single relay key cannot win a
  conflict, whatever the number of proofs.
\<close>

theorem resolve_conflict_sybil:
  "(resolve_conflict hex from_key verify c e = Inr w \<longleftrightarrow>
      (w = envelope_a c \<and> 2 \<le> weight_a from_key verify c e \<and>
         weight_b from_key verify c e < weight_a from_key verify c e) \<or>
      (w = envelope_b c \<and> 2 \<le> weight_b from_key verify c e \<and>
         weight_a from_key verify c e < weight_b from_key verify c e)) \<and>
   (envelope_a c \<noteq> envelope_b c \<and> (\<forall>ob \<in> set (envelope_a_observations e). relay_pubkey ob = k) \<longrightarrow>
      resolve_conflict hex from_key verify c e \<noteq> Inr (envelope_a c)) \<and>
   (envelope_a c \<noteq> envelope_b c \<and> (\<forall>ob \<in> set (envelope_b_observations e). relay_pubkey ob = k) \<longrightarrow>
      resolve_conflict hex from_key verify c e \<noteq> Inr (envelope_b c))"
proof (intro conjI impI)
  have one: "card (valid_relays from_key verify (set obs) sq tx) \<le> 1"
    if "\<forall>ob \<in> set obs. relay_pubkey ob = k" for obs sq tx
  proof -
    have "valid_relays from_key verify (set obs) sq tx \<subseteq> {k}"
      using that by (auto simp: valid_relays_def)
    from card_mono [OF _ this] show ?thesis by simp
  qed
  show "resolve_conflict hex from_key verify c e \<noteq> Inr (envelope_a c)"
    if "envelope_a c \<noteq> envelope_b c \<and> (\<forall>ob \<in> set (envelope_a_observations e). relay_pubkey ob = k)"
    using that one [of "envelope_a_observations e" "c_sequence c" "envelope_a c"]
    by (auto simp: resolve_conflict_Inr weight_a_def)
  show "resolve_conflict hex from_key verify c e \<noteq> Inr (envelope_b c)"
    if "envelope_a c \<noteq> envelope_b c \<and> (\<forall>ob \<in> set (envelope_b_observations e). relay_pubkey ob = k)"
    using that one [of "envelope_b_observations e" "c_sequence c" "envelope_b c"]
    by (auto simp: resolve_conflict_Inr weight_b_def)
qed (rule resolve_conflict_Inr)

theorem resolve_conflict_sybil_witness:
  "resolve_conflict (\<lambda>_. '''') Some (\<lambda>_ _ _. True)
     \<lparr>c_source_account = ''A'', c_sequence = 5, envelope_a = 1, envelope_b = 2\<rparr>
     \<lparr>envelope_a_timestamp = 0, envelope_b_timestamp = 0,
      envelope_a_observations = replicate 3
        \<lparr>relay_pubkey = 7, obs_proof = \<lparr>chain_hash = 0, proof_sequence = 5, proof_signature = 0\<rparr>\<rparr>,
      envelope_b_observations = []\<rparr> \<noteq> Inr 1"
  using resolve_conflict_sybil [of "\<lambda>_. ''''" Some "\<lambda>_ _ _. True"
      "\<lparr>c_source_account = ''A'', c_sequence = 5, envelope_a = 1, envelope_b = 2\<rparr>"
      "\<lparr>envelope_a_timestamp = 0, envelope_b_timestamp = 0,
        envelope_a_observations = replicate 3
          \<lparr>relay_pubkey = 7, obs_proof = \<lparr>chain_hash = 0, proof_sequence = 5, proof_signature = 0\<rparr>\<rparr>,
        envelope_b_observations = []\<rparr>" 1 7, THEN conjunct2, THEN conjunct1]
  by simp

text \<open>
  Nodes that hold the same valid evidence reach the same winner: the order and repetition
  of the observations, the invalid ones among them, the self-reported timestamps and which
  envelope is called \<open>a\<close> have no influence.
\<close>

theorem resolve_conflict_agreement:
  "valid_relays from_key verify (set (envelope_a_observations e)) (c_sequence c) (envelope_a c) =
     valid_relays from_key verify (set (envelope_a_observations e')) (c_sequence c) (envelope_a c) \<Longrightarrow>
   valid_relays from_key verify (set (envelope_b_observations e)) (c_sequence c) (envelope_b c) =
     valid_relays from_key verify (set (envelope_b_observations e')) (c_sequence c) (envelope_b c) \<Longrightarrow>
   (resolve_conflict hex from_key verify c e = Inr w \<longleftrightarrow>
      resolve_conflict hex from_key verify c e' = Inr w) \<and>
   (resolve_conflict hex from_key verify c e = Inr w \<longleftrightarrow>
      resolve_conflict hex from_key verify (swap_conflict c) (swap_evidence e') = Inr w)"
proof (intro conjI)
  assume "valid_relays from_key verify (set (envelope_a_observations e)) (c_sequence c) (envelope_a c) =
      valid_relays from_key verify (set (envelope_a_observations e')) (c_sequence c) (envelope_a c)"
    and "valid_relays from_key verify (set (envelope_b_observations e)) (c_sequence c) (envelope_b c) =
      valid_relays from_key verify (set (envelope_b_observations e')) (c_sequence c) (envelope_b c)"
  then have w: "weight_a from_key verify c e = weight_a from_key verify c e'"
      "weight_b from_key verify c e = weight_b from_key verify c e'"
    by (simp_all add: weight_a_def weight_b_def)
  show "resolve_conflict hex from_key verify c e = Inr w \<longleftrightarrow>
      resolve_conflict hex from_key verify c e' = Inr w"
    by (simp add: resolve_conflict_Inr w)
  have "envelope_a (swap_conflict c) = envelope_b c" "envelope_b (swap_conflict c) = envelope_a c"
    by (simp_all add: swap_conflict_def)
  then show "resolve_conflict hex from_key verify c e = Inr w \<longleftrightarrow>
      resolve_conflict hex from_key verify (swap_conflict c) (swap_evidence e') = Inr w"
    by (auto simp: resolve_conflict_Inr w)
qed

theorem resolve_conflict_agreement_witness:
  "resolve_conflict (\<lambda>_. '''') Some (\<lambda>_ _ _. True)
     \<lparr>c_source_account = ''A'', c_sequence = 5, envelope_a = 1, envelope_b = 2\<rparr>
     \<lparr>envelope_a_timestamp = 0, envelope_b_timestamp = 0,
      envelope_a_observations = [], envelope_b_observations = []\<rparr> = Inr 1 \<longleftrightarrow>
   resolve_conflict (\<lambda>_. '''') Some (\<lambda>_ _ _. True)
     \<lparr>c_source_account = ''A'', c_sequence = 5, envelope_a = 1, envelope_b = 2\<rparr>
     \<lparr>envelope_a_timestamp = 9, envelope_b_timestamp = 0,
      envelope_a_observations = [\<lparr>relay_pubkey = 7,
        obs_proof = \<lparr>chain_hash = 0, proof_sequence = 6, proof_signature = 0\<rparr>\<rparr>],
      envelope_b_observations = []\<rparr> = Inr 1"
  using resolve_conflict_agreement [of Some "\<lambda>_ _ _. True"
      "\<lparr>envelope_a_timestamp = 0, envelope_b_timestamp = 0,
        envelope_a_observations = [], envelope_b_observations = []\<rparr>"
      "\<lparr>c_source_account = ''A'', c_sequence = 5, envelope_a = 1, envelope_b = 2\<rparr>"
      "\<lparr>envelope_a_timestamp = 9, envelope_b_timestamp = 0,
        envelope_a_observations = [\<lparr>relay_pubkey = 7,
          obs_proof = \<lparr>chain_hash = 0, proof_sequence = 6, proof_signature = 0\<rparr>\<rparr>],
        envelope_b_observations = []\<rparr>" "\<lambda>_. ''''" 1]
  by (simp add: valid_relays_def)

text \<open>
  C23. Many candidates: with evidence for exactly the (distinct) candidates of the slot the
  decision never panics, and it names the candidate with at least two corroborating relays and
  strictly more than every other, if there is one; so there is at most one winner, whatever the
  order of the evidence.
\<close>

theorem resolve_nway_exact:
  "distinct (message_ids c) \<Longrightarrow> message_ids c \<noteq> [] \<Longrightarrow>
   mset (map cand_message_id ev) = mset (message_ids c) \<Longrightarrow>
     resolve_nway_conflict from_key verify c ev \<noteq> None \<and>
     (resolve_nway_conflict from_key verify c ev = Some (Inr w) \<longleftrightarrow>
       (\<exists>v \<in> set ev. cand_message_id v = w \<and> 2 \<le> cand_weight from_key verify c v \<and>
          (\<forall>u \<in> set ev. cand_message_id u \<noteq> w \<longrightarrow>
             cand_weight from_key verify c u < cand_weight from_key verify c v)))"
  by (intro conjI resolve_nway_Inr)

theorem resolve_nway_exact_witness:
  "resolve_nway_conflict Some (\<lambda>_ _ _. True)
     \<lparr>n_source_account = ''A'', n_sequence = 5, message_ids = [1, 2]\<rparr>
     [\<lparr>cand_message_id = 2, cand_timestamp = 0, cand_observations = []\<rparr>,
      \<lparr>cand_message_id = 1, cand_timestamp = 0, cand_observations = []\<rparr>] \<noteq> None"
  using resolve_nway_exact [of "\<lparr>n_source_account = ''A'', n_sequence = 5, message_ids = [1, 2]\<rparr>"
      "[\<lparr>cand_message_id = 2, cand_timestamp = 0, cand_observations = []\<rparr>,
        \<lparr>cand_message_id = 1, cand_timestamp = 0, cand_observations = []\<rparr>]" Some "\<lambda>_ _ _. True"]
  by simp

text \<open>
  On two candidates the n-way decision is the pairwise one, for evidence in either order.
\<close>

theorem resolve_nway_pair:
  "a \<noteq> b \<Longrightarrow>
   message_ids n = [a, b] \<or> message_ids n = [b, a] \<Longrightarrow>
   c = \<lparr>c_source_account = n_source_account n, c_sequence = n_sequence n,
        envelope_a = a, envelope_b = b\<rparr> \<Longrightarrow>
   va = \<lparr>cand_message_id = a, cand_timestamp = ta, cand_observations = envelope_a_observations e\<rparr> \<Longrightarrow>
   vb = \<lparr>cand_message_id = b, cand_timestamp = tb, cand_observations = envelope_b_observations e\<rparr> \<Longrightarrow>
   ev = [va, vb] \<or> ev = [vb, va] \<Longrightarrow>
     resolve_nway_conflict from_key verify n ev = Some (Inr w) \<longleftrightarrow>
     resolve_conflict hex from_key verify c e = Inr w"
proof -
  assume a: "a \<noteq> b" "message_ids n = [a, b] \<or> message_ids n = [b, a]"
    and c: "c = \<lparr>c_source_account = n_source_account n, c_sequence = n_sequence n,
        envelope_a = a, envelope_b = b\<rparr>"
    and va: "va = \<lparr>cand_message_id = a, cand_timestamp = ta,
        cand_observations = envelope_a_observations e\<rparr>"
    and vb: "vb = \<lparr>cand_message_id = b, cand_timestamp = tb,
        cand_observations = envelope_b_observations e\<rparr>"
    and ev: "ev = [va, vb] \<or> ev = [vb, va]"
  have w: "cand_weight from_key verify n va = weight_a from_key verify c e"
      "cand_weight from_key verify n vb = weight_b from_key verify c e"
    by (simp_all add: va vb c cand_weight_def weight_a_def weight_b_def)
  have ids: "cand_message_id va = a" "cand_message_id vb = b" by (simp_all add: va vb)
  have sev: "set ev = {va, vb}" using ev by auto
  have "distinct (message_ids n)" "message_ids n \<noteq> []"
      "mset (map cand_message_id ev) = mset (message_ids n)"
    using a ev ids by auto
  from resolve_nway_Inr(1) [OF this, of from_key verify w] show ?thesis
    unfolding resolve_conflict_Inr sev using a(1) by (auto simp: ids w) (auto simp: c)
qed

theorem resolve_nway_pair_witness:
  "resolve_nway_conflict Some (\<lambda>_ _ _. True)
     \<lparr>n_source_account = ''A'', n_sequence = 5, message_ids = [1, 2]\<rparr>
     [\<lparr>cand_message_id = 1, cand_timestamp = 0, cand_observations = []\<rparr>,
      \<lparr>cand_message_id = 2, cand_timestamp = 0, cand_observations = []\<rparr>] = Some (Inr 1) \<longleftrightarrow>
   resolve_conflict (\<lambda>_. '''') Some (\<lambda>_ _ _. True)
     \<lparr>c_source_account = ''A'', c_sequence = 5, envelope_a = 1, envelope_b = 2\<rparr>
     \<lparr>envelope_a_timestamp = 0, envelope_b_timestamp = 0,
      envelope_a_observations = [], envelope_b_observations = []\<rparr> = Inr 1"
  by (rule resolve_nway_pair [where a = 1 and b = 2 and ta = 0 and tb = 0
        and va = "\<lparr>cand_message_id = 1, cand_timestamp = 0, cand_observations = []\<rparr>"
        and vb = "\<lparr>cand_message_id = 2, cand_timestamp = 0, cand_observations = []\<rparr>"]) simp_all

end
