(* ===== verification/Quorum.thy ===== *)
theory Quorum
  imports Prelude
begin

text \<open>
  \<open>src/conflict/quorum.rs\<close>: the vote of an ad hoc committee.  The counts live in a \<open>HashMap\<close>
  whose iteration order, the parameter \<open>order\<close>, decides which candidate is looked at first.
\<close>

datatype quorum_result = Resolved bytes32 | NoQuorumReached | SplitDecision

definition count_vote :: "(bytes32 \<times> usize) list \<Rightarrow> bytes32 \<Rightarrow> (bytes32 \<times> usize) list" where
  "count_vote counts vote =
     AList.update vote ((case map_of counts vote of None \<Rightarrow> 0 | Some n \<Rightarrow> n) + 1) counts"

fun first_reaching :: "usize \<Rightarrow> (bytes32 \<times> usize) list \<Rightarrow> quorum_result" where
  "first_reaching supermajority_threshold [] = SplitDecision"
| "first_reaching supermajority_threshold ((candidate, n) # rest) =
     (if supermajority_threshold \<le> n then Resolved candidate
      else first_reaching supermajority_threshold rest)"

definition resolve_by_quorum ::
  "((bytes32 \<times> usize) list \<Rightarrow> (bytes32 \<times> usize) list) \<Rightarrow> bytes32 list \<Rightarrow> usize \<Rightarrow> usize
     \<Rightarrow> quorum_result" where
  "resolve_by_quorum order votes quorum_size supermajority_threshold =
     (if length votes < quorum_size then NoQuorumReached
      else first_reaching supermajority_threshold (order (foldl count_vote [] votes)))"

section \<open>The counts\<close>

lemma map_of_counts:
  "map_of (foldl count_vote [] votes) k =
     (if k \<in> set votes then Some (count_list votes k) else None)"
proof (induction votes rule: rev_induct)
  case (snoc v votes)
  then show ?case
    by (auto simp: count_vote_def update_conv count_list_0_iff count_notin)
qed simp

lemma distinct_counts: "distinct (map fst (foldl count_vote [] votes))"
  by (induction votes rule: rev_induct) (simp_all add: count_vote_def distinct_update)

lemma set_counts:
  "set (foldl count_vote [] votes) = {(k, count_list votes k) | k. k \<in> set votes}"
proof -
  have "(k, n) \<in> set (foldl count_vote [] votes) \<longleftrightarrow> map_of (foldl count_vote [] votes) k = Some n" for k n
    using distinct_counts by (simp add: map_of_eq_Some_iff)
  then show ?thesis by (auto simp: map_of_counts split: if_splits)
qed

lemma first_reaching_cases:
  "first_reaching T kvs = SplitDecision \<and> (\<forall>(k, n) \<in> set kvs. n < T) \<or>
   (\<exists>k n. first_reaching T kvs = Resolved k \<and> (k, n) \<in> set kvs \<and> T \<le> n)"
  by (induction T kvs rule: first_reaching.induct) auto

definition rearranges_counts :: "((bytes32 \<times> usize) list \<Rightarrow> (bytes32 \<times> usize) list) \<Rightarrow> bool" where
  "rearranges_counts order \<longleftrightarrow> (\<forall>xs. mset (order xs) = mset xs)"

lemma quorum_cases:
  assumes "rearranges_counts order" and "quorum_size \<le> length votes"
  shows "resolve_by_quorum order votes quorum_size T = SplitDecision \<and>
       (\<forall>k \<in> set votes. count_list votes k < T) \<or>
     (\<exists>k \<in> set votes. resolve_by_quorum order votes quorum_size T = Resolved k \<and>
       T \<le> count_list votes k)"
proof -
  have "set (order (foldl count_vote [] votes)) = set (foldl count_vote [] votes)"
    using assms(1) by (metis mset_eq_setD rearranges_counts_def)
  then show ?thesis
    using first_reaching_cases [of T "order (foldl count_vote [] votes)"] assms(2)
    by (auto simp: resolve_by_quorum_def set_counts)
qed

lemma count_list_two: "a \<noteq> b \<Longrightarrow> count_list xs a + count_list xs b \<le> length xs"
  by (induction xs) auto

lemma voted: "T \<le> count_list votes w \<Longrightarrow> 0 < T \<Longrightarrow> w \<in> set votes"
  using count_notin [of w votes] by (cases "w \<in> set votes") auto

lemma quorum_unique:
  assumes "rearranges_counts order" and "quorum_size \<le> length votes" and "length votes < 2 * T"
    and "w \<in> set votes" and "T \<le> count_list votes w"
  shows "resolve_by_quorum order votes quorum_size T = Resolved w"
proof -
  from quorum_cases [OF assms(1,2), of T] obtain k where k: "k \<in> set votes"
      "resolve_by_quorum order votes quorum_size T = Resolved k" "T \<le> count_list votes k"
    using assms(4,5) by force
  have "k = w"
  proof (rule ccontr)
    assume "k \<noteq> w"
    then have "count_list votes k + count_list votes w \<le> length votes" by (rule count_list_two)
    then show False using assms(3,5) k(3) by linarith
  qed
  with k(2) show ?thesis by simp
qed

section \<open>Properties\<close>

text \<open>
  When the threshold exceeds half of the votes cast, the outcome is a function of the votes
  alone: no decision below the quorum, the one candidate with at least \<open>T\<close> votes if there is
  one, a split otherwise, whatever the hash map's iteration order.
\<close>

theorem resolve_by_quorum_exact:
  "rearranges_counts order \<Longrightarrow> length votes < 2 * T \<Longrightarrow>
     (resolve_by_quorum order votes quorum_size T = NoQuorumReached \<longleftrightarrow> length votes < quorum_size) \<and>
     (resolve_by_quorum order votes quorum_size T = Resolved w \<longleftrightarrow>
        quorum_size \<le> length votes \<and> T \<le> count_list votes w)"
proof -
  assume o: "rearranges_counts order" and t: "length votes < 2 * T"
  show ?thesis
  proof (cases "length votes < quorum_size")
    case True
    then show ?thesis by (simp add: resolve_by_quorum_def)
  next
    case False
    then have q: "quorum_size \<le> length votes" by simp
    have "0 < T" using t by simp
    have "resolve_by_quorum order votes quorum_size T = Resolved w" if "T \<le> count_list votes w"
      using voted [OF that \<open>0 < T\<close>] that by (rule quorum_unique [OF o q t])
    moreover have "T \<le> count_list votes w" if "resolve_by_quorum order votes quorum_size T = Resolved w"
      using quorum_cases [OF o q, of T] unfolding that by auto
    moreover have "resolve_by_quorum order votes quorum_size T \<noteq> NoQuorumReached"
      using quorum_cases [OF o q, of T] by auto
    ultimately show ?thesis using q False by blast
  qed
qed

theorem resolve_by_quorum_exact_witness:
  "resolve_by_quorum rev [1, 2, 1] 3 2 = Resolved 1"
  using resolve_by_quorum_exact [of rev "[1, 2, 1]" 2 3 1] by (simp add: rearranges_counts_def)

text \<open>
  C40. Byzantine safety: if fewer than \<open>T\<close> members vote for anything but the honest candidate,
  no other candidate is ever resolved, whatever the order; and if the honest votes reach the
  threshold and the quorum is met, the honest candidate is resolved.
\<close>

theorem resolve_by_quorum_byzantine:
  "rearranges_counts order \<Longrightarrow> length (filter (\<lambda>v. v \<noteq> honest) votes) < T \<Longrightarrow>
     (\<forall>w. resolve_by_quorum order votes quorum_size T = Resolved w \<longrightarrow> w = honest) \<and>
     (quorum_size \<le> length votes \<longrightarrow> T \<le> count_list votes honest \<longrightarrow>
        resolve_by_quorum order votes quorum_size T = Resolved honest)"
proof -
  assume o: "rearranges_counts order" and f: "length (filter (\<lambda>v. v \<noteq> honest) votes) < T"
  have few: "count_list votes k < T" if "k \<noteq> honest" for k
  proof -
    have "count_list votes k \<le> length (filter (\<lambda>v. v \<noteq> honest) votes)"
      using that by (induction votes) auto
    with f show ?thesis by linarith
  qed
  have only: "w = honest" if "resolve_by_quorum order votes quorum_size T = Resolved w" for w
  proof (rule ccontr)
    assume "w \<noteq> honest"
    have q: "quorum_size \<le> length votes"
      using that by (auto simp: resolve_by_quorum_def split: if_splits)
    then have "T \<le> count_list votes w"
      using quorum_cases [OF o q, of T] that by auto
    with few [OF \<open>w \<noteq> honest\<close>] show False by simp
  qed
  moreover have "resolve_by_quorum order votes quorum_size T = Resolved honest"
    if q: "quorum_size \<le> length votes" and t: "T \<le> count_list votes honest"
  proof -
    have "honest \<in> set votes" using voted [OF t] f by linarith
    then show ?thesis using quorum_cases [OF o q, of T] only t by force
  qed
  ultimately show ?thesis by blast
qed

theorem resolve_by_quorum_byzantine_witness:
  "resolve_by_quorum rev [1, 2, 1] 3 2 = Resolved 1"
  using resolve_by_quorum_byzantine [of rev 1 "[1, 2, 1]" 2 3] by (simp add: rearranges_counts_def)

text \<open>
  The bound the code documents, \<open>T > 2 M / 3\<close> for the quorum size \<open>M\<close>, does not make the
  winner unique: votes beyond the quorum can push two candidates over the threshold, and then
  the iteration order decides.
\<close>

lemma documented_bound_not_unique:
  "\<exists>votes quorum_size T order order'.
     2 * quorum_size < 3 * T \<and> rearranges_counts order \<and> rearranges_counts order' \<and>
     resolve_by_quorum order votes quorum_size T \<noteq> resolve_by_quorum order' votes quorum_size T"
proof (intro exI conjI)
  show "2 * 3 < 3 * (3 :: nat)" by simp
  show "rearranges_counts id" "rearranges_counts rev" by (simp_all add: rearranges_counts_def)
  show "resolve_by_quorum id [1, 1, 1, 2, 2, 2] 3 3 \<noteq> resolve_by_quorum rev [1, 1, 1, 2, 2, 2] 3 3"
    by (simp add: resolve_by_quorum_def count_vote_def)
qed

end
