(* ===== verification/Escalation.thy ===== *)
theory Escalation
  imports Detector Errors
begin

text \<open>
  \<open>src/conflict/escalation.rs\<close> and \<open>src/stellar_address.rs\<close>: the payload for the on-chain
  dispute of a conflict that stayed unresolved.  The strkey rendering of a public key is the
  parameter \<open>strkey\<close>.
\<close>

record escalation_input =
  ei_message_id :: bytes32
  ei_origin_pubkey :: bytes32
  first_seen_locally_at :: u64
  ei_proof :: relay_chain_proof

record dispute_escalation =
  initiator :: string
  respondent :: string
  de_tx_id :: bytes32
  de_proof :: relay_chain_proof

definition pubkey_to_stellar_address :: "(bytes32 \<Rightarrow> string) \<Rightarrow> bytes32 \<Rightarrow> string" where
  "pubkey_to_stellar_address strkey pubkey = strkey pubkey"

definition build_escalation ::
  "hex_encode \<Rightarrow> (bytes32 \<Rightarrow> string) \<Rightarrow> conflict \<Rightarrow> escalation_input \<Rightarrow> escalation_input
     \<Rightarrow> dispute_escalation result" where
  "build_escalation hex strkey c a b =
     (if ei_message_id a \<noteq> envelope_a c \<or> ei_message_id b \<noteq> envelope_b c then
        Inl (InvalidEnvelope
          (''escalation evidence message ids ('' @ hex (ei_message_id a) @ '', '' @
           hex (ei_message_id b) @ '') do not match conflict envelopes ('' @
           hex (envelope_a c) @ '', '' @ hex (envelope_b c) @ '') for account '' @
           c_source_account c @ '' sequence '' @ show_i64 (c_sequence c)))
      else
        let (ini, res) = (if first_seen_locally_at a \<le> first_seen_locally_at b then (a, b) else (b, a))
        in Inr \<lparr>initiator = pubkey_to_stellar_address strkey (ei_origin_pubkey ini),
                respondent = pubkey_to_stellar_address strkey (ei_origin_pubkey res),
                de_tx_id = ei_message_id ini,
                de_proof = ei_proof ini\<rparr>)"

text \<open>
  An escalation is built only from evidence for the two envelopes of the conflict; the
  initiator is a side seen first by this device (the first envelope on a tie), the disputed
  transaction and the proof are both the initiator's, the parties are the two origins, and
  unless both sides were seen at once the payload does not depend on which side is listed first.
\<close>

theorem build_escalation_initiator:
  "build_escalation hex strkey c a b = Inr d \<Longrightarrow>
     ei_message_id a = envelope_a c \<and> ei_message_id b = envelope_b c \<and>
     (\<exists>i r. (i, r) \<in> {(a, b), (b, a)} \<and>
        first_seen_locally_at i \<le> first_seen_locally_at r \<and>
        d = \<lparr>initiator = strkey (ei_origin_pubkey i), respondent = strkey (ei_origin_pubkey r),
             de_tx_id = ei_message_id i, de_proof = ei_proof i\<rparr>) \<and>
     (if first_seen_locally_at a = first_seen_locally_at b then de_tx_id d = envelope_a c
      else build_escalation hex strkey
        (c\<lparr>envelope_a := envelope_b c, envelope_b := envelope_a c\<rparr>) b a = Inr d)"
proof -
  assume d: "build_escalation hex strkey c a b = Inr d"
  then have ids: "ei_message_id a = envelope_a c" "ei_message_id b = envelope_b c"
    by (auto simp: build_escalation_def split: if_splits)
  show ?thesis
  proof (cases "first_seen_locally_at a \<le> first_seen_locally_at b")
    case True
    then have "d = \<lparr>initiator = strkey (ei_origin_pubkey a), respondent = strkey (ei_origin_pubkey b),
        de_tx_id = ei_message_id a, de_proof = ei_proof a\<rparr>"
      using d ids by (simp add: build_escalation_def pubkey_to_stellar_address_def)
    then show ?thesis using True ids
      by (intro conjI exI [of _ a] exI [of _ b])
        (auto simp: build_escalation_def pubkey_to_stellar_address_def)
  next
    case False
    then have "d = \<lparr>initiator = strkey (ei_origin_pubkey b), respondent = strkey (ei_origin_pubkey a),
        de_tx_id = ei_message_id b, de_proof = ei_proof b\<rparr>"
      using d ids by (simp add: build_escalation_def pubkey_to_stellar_address_def)
    then show ?thesis using False ids
      by (intro conjI exI [of _ b] exI [of _ a])
        (auto simp: build_escalation_def pubkey_to_stellar_address_def)
  qed
qed

theorem build_escalation_initiator_witness:
  "build_escalation (\<lambda>_. '''') (\<lambda>k. show_nat (unat k))
     \<lparr>c_source_account = ''A'', c_sequence = 5, envelope_a = 2, envelope_b = 1\<rparr>
     \<lparr>ei_message_id = 2, ei_origin_pubkey = 20, first_seen_locally_at = 3,
      ei_proof = \<lparr>chain_hash = 0, proof_sequence = 5, proof_signature = 0\<rparr>\<rparr>
     \<lparr>ei_message_id = 1, ei_origin_pubkey = 10, first_seen_locally_at = 9,
      ei_proof = \<lparr>chain_hash = 0, proof_sequence = 5, proof_signature = 0\<rparr>\<rparr> =
   Inr \<lparr>initiator = show_nat 20, respondent = show_nat 10, de_tx_id = 2,
        de_proof = \<lparr>chain_hash = 0, proof_sequence = 5, proof_signature = 0\<rparr>\<rparr>"
  using build_escalation_initiator [of "\<lambda>_. ''''" "\<lambda>k. show_nat (unat k)"
     "\<lparr>c_source_account = ''A'', c_sequence = 5, envelope_a = 1, envelope_b = 2\<rparr>"
     "\<lparr>ei_message_id = 1, ei_origin_pubkey = 10, first_seen_locally_at = 9,
       ei_proof = \<lparr>chain_hash = 0, proof_sequence = 5, proof_signature = 0\<rparr>\<rparr>"
     "\<lparr>ei_message_id = 2, ei_origin_pubkey = 20, first_seen_locally_at = 3,
       ei_proof = \<lparr>chain_hash = 0, proof_sequence = 5, proof_signature = 0\<rparr>\<rparr>"
     "\<lparr>initiator = show_nat 20, respondent = show_nat 10, de_tx_id = 2,
       de_proof = \<lparr>chain_hash = 0, proof_sequence = 5, proof_signature = 0\<rparr>\<rparr>"]
  by (simp add: build_escalation_def pubkey_to_stellar_address_def)

end
