(* ===== verification/Sequence.thy ===== *)
theory Sequence
  imports Errors
begin

text \<open>
  \<open>src/queue/sequence.rs\<close>: per-account reservation of Stellar sequence numbers, its
  reconciliation with an on-chain observation, and the cache of multisig signer weights.
  The two \<open>HashMap\<close>s of the manager are only looked up and written, so they are maps.
\<close>

datatype reconciliation_outcome =
    NoDrift
  | BehindReality (stale_sequences: "i64 list") (new_baseline: i64)
  | AheadOfReality (ahead_observed: i64) (ahead_baseline: i64)

record sequence_reservation_manager =
  seq_baseline :: "string \<rightharpoonup> i64"
  seq_reserved :: "string \<rightharpoonup> i64"

definition srm_new :: sequence_reservation_manager where
  "srm_new = \<lparr>seq_baseline = Map.empty, seq_reserved = Map.empty\<rparr>"

definition seed :: "sequence_reservation_manager \<Rightarrow> string \<Rightarrow> i64 \<Rightarrow> sequence_reservation_manager" where
  "seed m acc current_chain_sequence =
     m\<lparr>seq_baseline := (seq_baseline m)(acc \<mapsto> current_chain_sequence),
       seq_reserved := (seq_reserved m)(acc \<mapsto> current_chain_sequence)\<rparr>"

definition reserve_next ::
  "sequence_reservation_manager \<Rightarrow> string \<Rightarrow> (i64 \<times> sequence_reservation_manager) result" where
  "reserve_next m account =
     (case seq_reserved m account of
        None \<Rightarrow> Inl (NoSequenceReserved account)
      | Some lst \<Rightarrow>
          let next = lst + 1
          in Inr (next, m\<lparr>seq_reserved := (seq_reserved m)(account \<mapsto> next)\<rparr>))"

definition last_reserved :: "sequence_reservation_manager \<Rightarrow> string \<Rightarrow> i64 option" where
  "last_reserved m account = seq_reserved m account"

definition baseline :: "sequence_reservation_manager \<Rightarrow> string \<Rightarrow> i64 option" where
  "baseline m account = seq_baseline m account"

definition release ::
  "sequence_reservation_manager \<Rightarrow> string \<Rightarrow> i64 \<Rightarrow> sequence_reservation_manager result" where
  "release m account sequence =
     (case seq_reserved m account of
        None \<Rightarrow> Inl (NoSequenceReserved account)
      | Some lst \<Rightarrow>
          if lst \<noteq> sequence then Inl (SequenceOutOfOrder account sequence lst)
          else Inr (m\<lparr>seq_reserved := (seq_reserved m)(account \<mapsto> lst - 1)\<rparr>))"

definition reconcile ::
  "sequence_reservation_manager \<Rightarrow> string \<Rightarrow> i64
     \<Rightarrow> reconciliation_outcome \<times> sequence_reservation_manager" where
  "reconcile m account observed =
     (case seq_baseline m account of
        None \<Rightarrow> (NoDrift, seed m account observed)
      | Some current_baseline \<Rightarrow>
          if observed = current_baseline then (NoDrift, m)
          else if sint observed < sint current_baseline
          then (AheadOfReality observed current_baseline, m)
          else
            let current_reserved =
                  (case seq_reserved m account of None \<Rightarrow> current_baseline | Some r \<Rightarrow> r);
                stale_end = i64_minimum observed current_reserved;
                stale =
                  (if sint current_baseline < sint stale_end
                   then i64_range (current_baseline + 1) stale_end else []);
                m1 = m\<lparr>seq_baseline := (seq_baseline m)(account \<mapsto> observed)\<rparr>;
                m2 = (if sint current_reserved < sint observed
                      then m1\<lparr>seq_reserved := (seq_reserved m1)(account \<mapsto> observed)\<rparr> else m1)
            in (BehindReality stale observed, m2))"

section \<open>Multisig account registry\<close>

record account_signers =
  as_signers :: "bytes32 \<rightharpoonup> u32"
  as_threshold :: u32

type_synonym multisig_account_registry = "string \<rightharpoonup> account_signers"

text \<open>Collecting the signers into a \<open>HashMap\<close>: a later entry for a key replaces an earlier one.\<close>

definition registry_seed ::
  "multisig_account_registry \<Rightarrow> string \<Rightarrow> (bytes32 \<times> u32) list \<Rightarrow> u32 \<Rightarrow> multisig_account_registry" where
  "registry_seed r account signers threshold =
     r(account \<mapsto> \<lparr>as_signers = map_of (rev signers), as_threshold = threshold\<rparr>)"

definition signer_weight :: "multisig_account_registry \<Rightarrow> string \<Rightarrow> bytes32 \<Rightarrow> u32 option" where
  "signer_weight r account pubkey =
     (case r account of None \<Rightarrow> None | Some a \<Rightarrow> as_signers a pubkey)"

definition threshold :: "multisig_account_registry \<Rightarrow> string \<Rightarrow> u32 option" where
  "threshold r account = map_option as_threshold (r account)"

definition is_known_signer :: "multisig_account_registry \<Rightarrow> string \<Rightarrow> bytes32 \<Rightarrow> bool" where
  "is_known_signer r account pubkey = (signer_weight r account pubkey \<noteq> None)"

section \<open>Facts about reservations\<close>

definition seq_inv :: "sequence_reservation_manager \<Rightarrow> bool" where
  "seq_inv m \<longleftrightarrow> (\<forall>a. seq_baseline m a = None \<longleftrightarrow> seq_reserved m a = None)"

lemma seq_inv_ops:
  "seq_inv srm_new"
  "seq_inv m \<Longrightarrow> seq_inv (seed m a s)"
  "seq_inv m \<Longrightarrow> reserve_next m a = Inr (x, m') \<Longrightarrow> seq_inv m'"
  "seq_inv m \<Longrightarrow> release m a x = Inr m' \<Longrightarrow> seq_inv m'"
  by (auto simp: seq_inv_def srm_new_def seed_def reserve_next_def release_def Let_def
      split: option.splits if_splits)

lemma seq_inv_reconcile:
  assumes "seq_inv m"
  shows "seq_inv (snd (reconcile m a obs))"
proof -
  have e: "seq_baseline m k = None \<longleftrightarrow> seq_reserved m k = None" for k
    using assms by (simp add: seq_inv_def)
  show ?thesis
  proof (cases "seq_baseline m a")
    case None
    then have "snd (reconcile m a obs) = seed m a obs" by (simp add: reconcile_def)
    then show ?thesis using seq_inv_ops(2) [OF assms] by simp
  next
    case (Some b)
    moreover obtain r where "seq_reserved m a = Some r" using Some e [of a] by auto
    ultimately have "(seq_baseline (snd (reconcile m a obs)) k = None) = (seq_baseline m k = None)"
        "(seq_reserved (snd (reconcile m a obs)) k = None) = (seq_reserved m k = None)" for k
      by (auto simp: reconcile_def Let_def)
    then show ?thesis using e by (simp add: seq_inv_def)
  qed
qed

lemma last_reserved_ops [table_simps]:
  "last_reserved (seed m a s) b = (if b = a then Some s else last_reserved m b)"
  "last_reserved srm_new b = None"
  by (simp_all add: last_reserved_def seed_def srm_new_def)

lemma reserve_next_Inr:
  "reserve_next m a = Inr (x, m') \<longleftrightarrow>
     (\<exists>l. last_reserved m a = Some l \<and> x = l + 1 \<and>
          m' = m\<lparr>seq_reserved := (seq_reserved m)(a \<mapsto> l + 1)\<rparr>)"
  by (auto simp: reserve_next_def last_reserved_def Let_def split: option.splits)

lemma reserve_next_total:
  "(\<exists>r. reserve_next m a = Inr r) \<longleftrightarrow> last_reserved m a \<noteq> None"
  by (auto simp: reserve_next_def last_reserved_def Let_def split: option.splits)

lemma last_reserved_reserve_next:
  "reserve_next m a = Inr (x, m') \<Longrightarrow>
   last_reserved m' b = (if b = a then Some x else last_reserved m b)"
  by (auto simp: reserve_next_Inr last_reserved_def)

lemma release_reserve_next:
  "reserve_next m a = Inr (x, m') \<Longrightarrow> release m' a x = Inr m"
  by (auto simp: reserve_next_Inr last_reserved_def release_def fun_upd_idem)

text \<open>Reservations for a list of accounts, in the order they are asked for.\<close>

fun reserve_run ::
  "sequence_reservation_manager \<Rightarrow> string list
     \<Rightarrow> ((string \<times> i64) list \<times> sequence_reservation_manager) result" where
  "reserve_run m [] = Inr ([], m)"
| "reserve_run m (a # as) =
     (case reserve_next m a of
        Inl e \<Rightarrow> Inl e
      | Inr (x, m') \<Rightarrow>
          (case reserve_run m' as of Inl e \<Rightarrow> Inl e | Inr (out, m'') \<Rightarrow> Inr ((a, x) # out, m'')))"

definition numbers_of :: "string \<Rightarrow> (string \<times> i64) list \<Rightarrow> int list" where
  "numbers_of a out = map (\<lambda>(_, x). sint x) (filter (\<lambda>(b, _). b = a) out)"

lemma reserve_run_total:
  assumes "\<forall>a \<in> set as. last_reserved m a \<noteq> None"
  shows "\<exists>out m'. reserve_run m as = Inr (out, m') \<and> map fst out = as"
  using assms
proof (induction as arbitrary: m)
  case (Cons a as)
  then obtain x m' where r: "reserve_next m a = Inr (x, m')"
    using reserve_next_total [of m a] by auto
  have "\<forall>b \<in> set as. last_reserved m' b \<noteq> None"
    using Cons.prems last_reserved_reserve_next [OF r] by auto
  from Cons.IH [OF this] r show ?case by auto
qed simp

lemma reserve_run_consecutive:
  assumes "reserve_run m as = Inr (out, m')" and "last_reserved m a = Some l"
    and "sint l + int (count_list as a) \<le> i64_max"
  shows "numbers_of a out = [sint l + 1..sint l + int (count_list as a)]"
    and "last_reserved m' a = Some (l + of_nat (count_list as a))"
  using assms
proof (induction as arbitrary: m out l)
  case (Cons b as)
  {
    case 1
    obtain x m1 out1 where r: "reserve_next m b = Inr (x, m1)"
      and rest: "reserve_run m1 as = Inr (out1, m')" and out: "out = (b, x) # out1"
      using 1(1) by (auto split: sum.splits prod.splits)
    show ?case
    proof (cases "b = a")
      case False
      then show ?thesis
        using Cons.IH(1) [OF rest, of l] 1 last_reserved_reserve_next [OF r, of a]
        by (simp add: out numbers_of_def)
    next
      case True
      have x: "x = l + 1" using r 1(2) True by (simp add: reserve_next_Inr)
      have "sint l < i64_max" using 1(3) True by simp
      then have sx: "sint x = sint l + 1" using x by (simp add: sint_i64_succ)
      have "numbers_of a out1 = [sint x + 1..sint x + int (count_list as a)]"
        using Cons.IH(1) [OF rest, of x] 1(3) True sx last_reserved_reserve_next [OF r, of a] by simp
      moreover have "[sint l + 1..sint l + int (count_list (b # as) a)] =
          sint x # [sint x + 1..sint x + int (count_list as a)]"
        using upto_rec1 [of "sint l + 1" "sint l + int (count_list (b # as) a)"] True sx
        by (simp add: ac_simps)
      ultimately show ?thesis using True by (simp add: out numbers_of_def)
    qed
  next
    case 2
    obtain x m1 out1 where r: "reserve_next m b = Inr (x, m1)"
      and rest: "reserve_run m1 as = Inr (out1, m')"
      using 2(1) by (auto split: sum.splits prod.splits)
    show ?case
    proof (cases "b = a")
      case False
      then show ?thesis
        using Cons.IH(2) [OF rest, of l] 2 last_reserved_reserve_next [OF r, of a] by simp
    next
      case True
      have x: "x = l + 1" using r 2(2) True by (simp add: reserve_next_Inr)
      have "sint l < i64_max" using 2(3) True by simp
      then have sx: "sint x = sint l + 1" using x by (simp add: sint_i64_succ)
      show ?thesis
        using Cons.IH(2) [OF rest, of x] 2(3) True sx last_reserved_reserve_next [OF r, of a]
        by (simp add: x ac_simps)
    qed
  }
qed (auto simp: numbers_of_def)

section \<open>Facts about reconciliation\<close>

lemma stale_set:
  assumes "sint b < sint e"
  shows "set (i64_range (b + 1) e) = {x. sint b < sint x \<and> sint x \<le> sint e}"
proof -
  have "sint b < i64_max" using assms sint_i64_le [of e] by linarith
  then show ?thesis by (auto simp: set_i64_range sint_i64_succ)
qed

lemma reconcile_behind:
  assumes "baseline m a = Some b" and "last_reserved m a = Some r" and "sint b < sint obs"
  obtains stale where "fst (reconcile m a obs) = BehindReality stale obs"
    and "set stale = {x. sint b < sint x \<and> sint x \<le> sint obs \<and> sint x \<le> sint r}"
    and "baseline (snd (reconcile m a obs)) a = Some obs"
    and "last_reserved (snd (reconcile m a obs)) a = Some (if sint r < sint obs then obs else r)"
proof
  let ?e = "i64_minimum obs r"
  let ?stale = "if sint b < sint ?e then i64_range (b + 1) ?e else []"
  have ne: "obs \<noteq> b" "\<not> sint obs < sint b" using assms(3) by auto
  show "fst (reconcile m a obs) = BehindReality ?stale obs"
    using assms ne by (simp add: reconcile_def baseline_def last_reserved_def Let_def)
  show "set ?stale = {x. sint b < sint x \<and> sint x \<le> sint obs \<and> sint x \<le> sint r}"
    by (auto simp: stale_set sint_i64_minimum)
  show "baseline (snd (reconcile m a obs)) a = Some obs"
    using assms ne by (simp add: reconcile_def baseline_def last_reserved_def Let_def)
  show "last_reserved (snd (reconcile m a obs)) a = Some (if sint r < sint obs then obs else r)"
    using assms ne by (simp add: reconcile_def baseline_def last_reserved_def Let_def)
qed

section \<open>Properties\<close>

lemma distinct_numbers:
  "(\<And>a. distinct (numbers_of a out)) \<Longrightarrow> distinct out"
proof (induction out)
  case (Cons p out)
  obtain a x where p: "p = (a, x)" by (cases p)
  have "distinct (numbers_of b out)" for b
    using Cons.prems [of b] by (cases "b = a") (auto simp: numbers_of_def p)
  moreover have "p \<notin> set out"
  proof
    assume "p \<in> set out"
    then have "sint x \<in> set (numbers_of a out)" by (force simp: numbers_of_def p)
    moreover have "sint x \<notin> set (numbers_of a out)"
      using Cons.prems [of a] by (auto simp: numbers_of_def p)
    ultimately show False by simp
  qed
  ultimately show ?case using Cons.IH by simp
qed simp

text \<open>
  Sequence numbers are handed out without reuse and without gaps: however the requests of
  several seeded accounts interleave, every request succeeds, the numbers given to an account
  are the consecutive ones after its last reservation, and no (account, number) pair is given
  twice, as long as no account runs past the largest sequence number.
\<close>

theorem reserve_run_sequential:
  "\<forall>a \<in> set as. \<exists>l. last_reserved m a = Some l \<and> sint l + int (count_list as a) \<le> i64_max \<Longrightarrow>
   \<exists>out m'. reserve_run m as = Inr (out, m') \<and> map fst out = as \<and> distinct out \<and>
     (\<forall>a \<in> set as. \<forall>l. last_reserved m a = Some l \<longrightarrow>
        numbers_of a out = [sint l + 1..sint l + int (count_list as a)])"
proof -
  assume a: "\<forall>a \<in> set as. \<exists>l. last_reserved m a = Some l \<and> sint l + int (count_list as a) \<le> i64_max"
  then obtain out m' where run: "reserve_run m as = Inr (out, m')" and fst: "map fst out = as"
    using reserve_run_total [of as m] by force
  have nums: "numbers_of k out = [sint l + 1..sint l + int (count_list as k)]"
    if "k \<in> set as" "last_reserved m k = Some l" for k l
    using a that reserve_run_consecutive(1) [OF run, of k l] by auto
  have "distinct (numbers_of k out)" for k
  proof (cases "k \<in> set as")
    case True
    then show ?thesis using a nums by force
  next
    case False
    then have "filter (\<lambda>(b, _). b = k) out = []" by (force simp: filter_empty_conv simp flip: fst)
    then show ?thesis by (simp add: numbers_of_def)
  qed
  then have "distinct out" by (rule distinct_numbers)
  with run fst nums show ?thesis by blast
qed

theorem reserve_run_sequential_witness:
  "\<exists>out m'. reserve_run (seed (seed srm_new ''A'' 10) ''B'' 20) [''A'', ''B'', ''A''] = Inr (out, m') \<and>
     numbers_of ''A'' out = [11..12]"
  using reserve_run_sequential [of "[''A'', ''B'', ''A'']" "seed (seed srm_new ''A'' 10) ''B'' 20"]
  by (auto simp: last_reserved_ops)

text \<open>
  A reservation can be undone, and only the last one: releasing the number just reserved
  restores the manager as it was, and releasing any other number is refused.
\<close>

theorem release_undoes_reserve:
  "reserve_next m a = Inr (x, m') \<Longrightarrow>
     release m' a x = Inr m \<and>
     (\<forall>y. y \<noteq> x \<longrightarrow> release m' a y = Inl (SequenceOutOfOrder a y x))"
  using release_reserve_next [of m a x m']
  by (auto simp: reserve_next_Inr release_def)

theorem release_undoes_reserve_witness:
  "release (snd (11 :: i64, seed srm_new ''A'' 11\<lparr>seq_baseline := [''A'' \<mapsto> 10]\<rparr>)) ''A'' 11 =
     Inr (seed srm_new ''A'' 10)"
  using release_undoes_reserve [of "seed srm_new ''A'' 10" "''A''" 11
      "seed srm_new ''A'' 11\<lparr>seq_baseline := [''A'' \<mapsto> 10]\<rparr>"]
  by (simp add: reserve_next_def seed_def srm_new_def)

text \<open>
  Reconciliation with an observed on-chain sequence: an observation equal to the baseline
  or behind it changes nothing; one ahead of it reports as stale exactly the reserved numbers
  the chain has passed, moves the baseline, and guarantees that the next number handed out
  exceeds the observation and every earlier reservation.  Other accounts are untouched.
\<close>

theorem reconcile_exact:
  "baseline m a = Some b \<Longrightarrow> last_reserved m a = Some r \<Longrightarrow>
   sint obs < i64_max \<Longrightarrow> sint r < i64_max \<Longrightarrow>
     (obs = b \<longrightarrow> reconcile m a obs = (NoDrift, m)) \<and>
     (sint obs < sint b \<longrightarrow> reconcile m a obs = (AheadOfReality obs b, m)) \<and>
     (sint b < sint obs \<longrightarrow>
        (\<exists>stale m' x m''. reconcile m a obs = (BehindReality stale obs, m') \<and>
           set stale = {s. sint b < sint s \<and> sint s \<le> sint obs \<and> sint s \<le> sint r} \<and>
           baseline m' a = Some obs \<and>
           (\<forall>k. k \<noteq> a \<longrightarrow> last_reserved m' k = last_reserved m k) \<and>
           reserve_next m' a = Inr (x, m'') \<and> sint obs < sint x \<and> sint r < sint x))"
proof (intro conjI impI)
  assume h: "baseline m a = Some b" "last_reserved m a = Some r"
    "sint obs < i64_max" "sint r < i64_max"
  show "reconcile m a obs = (NoDrift, m)" if "obs = b"
    using h that by (simp add: reconcile_def baseline_def)
  show "reconcile m a obs = (AheadOfReality obs b, m)" if "sint obs < sint b"
    using h that by (auto simp: reconcile_def baseline_def)
  assume lt: "sint b < sint obs"
  obtain stale where
    stale: "fst (reconcile m a obs) = BehindReality stale obs"
      "set stale = {s. sint b < sint s \<and> sint s \<le> sint obs \<and> sint s \<le> sint r}"
    and base: "baseline (snd (reconcile m a obs)) a = Some obs"
    and res: "last_reserved (snd (reconcile m a obs)) a = Some (if sint r < sint obs then obs else r)"
    by (rule reconcile_behind [OF h(1,2) lt])
  let ?m' = "snd (reconcile m a obs)"
  let ?l = "if sint r < sint obs then obs else r"
  have nxt: "reserve_next ?m' a =
      Inr (?l + 1, ?m'\<lparr>seq_reserved := (seq_reserved ?m')(a \<mapsto> ?l + 1)\<rparr>)"
    using res by (auto simp: reserve_next_Inr)
  have "sint (?l + 1) = sint ?l + 1" using h(3,4) by (intro sint_i64_succ) simp
  then have gt: "sint obs < sint (?l + 1)" "sint r < sint (?l + 1)" by (simp_all split: if_splits)
  have other: "last_reserved ?m' k = last_reserved m k" if "k \<noteq> a" for k
    using that lt h(1) by (auto simp: reconcile_def last_reserved_def baseline_def Let_def)
  have "reconcile m a obs = (BehindReality stale obs, ?m')" using stale(1) by (cases "reconcile m a obs") simp
  with stale(2) base other nxt gt show "\<exists>stale m' x m''.
      reconcile m a obs = (BehindReality stale obs, m') \<and>
      set stale = {s. sint b < sint s \<and> sint s \<le> sint obs \<and> sint s \<le> sint r} \<and>
      baseline m' a = Some obs \<and>
      (\<forall>k. k \<noteq> a \<longrightarrow> last_reserved m' k = last_reserved m k) \<and>
      reserve_next m' a = Inr (x, m'') \<and> sint obs < sint x \<and> sint r < sint x"
    by blast
qed

theorem reconcile_exact_witness:
  "\<exists>stale m'. reconcile (seed srm_new ''A'' 10\<lparr>seq_reserved := [''A'' \<mapsto> 13]\<rparr>) ''A'' 12 =
     (BehindReality stale 12, m') \<and> set stale = {s. 10 < sint s \<and> sint s \<le> 12 \<and> sint s \<le> (13 :: int)}"
  using reconcile_exact [of "seed srm_new ''A'' 10\<lparr>seq_reserved := [''A'' \<mapsto> 13]\<rparr>" "''A''" 10 13 12]
  by (auto simp: baseline_def last_reserved_def seed_def srm_new_def)

end
