(* ===== verification/Binary_Heap.thy ===== *)
theory Binary_Heap
  imports Prelude
begin

text \<open>
  The standard library's \<open>BinaryHeap\<close> as \<open>src/queue/priority.rs\<close> uses it: a vector \<open>xs\<close> in
  which the element at \<open>i\<close> is not below its children at \<open>2i+1\<close> and \<open>2i+2\<close>.  The element type
  enters through the key the order compares (\<open>Ord::cmp\<close>), so distinct elements may compare
  equal.  \<open>sift_up\<close> and \<open>sift_down_to_bottom\<close> move elements as the library does, so ties come
  out in the library's order; the clients use only the contract \<open>max_heap\<close> at the end, which
  says nothing about the order of ties.
\<close>

section \<open>Operations\<close>

text \<open>Swapping along the path from \<open>pos\<close> to the root while the parent is smaller.\<close>

fun sift_up :: "('a \<Rightarrow> 'k::linorder) \<Rightarrow> 'a list \<Rightarrow> nat \<Rightarrow> 'a list" where
  "sift_up key xs pos =
     (if pos = 0 then xs
      else let parent = (pos - 1) div 2
           in if key (xs ! pos) \<le> key (xs ! parent) then xs
              else sift_up key (xs[pos := xs ! parent, parent := xs ! pos]) parent)"

declare sift_up.simps [simp del]

definition heap_push :: "('a \<Rightarrow> 'k::linorder) \<Rightarrow> 'a \<Rightarrow> 'a list \<Rightarrow> 'a list" where
  "heap_push key x xs = sift_up key (xs @ [x]) (length xs)"

text \<open>
  The hole at \<open>pos\<close> sinks to the bottom, each time taking the place of the greater child (the
  right one when they are equal), and the element then sifts up from there.
\<close>

function sift_down :: "('a \<Rightarrow> 'k::linorder) \<Rightarrow> 'a list \<Rightarrow> nat \<Rightarrow> 'a list \<times> nat" where
  "sift_down key xs pos =
     (let child = 2 * pos + 1
      in if child + 1 < length xs
         then let child = (if key (xs ! child) \<le> key (xs ! (child + 1)) then child + 1 else child)
              in sift_down key (xs[pos := xs ! child, child := xs ! pos]) child
         else if child + 1 = length xs
         then (xs[pos := xs ! child, child := xs ! pos], child)
         else (xs, pos))"
  by pat_completeness auto
termination
  by (relation "measure (\<lambda>(key, xs, pos). length xs - pos)") (auto split: if_splits)

declare sift_down.simps [simp del]

definition sift_down_to_bottom :: "('a \<Rightarrow> 'k::linorder) \<Rightarrow> 'a list \<Rightarrow> 'a list" where
  "sift_down_to_bottom key xs = (case sift_down key xs 0 of (ys, pos) \<Rightarrow> sift_up key ys pos)"

text \<open>\<open>pop\<close>: the last element takes the root's place and sinks.\<close>

definition heap_pop :: "('a \<Rightarrow> 'k::linorder) \<Rightarrow> 'a list \<Rightarrow> ('a \<times> 'a list) option" where
  "heap_pop key xs =
     (if xs = [] then None
      else let item = last xs; rest = butlast xs
           in if rest = [] then Some (item, [])
              else Some (hd rest, sift_down_to_bottom key (rest[0 := item])))"

definition heap_peek :: "'a list \<Rightarrow> 'a option" where
  "heap_peek xs = (case xs of [] \<Rightarrow> None | x # _ \<Rightarrow> Some x)"

section \<open>The heap order\<close>

text \<open>
  \<open>heap_inv key xs\<close>: every element is at most its parent.  While an element moves, the order
  holds except at its place: \<open>up_inv\<close> excuses the comparison of \<open>p\<close> with its parent and
  asks that the children of \<open>p\<close> are below the parent of \<open>p\<close>.
\<close>

definition heap_inv :: "('a \<Rightarrow> 'k::linorder) \<Rightarrow> 'a list \<Rightarrow> bool" where
  "heap_inv key xs \<longleftrightarrow>
     (\<forall>i. 0 < i \<and> i < length xs \<longrightarrow> key (xs ! i) \<le> key (xs ! ((i - 1) div 2)))"

definition up_inv :: "('a \<Rightarrow> 'k::linorder) \<Rightarrow> 'a list \<Rightarrow> nat \<Rightarrow> bool" where
  "up_inv key xs p \<longleftrightarrow>
     p < length xs \<and>
     (\<forall>i. 0 < i \<and> i < length xs \<and> i \<noteq> p \<longrightarrow> key (xs ! i) \<le> key (xs ! ((i - 1) div 2))) \<and>
     (\<forall>i. 0 < i \<and> i < length xs \<and> 0 < p \<and> (i - 1) div 2 = p \<longrightarrow>
        key (xs ! i) \<le> key (xs ! ((p - 1) div 2)))"

lemma heap_inv_Nil [simp]: "heap_inv key []"
  by (simp add: heap_inv_def)

lemma heap_inv_single [simp]: "heap_inv key [x]"
  by (simp add: heap_inv_def)

lemma parent_less: "0 < i \<Longrightarrow> (i - 1) div 2 < (i::nat)"
  by linarith

lemma heap_inv_root_max:
  assumes "heap_inv key xs" and "i < length xs"
  shows "key (xs ! i) \<le> key (xs ! 0)"
  using assms(2)
proof (induction i rule: less_induct)
  case (less i)
  show ?case
  proof (cases "i = 0")
    case False
    then have "key (xs ! i) \<le> key (xs ! ((i - 1) div 2))"
      using assms(1) less.prems by (auto simp: heap_inv_def)
    also have "\<dots> \<le> key (xs ! 0)"
      using less False parent_less [of i] by auto
    finally show ?thesis .
  qed simp
qed

lemma mset_swap_nth:
  assumes "i < length xs" "j < length xs"
  shows "mset (xs[i := xs ! j, j := xs ! i]) = mset xs"
  using mset_swap [of j xs i] assms by simp

subsection \<open>sift_up\<close>

lemma mset_sift_up: "pos < length xs \<Longrightarrow> mset (sift_up key xs pos) = mset xs"
proof (induction key xs pos rule: sift_up.induct)
  case (1 key xs pos)
  let ?p = "(pos - 1) div 2"
  show ?case
  proof (cases "pos = 0 \<or> key (xs ! pos) \<le> key (xs ! ?p)")
    case True
    then show ?thesis by (subst sift_up.simps) (auto simp: Let_def)
  next
    case False
    then have "mset (sift_up key (xs[pos := xs ! ?p, ?p := xs ! pos]) ?p) = mset xs"
      using 1 parent_less [of pos] by (simp add: mset_swap_nth)
    with False show ?thesis by (subst sift_up.simps) (simp add: Let_def)
  qed
qed

text \<open>One exchange with the parent: what every entry and the grandchildren of the new hole see.\<close>

lemma nth_swap_parent:
  assumes "pos < length xs" and "(pos - 1) div 2 < pos" and "i < length xs"
  shows "xs[pos := xs ! ((pos - 1) div 2), (pos - 1) div 2 := xs ! pos] ! i =
    (if i = (pos - 1) div 2 then xs ! pos else if i = pos then xs ! ((pos - 1) div 2) else xs ! i)"
  using assms by (simp add: nth_list_update)

lemma up_inv_parent_order:
  assumes inv: "up_inv key xs pos" and pos: "0 < pos"
    and gt: "\<not> key (xs ! pos) \<le> key (xs ! ((pos - 1) div 2))"
    and i: "0 < i" "i < length xs" "i \<noteq> (pos - 1) div 2"
  defines "ys \<equiv> xs[pos := xs ! ((pos - 1) div 2), (pos - 1) div 2 := xs ! pos]"
  shows "key (ys ! i) \<le> key (ys ! ((i - 1) div 2))"
proof -
  let ?p = "(pos - 1) div 2"
  have len: "pos < length xs" and par: "?p < pos" using inv pos by (auto simp: up_inv_def)
  have ord: "key (xs ! i) \<le> key (xs ! ((i - 1) div 2))" if "i \<noteq> pos"
    using inv i that by (auto simp: up_inv_def)
  have pi: "(i - 1) div 2 < length xs" using i by linarith
  note nth = nth_swap_parent [OF len par, folded ys_def]
  consider "i = pos" | "i \<noteq> pos" "(i - 1) div 2 = ?p" | "(i - 1) div 2 = pos"
    | "i \<noteq> pos" "(i - 1) div 2 \<noteq> ?p" "(i - 1) div 2 \<noteq> pos" by blast
  then show ?thesis
  proof cases
    case 1
    then show ?thesis using gt par len by (simp add: nth)
  next
    case 2
    then have "key (xs ! i) \<le> key (xs ! pos)" using ord gt by simp
    then show ?thesis using 2 i len par by (simp add: nth)
  next
    case 3
    have "key (xs ! i) \<le> key (xs ! ?p)" using inv i pos 3 by (auto simp: up_inv_def)
    moreover have "i \<noteq> pos" "pos \<noteq> ?p" using 3 i par by auto
    ultimately show ?thesis using 3 i len by (simp add: nth)
  next
    case 4
    then show ?thesis using ord i pi by (simp add: nth)
  qed
qed

lemma up_inv_grandparent_order:
  assumes inv: "up_inv key xs pos" and pos: "0 < pos"
    and i: "0 < i" "i < length xs" "0 < (pos - 1) div 2" "(i - 1) div 2 = (pos - 1) div 2"
  defines "ys \<equiv> xs[pos := xs ! ((pos - 1) div 2), (pos - 1) div 2 := xs ! pos]"
  shows "key (ys ! i) \<le> key (ys ! (((pos - 1) div 2 - 1) div 2))"
proof -
  let ?p = "(pos - 1) div 2"
  let ?g = "(?p - 1) div 2"
  have len: "pos < length xs" and par: "?p < pos" using inv pos by (auto simp: up_inv_def)
  have ord: "key (xs ! i) \<le> key (xs ! ((i - 1) div 2))" if "0 < i" "i < length xs" "i \<noteq> pos" for i
    using inv that by (auto simp: up_inv_def)
  have "?g < ?p" using i(3) by linarith
  then have gl: "?g < length xs" "?g \<noteq> pos" "?g \<noteq> ?p" using par len by linarith+
  have pg: "key (xs ! ?p) \<le> key (xs ! ?g)" using ord [of ?p] i(3) par len by simp
  note nth = nth_swap_parent [OF len par, folded ys_def]
  show ?thesis
  proof (cases "i = pos")
    case True
    then show ?thesis using pg gl len par by (simp add: nth)
  next
    case False
    moreover have "i \<noteq> ?p" using i by linarith
    moreover have "key (xs ! i) \<le> key (xs ! ?p)" using ord [of i] i False by simp
    ultimately show ?thesis using pg gl i by (simp add: nth)
  qed
qed

lemma up_inv_step:
  assumes inv: "up_inv key xs pos" and pos: "0 < pos"
    and gt: "\<not> key (xs ! pos) \<le> key (xs ! ((pos - 1) div 2))"
  shows "up_inv key (xs[pos := xs ! ((pos - 1) div 2), (pos - 1) div 2 := xs ! pos]) ((pos - 1) div 2)"
proof -
  have "(pos - 1) div 2 < length xs" using inv pos by (auto simp: up_inv_def)
  then show ?thesis
    unfolding up_inv_def
    using up_inv_parent_order [OF inv pos gt] up_inv_grandparent_order [OF inv pos] by (metis length_list_update)
qed

lemma heap_inv_sift_up: "up_inv key xs pos \<Longrightarrow> heap_inv key (sift_up key xs pos)"
proof (induction key xs pos rule: sift_up.induct)
  case (1 key xs pos)
  let ?p = "(pos - 1) div 2"
  show ?case
  proof (cases "pos = 0 \<or> key (xs ! pos) \<le> key (xs ! ?p)")
    case True
    have "heap_inv key xs"
      unfolding heap_inv_def
    proof (intro allI impI)
      fix i
      assume i: "0 < i \<and> i < length xs"
      show "key (xs ! i) \<le> key (xs ! ((i - 1) div 2))"
        using True "1.prems" i by (cases "i = pos") (auto simp: up_inv_def)
    qed
    with True show ?thesis by (subst sift_up.simps) (auto simp: Let_def)
  next
    case False
    then have "up_inv key (xs[pos := xs ! ?p, ?p := xs ! pos]) ?p"
      using "1.prems" by (intro up_inv_step) auto
    then have "heap_inv key (sift_up key (xs[pos := xs ! ?p, ?p := xs ! pos]) ?p)"
      using False by (intro "1.IH") auto
    with False show ?thesis by (subst sift_up.simps) (simp add: Let_def)
  qed
qed

lemma mset_heap_push: "mset (heap_push key x xs) = add_mset x (mset xs)"
  by (simp add: heap_push_def mset_sift_up)

lemma up_inv_append:
  assumes "heap_inv key xs"
  shows "up_inv key (xs @ [x]) (length xs)"
proof -
  have "key ((xs @ [x]) ! i) \<le> key ((xs @ [x]) ! ((i - 1) div 2))"
    if "0 < i" "i < length xs" for i
  proof -
    have "(i - 1) div 2 < length xs" using that by linarith
    then show ?thesis using assms that by (auto simp: heap_inv_def nth_append)
  qed
  then show ?thesis by (auto simp: up_inv_def)
qed

lemma heap_inv_push: "heap_inv key xs \<Longrightarrow> heap_inv key (heap_push key x xs)"
  by (simp add: heap_push_def heap_inv_sift_up up_inv_append)

subsection \<open>sift_down\<close>

definition down_inv :: "('a \<Rightarrow> 'k::linorder) \<Rightarrow> 'a list \<Rightarrow> nat \<Rightarrow> bool" where
  "down_inv key xs p \<longleftrightarrow>
     p < length xs \<and>
     (\<forall>i. 0 < i \<and> i < length xs \<and> i \<noteq> p \<and> (i - 1) div 2 \<noteq> p \<longrightarrow>
        key (xs ! i) \<le> key (xs ! ((i - 1) div 2))) \<and>
     (\<forall>i. 0 < i \<and> i < length xs \<and> 0 < p \<and> (i - 1) div 2 = p \<longrightarrow>
        key (xs ! i) \<le> key (xs ! ((p - 1) div 2)))"

text \<open>The greater child \<open>c\<close> of the hole \<open>p\<close> takes its place.\<close>

lemma down_inv_step:
  assumes inv: "down_inv key xs p" and c: "0 < c" "c < length xs" "(c - 1) div 2 = p"
    and sib: "\<And>i. 0 < i \<Longrightarrow> i < length xs \<Longrightarrow> (i - 1) div 2 = p \<Longrightarrow> key (xs ! i) \<le> key (xs ! c)"
  shows "down_inv key (xs[p := xs ! c, c := xs ! p]) c"
proof -
  let ?ys = "xs[p := xs ! c, c := xs ! p]"
  have pc: "p < c" using c by linarith
  have ord: "key (xs ! i) \<le> key (xs ! ((i - 1) div 2))"
    if "0 < i" "i < length xs" "i \<noteq> p" "(i - 1) div 2 \<noteq> p" for i
    using inv that by (auto simp: down_inv_def)
  have kids: "key (xs ! i) \<le> key (xs ! ((p - 1) div 2))"
    if "0 < i" "i < length xs" "0 < p" "(i - 1) div 2 = p" for i
    using inv that by (auto simp: down_inv_def)
  have nth: "?ys ! i = (if i = c then xs ! p else if i = p then xs ! c else xs ! i)"
    if "i < length xs" for i
    using that pc c by (simp add: nth_list_update)
  have 1: "key (?ys ! i) \<le> key (?ys ! ((i - 1) div 2))"
    if i: "0 < i" "i < length xs" "i \<noteq> c" "(i - 1) div 2 \<noteq> c" for i
  proof -
    have pi: "(i - 1) div 2 < length xs" "(i - 1) div 2 < i" using i by linarith+
    consider "i = p" | "i \<noteq> p" "(i - 1) div 2 = p" | "i \<noteq> p" "(i - 1) div 2 \<noteq> p" by blast
    then show ?thesis
    proof cases
      case 1
      then show ?thesis using kids [of c] c i pi by (simp add: nth)
    next
      case 2
      then show ?thesis using sib [of i] i pi by (simp add: nth)
    next
      case 3
      then show ?thesis using ord [of i] i pi by (simp add: nth)
    qed
  qed
  have 2: "key (?ys ! i) \<le> key (?ys ! ((c - 1) div 2))"
    if i: "0 < i" "i < length xs" "(i - 1) div 2 = c" for i
  proof -
    have "c < i" using i by linarith
    then show ?thesis using ord [of i] i pc c by (simp add: nth)
  qed
  have "c < length ?ys" using c by simp
  then show ?thesis
    unfolding down_inv_def using 1 2 by (metis length_list_update)
qed

lemma down_inv_bottom:
  assumes "down_inv key xs p" and "length xs \<le> 2 * p + 1"
  shows "up_inv key xs p"
proof -
  have "(i - 1) div 2 \<noteq> p" if "0 < i" "i < length xs" for i
    using that assms(2) by linarith
  then show ?thesis using assms(1) unfolding up_inv_def down_inv_def by blast
qed

lemma children: "0 < i \<Longrightarrow> (i - 1) div 2 = p \<Longrightarrow> i = 2 * p + 1 \<or> i = 2 * p + (2::nat)"
  by linarith

lemma sift_down_two:
  assumes "2 * pos + 1 + 1 < length xs"
    and "d = (if key (xs ! (2 * pos + 1)) \<le> key (xs ! (2 * pos + 1 + 1))
              then 2 * pos + 1 + 1 else 2 * pos + 1)"
  shows "sift_down key xs pos = sift_down key (xs[pos := xs ! d, d := xs ! pos]) d"
  by (subst sift_down.simps) (simp only: Let_def assms if_True)

lemma sift_down_one:
  assumes "2 * pos + 1 + 1 = length xs"
  shows "sift_down key xs pos = (xs[pos := xs ! (2 * pos + 1), 2 * pos + 1 := xs ! pos], 2 * pos + 1)"
  by (subst sift_down.simps) (simp add: Let_def flip: assms)

lemma sift_down_none:
  assumes "length xs \<le> 2 * pos + 1"
  shows "sift_down key xs pos = (xs, pos)"
  using assms by (subst sift_down.simps) (simp add: Let_def)

lemma sift_down_correct:
  assumes "down_inv key xs pos" and "sift_down key xs pos = (ys, q)"
  shows "up_inv key ys q \<and> mset ys = mset xs"
  using assms
proof (induction key xs pos arbitrary: ys q rule: sift_down.induct)
  case (1 key xs pos)
  let ?c = "2 * pos + 1"
  let ?d = "if key (xs ! ?c) \<le> key (xs ! (?c + 1)) then ?c + 1 else ?c"
  have pos: "pos < length xs" using "1.prems"(1) by (simp add: down_inv_def)
  consider (two) "?c + 1 < length xs" | (one) "?c + 1 = length xs" | (none) "length xs \<le> ?c"
    by linarith
  then show ?case
  proof cases
    case two
    let ?ys = "xs[pos := xs ! ?d, ?d := xs ! pos]"
    have d: "0 < ?d" "?d < length xs" "(?d - 1) div 2 = pos" using two by auto
    have sib: "key (xs ! i) \<le> key (xs ! ?d)" if "0 < i" "(i - 1) div 2 = pos" for i
      using children [OF that] by auto
    have di: "down_inv key ?ys ?d"
      by (rule down_inv_step [OF "1.prems"(1) d]) (rule sib)
    have sd: "sift_down key ?ys ?d = (ys, q)"
      using sift_down_two [OF two refl, of key] "1.prems"(2) by (rule trans [OF sym])
    have "up_inv key ys q \<and> mset ys = mset ?ys"
      by (rule "1.IH" [OF refl two refl di sd])
    then show ?thesis using mset_swap_nth [OF pos d(2)] by simp
  next
    case one
    let ?ys = "xs[pos := xs ! ?c, ?c := xs ! pos]"
    have c: "0 < ?c" "?c < length xs" "(?c - 1) div 2 = pos" using one by auto
    have sib: "key (xs ! i) \<le> key (xs ! ?c)" if "0 < i" "i < length xs" "(i - 1) div 2 = pos" for i
      using children [OF that(1,3)] that(2) one by auto
    have "down_inv key ?ys ?c" by (rule down_inv_step [OF "1.prems"(1) c sib])
    then have "up_inv key ?ys ?c" using one by (intro down_inv_bottom) auto
    moreover have "ys = ?ys" "q = ?c"
      using "1.prems"(2) sift_down_one [OF one, of key] by auto
    ultimately show ?thesis using mset_swap_nth [OF pos c(2)] by simp
  next
    case none
    then have "ys = xs" "q = pos"
      using "1.prems"(2) sift_down_none [OF none, of key] by simp_all
    then show ?thesis using down_inv_bottom [OF "1.prems"(1)] none by simp
  qed
qed

lemma sift_down_to_bottom_correct:
  assumes "down_inv key xs 0"
  shows "heap_inv key (sift_down_to_bottom key xs) \<and> mset (sift_down_to_bottom key xs) = mset xs"
proof -
  obtain ys q where yq: "sift_down key xs 0 = (ys, q)" by (cases "sift_down key xs 0")
  have u: "up_inv key ys q" and m: "mset ys = mset xs"
    using sift_down_correct [OF assms yq] by auto
  then have "q < length ys" by (simp add: up_inv_def)
  with u m show ?thesis
    by (simp add: sift_down_to_bottom_def yq heap_inv_sift_up mset_sift_up)
qed

lemma down_inv_replace_root:
  assumes "heap_inv key (xs @ [x])" and "xs \<noteq> []"
  shows "down_inv key (xs[0 := y]) 0"
proof -
  have "key (xs[0 := y] ! i) \<le> key (xs[0 := y] ! ((i - 1) div 2))"
    if i: "0 < i" "i < length xs" "(i - 1) div 2 \<noteq> 0" for i
  proof -
    have p: "(i - 1) div 2 < length xs" using i by linarith
    have "key ((xs @ [x]) ! i) \<le> key ((xs @ [x]) ! ((i - 1) div 2))"
      using assms(1) i by (auto simp: heap_inv_def)
    then show ?thesis using i p by (simp add: nth_append nth_list_update)
  qed
  then show ?thesis using assms(2) by (auto simp: down_inv_def)
qed

lemma mset_replace_hd: "xs \<noteq> [] \<Longrightarrow> mset (xs[0 := y]) = add_mset y (mset xs) - {#hd xs#}"
  by (cases xs) auto

lemma heap_pop_correct:
  assumes inv: "heap_inv key xs" and pop: "heap_pop key xs = Some (x, ys)"
  shows "heap_inv key ys \<and> mset xs = add_mset x (mset ys) \<and> x = xs ! 0"
proof (cases xs rule: rev_cases)
  case Nil
  with pop show ?thesis by (simp add: heap_pop_def)
next
  case (snoc rest item)
  show ?thesis
  proof (cases "rest = []")
    case True
    with snoc pop show ?thesis by (auto simp: heap_pop_def)
  next
    case False
    have "x = hd rest" and ys: "ys = sift_down_to_bottom key (rest[0 := item])"
      using pop snoc False by (auto simp: heap_pop_def Let_def)
    moreover have "down_inv key (rest[0 := item]) 0"
      using inv snoc False by (auto intro: down_inv_replace_root)
    moreover have "mset rest = add_mset (hd rest) (mset rest - {#hd rest#})"
      using False by simp
    ultimately show ?thesis
      using sift_down_to_bottom_correct [of key "rest[0 := item]"] snoc False
      by (auto simp: mset_replace_hd nth_append hd_conv_nth)
  qed
qed

section \<open>The contract of a priority heap\<close>

text \<open>
  What the queue relies on: \<open>pop\<close> and \<open>peek\<close> agree, they return an element no other
  compares above, and the contents are a multiset.
\<close>

text \<open>Popping \<open>n\<close> times.\<close>

fun drain :: "('h \<Rightarrow> ('a \<times> 'h) option) \<Rightarrow> nat \<Rightarrow> 'h \<Rightarrow> 'a list" where
  "drain hp 0 h = []"
| "drain hp (Suc n) h = (case hp h of None \<Rightarrow> [] | Some (x, h') \<Rightarrow> x # drain hp n h')"

locale max_heap =
  fixes hpush :: "'a \<Rightarrow> 'h \<Rightarrow> 'h"
    and hpop :: "'h \<Rightarrow> ('a \<times> 'h) option"
    and hpeek :: "'h \<Rightarrow> 'a option"
    and contents :: "'h \<Rightarrow> 'a multiset"
    and key :: "'a \<Rightarrow> 'k::linorder"
    and invar :: "'h \<Rightarrow> bool"
  assumes invar_push: "invar h \<Longrightarrow> invar (hpush x h)"
    and contents_push: "invar h \<Longrightarrow> contents (hpush x h) = add_mset x (contents h)"
    and pop_None: "invar h \<Longrightarrow> hpop h = None \<longleftrightarrow> contents h = {#}"
    and invar_pop: "invar h \<Longrightarrow> hpop h = Some (x, h') \<Longrightarrow> invar h'"
    and contents_pop: "invar h \<Longrightarrow> hpop h = Some (x, h') \<Longrightarrow> contents h = add_mset x (contents h')"
    and pop_max: "invar h \<Longrightarrow> hpop h = Some (x, h') \<Longrightarrow> y \<in># contents h \<Longrightarrow> key y \<le> key x"
    and peek_pop: "invar h \<Longrightarrow> hpeek h = map_option fst (hpop h)"
begin

lemma set_drain: "invar h \<Longrightarrow> set (drain hpop n h) \<subseteq> set_mset (contents h)"
proof (induction n arbitrary: h)
  case (Suc n)
  show ?case
  proof (cases "hpop h")
    case (Some p)
    obtain x h' where p: "p = (x, h')" by (cases p)
    with Some Suc show ?thesis
      using invar_pop [of h x h'] contents_pop [of h x h'] by auto
  qed simp
qed simp

lemma drain_sorted: "invar h \<Longrightarrow> sorted_wrt (\<ge>) (map key (drain hpop n h))"
proof (induction n arbitrary: h)
  case (Suc n)
  show ?case
  proof (cases "hpop h")
    case (Some p)
    obtain x h' where p: "p = (x, h')" by (cases p)
    have h': "invar h'" "contents h = add_mset x (contents h')"
      using Some p Suc.prems invar_pop contents_pop by auto
    have "key y \<le> key x" if "y \<in> set (drain hpop n h')" for y
      using that set_drain [OF h'(1)] pop_max [OF Suc.prems] Some p h'(2) by auto
    with Some p Suc.IH [OF h'(1)] show ?thesis by auto
  qed simp
qed simp

lemma mset_drain: "invar h \<Longrightarrow> size (contents h) \<le> n \<Longrightarrow> mset (drain hpop n h) = contents h"
proof (induction n arbitrary: h)
  case (Suc n)
  show ?case
  proof (cases "hpop h")
    case None
    then have "contents h = {#}" using Suc.prems pop_None by blast
    with None show ?thesis by simp
  next
    case (Some p)
    obtain x h' where p: "p = (x, h')" by (cases p)
    then show ?thesis using Some Suc invar_pop [of h x h'] contents_pop [of h x h'] by simp
  qed
qed simp

end

lemma heap_pop_None: "heap_pop key h = None \<longleftrightarrow> h = []"
  by (simp add: heap_pop_def Let_def)

lemma heap_peek_pop: "heap_peek h = map_option fst (heap_pop key h)"
proof (cases h rule: rev_cases)
  case Nil
  then show ?thesis by (simp add: heap_peek_def heap_pop_def)
next
  case (snoc rest item)
  then show ?thesis
    by (cases rest) (simp_all add: heap_peek_def heap_pop_def Let_def)
qed

interpretation bheap: max_heap
  "heap_push key" "heap_pop key" heap_peek mset key "heap_inv key" for key
proof (unfold_locales, goal_cases)
  case (1 h x)
  then show ?case by (rule heap_inv_push)
next
  case (2 h x)
  then show ?case by (simp add: mset_heap_push)
next
  case (3 h)
  show ?case by (simp add: heap_pop_None)
next
  case (4 h x h')
  show ?case using heap_pop_correct [OF 4] by blast
next
  case (5 h x h')
  show ?case using heap_pop_correct [OF 5] by blast
next
  case (6 h x h' y)
  then obtain i where "i < length h" "y = h ! i" by (auto simp: in_set_conv_nth)
  then show ?case using heap_inv_root_max [OF 6(1)] heap_pop_correct [OF 6(1,2)] by simp
next
  case (7 h)
  show ?case by (rule heap_peek_pop)
qed

end
