(* ===== verification/Priority.thy ===== *)
theory Priority
  imports Core_Types Binary_Heap
begin

text \<open>
  \<open>src/queue/priority.rs\<close>: the priority tiers, the outbound queue over a binary heap, and the
  rolling-window guard on Emergency payments.  The clock is read by \<open>push\<close> only; its value is
  the argument \<open>now\<close>.
\<close>

section \<open>Priority tiers\<close>

datatype tx_priority = Low | Normal | Emergency

fun priority_to_i64 :: "tx_priority \<Rightarrow> i64" where
  "priority_to_i64 Low = 0"
| "priority_to_i64 Normal = 1"
| "priority_to_i64 Emergency = 2"

definition priority_try_from :: "i64 \<Rightarrow> tx_priority result" where
  "priority_try_from v =
     (if v = 0 then Inr Low
      else if v = 1 then Inr Normal
      else if v = 2 then Inr Emergency
      else Inl (InvalidEnvelope (''unknown TxPriority discriminant '' @ show_i64 v)))"

text \<open>The derived order: by discriminant.\<close>

fun priority_rank :: "tx_priority \<Rightarrow> nat" where
  "priority_rank Low = 0"
| "priority_rank Normal = 1"
| "priority_rank Emergency = 2"

lemma priority_rank_inj [simp]: "priority_rank p = priority_rank q \<longleftrightarrow> p = q"
  by (cases p; cases q) auto

instantiation tx_priority :: linorder
begin

definition less_eq_tx_priority :: "tx_priority \<Rightarrow> tx_priority \<Rightarrow> bool" where
  "less_eq_tx_priority p q \<longleftrightarrow> priority_rank p \<le> priority_rank q"

definition less_tx_priority :: "tx_priority \<Rightarrow> tx_priority \<Rightarrow> bool" where
  "less_tx_priority p q \<longleftrightarrow> priority_rank p < priority_rank q"

instance
  by intro_classes (auto simp: less_eq_tx_priority_def less_tx_priority_def)

end

lemma priority_try_from_to_i64 [simp]: "priority_try_from (priority_to_i64 p) = Inr p"
  by (cases p) (simp_all add: priority_try_from_def)

definition priority_decode :: "i64 \<Rightarrow> tx_priority option" where
  "priority_decode v = (case priority_try_from v of Inl _ \<Rightarrow> None | Inr p \<Rightarrow> Some p)"

interpretation priority_codec: codec priority_to_i64 priority_decode
  by unfold_locales (simp add: priority_decode_def)

lemma priority_try_from_Inr:
  "priority_try_from v = Inr p \<longleftrightarrow> v = priority_to_i64 p"
  by (cases p) (auto simp: priority_try_from_def)

section \<open>Queue entries\<close>

record queued_tx =
  q_priority :: tx_priority
  q_enqueued_at :: u64
  q_envelope :: transaction_envelope

text \<open>
  \<open>Ord for QueuedTx\<close>: the tier first, then the earlier enqueue time counts as greater.  The
  heap compares entries through the key \<open>queue_key\<close>; \<open>queue_key_le\<close> says it is that order.
\<close>

definition queued_tx_le :: "queued_tx \<Rightarrow> queued_tx \<Rightarrow> bool" where
  "queued_tx_le a b \<longleftrightarrow>
     q_priority a < q_priority b \<or>
     (q_priority a = q_priority b \<and> q_enqueued_at b \<le> q_enqueued_at a)"

text \<open>\<open>PartialEq for QueuedTx\<close> compares the envelopes' ids only, which is not the \<open>Equal\<close> of \<open>cmp\<close>.\<close>

definition queued_tx_eq :: "queued_tx \<Rightarrow> queued_tx \<Rightarrow> bool" where
  "queued_tx_eq a b \<longleftrightarrow> message_id (q_envelope a) = message_id (q_envelope b)"

definition queue_key :: "queued_tx \<Rightarrow> tx_priority \<times> int" where
  "queue_key q = (q_priority q, - uint (q_enqueued_at q))"

lemma queue_key_le: "queue_key a \<le> queue_key b \<longleftrightarrow> queued_tx_le a b"
  by (auto simp: queue_key_def queued_tx_le_def word_le_def)

section \<open>The Emergency guard\<close>

record emergency_guard_config =
  max_count :: usize
  guard_window :: duration

record emergency_guard =
  guard_config :: emergency_guard_config
  guard_history :: "u64 list"

definition guard_new :: "emergency_guard_config \<Rightarrow> emergency_guard" where
  "guard_new config = \<lparr>guard_config = config, guard_history = []\<rparr>"

definition window_secs :: "emergency_guard \<Rightarrow> u64" where
  "window_secs g = as_secs (guard_window (guard_config g))"

text \<open>The loop pops the front of the deque while it has left the window.\<close>

fun prune_history :: "u64 \<Rightarrow> u64 \<Rightarrow> u64 list \<Rightarrow> u64 list" where
  "prune_history now w [] = []"
| "prune_history now w (oldest # rest) =
     (if w \<le> u64_saturating_sub now oldest then prune_history now w rest else oldest # rest)"

definition prune :: "emergency_guard \<Rightarrow> u64 \<Rightarrow> emergency_guard" where
  "prune g now = g\<lparr>guard_history := prune_history now (window_secs g) (guard_history g)\<rparr>"

definition guard_check :: "emergency_guard \<Rightarrow> u64 \<Rightarrow> unit result \<times> emergency_guard" where
  "guard_check g now =
     (let g' = prune g now
      in if max_count (guard_config g') \<le> length (guard_history g')
         then (Inl (EmergencyQueueLimitExceeded (length (guard_history g'))
                 (max_count (guard_config g')) (window_secs g')), g')
         else (Inr (), g'))"

definition guard_record :: "emergency_guard \<Rightarrow> u64 \<Rightarrow> emergency_guard" where
  "guard_record g at = g\<lparr>guard_history := guard_history g @ [at]\<rparr>"

section \<open>The outbound queue\<close>

record outbound_tx_queue =
  heap :: "queued_tx list"
  emergency_guard_of :: "emergency_guard option"

definition queue_new :: outbound_tx_queue where
  "queue_new = \<lparr>heap = [], emergency_guard_of = None\<rparr>"

definition with_emergency_guard :: "emergency_guard_config \<Rightarrow> outbound_tx_queue" where
  "with_emergency_guard config = \<lparr>heap = [], emergency_guard_of = Some (guard_new config)\<rparr>"

definition heap_insert ::
  "outbound_tx_queue \<Rightarrow> transaction_envelope \<Rightarrow> tx_priority \<Rightarrow> u64 \<Rightarrow> outbound_tx_queue" where
  "heap_insert q envelope priority enqueued_at =
     q\<lparr>heap := heap_push queue_key
         \<lparr>q_priority = priority, q_enqueued_at = enqueued_at, q_envelope = envelope\<rparr> (heap q)\<rparr>"

definition push_at ::
  "outbound_tx_queue \<Rightarrow> transaction_envelope \<Rightarrow> tx_priority \<Rightarrow> u64
     \<Rightarrow> unit result \<times> outbound_tx_queue" where
  "push_at q envelope priority enqueued_at =
     (case (if priority = Emergency then emergency_guard_of q else None) of
        None \<Rightarrow> (Inr (), heap_insert q envelope priority enqueued_at)
      | Some guard \<Rightarrow>
          (case guard_check guard enqueued_at of
             (Inl e, guard') \<Rightarrow> (Inl e, q\<lparr>emergency_guard_of := Some guard'\<rparr>)
           | (Inr _, guard') \<Rightarrow>
               (Inr (), heap_insert
                  (q\<lparr>emergency_guard_of := Some (guard_record guard' enqueued_at)\<rparr>)
                  envelope priority enqueued_at)))"

definition push ::
  "u64 \<Rightarrow> outbound_tx_queue \<Rightarrow> transaction_envelope \<Rightarrow> tx_priority
     \<Rightarrow> unit result \<times> outbound_tx_queue" where
  "push now q envelope priority = push_at q envelope priority now"

definition restore_at ::
  "outbound_tx_queue \<Rightarrow> transaction_envelope \<Rightarrow> tx_priority \<Rightarrow> u64 \<Rightarrow> outbound_tx_queue" where
  "restore_at q envelope priority enqueued_at =
     heap_insert
       (if priority = Emergency
        then q\<lparr>emergency_guard_of := map_option (\<lambda>g. guard_record g enqueued_at) (emergency_guard_of q)\<rparr>
        else q)
       envelope priority enqueued_at"

definition pop :: "outbound_tx_queue \<Rightarrow> transaction_envelope option \<times> outbound_tx_queue" where
  "pop q =
     (case heap_pop queue_key (heap q) of
        None \<Rightarrow> (None, q)
      | Some (e, h) \<Rightarrow> (Some (q_envelope e), q\<lparr>heap := h\<rparr>))"

definition peek :: "outbound_tx_queue \<Rightarrow> transaction_envelope option" where
  "peek q = map_option q_envelope (heap_peek (heap q))"

definition queue_len :: "outbound_tx_queue \<Rightarrow> usize" where
  "queue_len q = length (heap q)"

definition queue_is_empty :: "outbound_tx_queue \<Rightarrow> bool" where
  "queue_is_empty q = (heap q = [])"

section \<open>Well-formedness and contents\<close>

definition queue_inv :: "outbound_tx_queue \<Rightarrow> bool" where
  "queue_inv q \<longleftrightarrow> heap_inv queue_key (heap q)"

definition queue_contents :: "outbound_tx_queue \<Rightarrow> queued_tx multiset" where
  "queue_contents q = mset (heap q)"

abbreviation entry_of :: "transaction_envelope \<Rightarrow> tx_priority \<Rightarrow> u64 \<Rightarrow> queued_tx" where
  "entry_of envelope p at \<equiv> \<lparr>q_priority = p, q_enqueued_at = at, q_envelope = envelope\<rparr>"

lemma queue_inv_new [simp]: "queue_inv queue_new" "queue_inv (with_emergency_guard c)"
  by (simp_all add: queue_inv_def queue_new_def with_emergency_guard_def)

lemma queue_contents_new [simp]:
  "queue_contents queue_new = {#}" "queue_contents (with_emergency_guard c) = {#}"
  by (simp_all add: queue_contents_def queue_new_def with_emergency_guard_def)

lemma heap_insert_inv: "queue_inv q \<Longrightarrow> queue_inv (heap_insert q e p t)"
  by (simp add: queue_inv_def heap_insert_def bheap.invar_push)

lemma heap_insert_contents:
  "queue_contents (heap_insert q e p t) = add_mset (entry_of e p t) (queue_contents q)"
  by (simp add: queue_contents_def heap_insert_def mset_heap_push)

lemma guard_of_heap_insert [simp]: "emergency_guard_of (heap_insert q e p t) = emergency_guard_of q"
  by (simp add: heap_insert_def)

lemma queue_inv_guard [simp]: "queue_inv (q\<lparr>emergency_guard_of := g\<rparr>) = queue_inv q"
  by (simp add: queue_inv_def)

lemma queue_contents_guard [simp]: "queue_contents (q\<lparr>emergency_guard_of := g\<rparr>) = queue_contents q"
  by (simp add: queue_contents_def)

lemma push_at_unguarded:
  "p \<noteq> Emergency \<or> emergency_guard_of q = None \<Longrightarrow>
   push_at q e p t = (Inr (), heap_insert q e p t)"
  by (auto simp: push_at_def)

lemma push_at_inv: "queue_inv q \<Longrightarrow> queue_inv (snd (push_at q e p t))"
  by (auto simp: push_at_def heap_insert_inv split: option.splits prod.splits sum.splits)

lemma push_at_contents:
  "queue_contents (snd (push_at q e p t)) =
     (if is_ok (fst (push_at q e p t)) then add_mset (entry_of e p t) (queue_contents q)
      else queue_contents q)"
  by (auto simp: push_at_def heap_insert_contents split: option.splits prod.splits sum.splits)

lemma restore_at_inv: "queue_inv q \<Longrightarrow> queue_inv (restore_at q e p t)"
  by (simp add: restore_at_def heap_insert_inv)

lemma restore_at_contents:
  "queue_contents (restore_at q e p t) = add_mset (entry_of e p t) (queue_contents q)"
  by (simp add: restore_at_def heap_insert_contents)

lemma restore_at_guard_None [simp]:
  "emergency_guard_of q = None \<Longrightarrow> emergency_guard_of (restore_at q e p t) = None"
  by (simp add: restore_at_def)

lemma pop_inv: "queue_inv q \<Longrightarrow> queue_inv (snd (pop q))"
  using bheap.invar_pop [of queue_key "heap q"]
  by (auto simp: pop_def queue_inv_def split: option.splits)

lemma pop_guard [simp]: "emergency_guard_of (snd (pop q)) = emergency_guard_of q"
  by (auto simp: pop_def split: option.splits)

text \<open>One pop: the entry handed out is one that no other entry precedes, and only it leaves.\<close>

lemma pop_Some:
  assumes "queue_inv q" and "pop q = (Some envelope, q')"
  obtains e where "q_envelope e = envelope" and "queue_contents q = add_mset e (queue_contents q')"
    and "\<And>d. d \<in># queue_contents q \<Longrightarrow> queued_tx_le d e"
proof -
  obtain e h where eh: "heap_pop queue_key (heap q) = Some (e, h)"
    and env: "q_envelope e = envelope" and q': "q' = q\<lparr>heap := h\<rparr>"
    using assms(2) by (auto simp: pop_def split: option.splits)
  have inv: "heap_inv queue_key (heap q)" using assms(1) by (simp add: queue_inv_def)
  show ?thesis
  proof
    show "q_envelope e = envelope" by (rule env)
    show "queue_contents q = add_mset e (queue_contents q')"
      using bheap.contents_pop [OF inv eh] q' by (simp add: queue_contents_def)
    show "queued_tx_le d e" if "d \<in># queue_contents q" for d
      using bheap.pop_max [OF inv eh, of d] that by (simp add: queue_contents_def queue_key_le)
  qed
qed

lemma pop_None_iff: "fst (pop q) = None \<longleftrightarrow> queue_contents q = {#}"
  using heap_pop_None [of queue_key "heap q"]
  by (auto simp: pop_def queue_contents_def split: option.splits)

lemma peek_eq_pop: "peek q = fst (pop q)"
  by (auto simp: peek_def pop_def heap_peek_pop [of "heap q" queue_key] split: option.splits)

lemma queue_len_contents: "queue_len q = size (queue_contents q)"
  by (simp add: queue_len_def queue_contents_def)

section \<open>Draining the queue\<close>

text \<open>\<open>pop\<close> until it returns \<open>None\<close>, at most \<open>n\<close> times, with the entries behind the envelopes.\<close>

definition drain_entries :: "nat \<Rightarrow> outbound_tx_queue \<Rightarrow> queued_tx list" where
  "drain_entries n q = drain (heap_pop queue_key) n (heap q)"

fun pop_all :: "nat \<Rightarrow> outbound_tx_queue \<Rightarrow> transaction_envelope list" where
  "pop_all 0 q = []"
| "pop_all (Suc n) q = (case pop q of (None, _) \<Rightarrow> [] | (Some e, q') \<Rightarrow> e # pop_all n q')"

lemma pop_all_drain: "pop_all n q = map q_envelope (drain_entries n q)"
proof (induction n arbitrary: q)
  case (Suc n)
  show ?case
  proof (cases "heap_pop queue_key (heap q)")
    case None
    then show ?thesis by (simp add: pop_def drain_entries_def)
  next
    case (Some eh)
    then show ?thesis
      using Suc.IH by (cases eh) (simp add: pop_def drain_entries_def)
  qed
qed (simp add: drain_entries_def)

lemma drain_entries_complete:
  "queue_inv q \<Longrightarrow> queue_len q \<le> n \<Longrightarrow> mset (drain_entries n q) = queue_contents q"
  by (simp add: drain_entries_def queue_inv_def queue_len_def queue_contents_def bheap.mset_drain)

lemma drain_entries_ordered:
  "queue_inv q \<Longrightarrow> sorted_wrt (\<lambda>a b. queued_tx_le b a) (drain_entries n q)"
  using bheap.drain_sorted [of queue_key "heap q" n]
  by (simp add: drain_entries_def queue_inv_def sorted_wrt_map flip: queue_key_le)

section \<open>The guard's history\<close>

lemma prune_history_suffix:
  "\<exists>pre. h = pre @ prune_history now w h \<and> (\<forall>t \<in> set pre. w \<le> u64_saturating_sub now t)"
proof (induction h)
  case (Cons t h)
  then obtain pre where "h = pre @ prune_history now w h"
    and "\<forall>t \<in> set pre. w \<le> u64_saturating_sub now t" by blast
  show ?case
  proof (cases "w \<le> u64_saturating_sub now t")
    case True
    then have "t # h = (t # pre) @ prune_history now w (t # h)"
      using \<open>h = pre @ prune_history now w h\<close> by simp
    then show ?thesis
      using True \<open>\<forall>t \<in> set pre. w \<le> u64_saturating_sub now t\<close>
      by (intro exI [of _ "t # pre"] conjI) auto
  next
    case False
    then show ?thesis by (intro exI [of _ "[]"]) simp
  qed
qed simp

text \<open>Expired entries in front of a history do not change what pruning leaves.\<close>

lemma prune_history_drop:
  "\<forall>t \<in> set pre. w \<le> u64_saturating_sub now t \<Longrightarrow>
   prune_history now w (pre @ h) = prune_history now w h"
  by (induction pre) auto

lemma expired_mono:
  "w \<le> u64_saturating_sub now t \<Longrightarrow> now \<le> now' \<Longrightarrow> w \<le> u64_saturating_sub now' t"
  by (simp add: word_le_nat_alt unat_u64_saturating_sub)

text \<open>
  In a history whose times do not decrease, pruning at \<open>now\<close> leaves the times inside the
  window.
\<close>

lemma prune_history_filter:
  "sorted h \<Longrightarrow> prune_history now w h = filter (\<lambda>t. u64_saturating_sub now t < w) h"
proof (induction h)
  case (Cons t h)
  show ?case
  proof (cases "w \<le> u64_saturating_sub now t")
    case True
    with Cons show ?thesis by auto
  next
    case False
    have "u64_saturating_sub now s < w" if "s \<in> set h" for s
    proof -
      have "t \<le> s" using Cons.prems that by simp
      with False show ?thesis
        by (simp add: word_less_nat_alt word_le_nat_alt unat_u64_saturating_sub)
    qed
    then have "filter (\<lambda>s. u64_saturating_sub now s < w) h = h" by simp
    with False show ?thesis by simp
  qed
qed simp

section \<open>Runs of Emergency pushes\<close>

text \<open>
  A run pushes Emergency envelopes at the given times; \<open>push_run\<close> returns which were admitted.
  \<open>restore_run\<close> replays previously admitted ones after a restart.
\<close>

fun push_run :: "outbound_tx_queue \<Rightarrow> (transaction_envelope \<times> u64) list \<Rightarrow> bool list \<times> outbound_tx_queue" where
  "push_run q [] = ([], q)"
| "push_run q ((e, t) # ops) =
     (case push_at q e Emergency t of (r, q') \<Rightarrow>
      (case push_run q' ops of (rs, q'') \<Rightarrow> (is_ok r # rs, q'')))"

fun restore_run :: "outbound_tx_queue \<Rightarrow> (transaction_envelope \<times> u64) list \<Rightarrow> outbound_tx_queue" where
  "restore_run q [] = q"
| "restore_run q ((e, t) # ops) = restore_run (restore_at q e Emergency t) ops"

fun admitted :: "bool list \<Rightarrow> 'a list \<Rightarrow> 'a list" where
  "admitted (True # bs) (x # xs) = x # admitted bs xs"
| "admitted (False # bs) (x # xs) = admitted bs xs"
| "admitted _ _ = []"

text \<open>
  What the queue knows of the past: the guard's history is what remains of the admitted times
  \<open>acc\<close> after dropping a prefix that had left the window by time \<open>now\<close>.
\<close>

definition guard_tracks :: "outbound_tx_queue \<Rightarrow> emergency_guard_config \<Rightarrow> u64 list \<Rightarrow> u64 \<Rightarrow> bool" where
  "guard_tracks q cfg acc now \<longleftrightarrow>
     (\<exists>g pre. emergency_guard_of q = Some g \<and> guard_config g = cfg \<and>
        acc = pre @ guard_history g \<and>
        (\<forall>t \<in> set pre. as_secs (guard_window cfg) \<le> u64_saturating_sub now t))"

definition window_count :: "emergency_guard_config \<Rightarrow> u64 \<Rightarrow> u64 list \<Rightarrow> nat" where
  "window_count cfg now acc =
     length (prune_history now (as_secs (guard_window cfg)) acc)"

lemma guard_tracks_new: "guard_tracks (with_emergency_guard cfg) cfg [] now"
  by (auto simp: guard_tracks_def with_emergency_guard_def guard_new_def)

lemma guard_tracks_mono: "guard_tracks q cfg acc now \<Longrightarrow> now \<le> now' \<Longrightarrow> guard_tracks q cfg acc now'"
  unfolding guard_tracks_def using expired_mono by blast

text \<open>The decision of a push at \<open>now\<close> is a function of the admitted times alone.\<close>

lemma push_at_guarded:
  assumes "guard_tracks q cfg acc now"
  shows "is_ok (fst (push_at q e Emergency now)) \<longleftrightarrow> window_count cfg now acc < max_count cfg"
    and "guard_tracks (snd (push_at q e Emergency now)) cfg
           (if window_count cfg now acc < max_count cfg then acc @ [now] else acc) now"
proof -
  let ?w = "as_secs (guard_window cfg)"
  obtain g pre where g: "emergency_guard_of q = Some g" "guard_config g = cfg"
    and acc: "acc = pre @ guard_history g"
    and pre: "\<forall>t \<in> set pre. ?w \<le> u64_saturating_sub now t"
    using assms by (auto simp: guard_tracks_def)
  have pruned: "prune_history now ?w (guard_history g) = prune_history now ?w acc"
    using pre by (simp add: acc prune_history_drop)
  obtain pre' where pre': "acc = pre' @ prune_history now ?w acc"
      "\<forall>t \<in> set pre'. ?w \<le> u64_saturating_sub now t"
    using prune_history_suffix by blast
  show "is_ok (fst (push_at q e Emergency now)) \<longleftrightarrow> window_count cfg now acc < max_count cfg"
    using g pruned
    by (auto simp: push_at_def guard_check_def prune_def window_secs_def window_count_def Let_def)
  show "guard_tracks (snd (push_at q e Emergency now)) cfg
          (if window_count cfg now acc < max_count cfg then acc @ [now] else acc) now"
    using g pruned pre'
    by (auto simp: push_at_def guard_check_def prune_def window_secs_def window_count_def Let_def
        guard_tracks_def guard_record_def intro!: exI [of _ pre'])
qed

text \<open>The run as a function of the admitted times: the reference the guard refines.\<close>

fun admit_run :: "emergency_guard_config \<Rightarrow> u64 list \<Rightarrow> u64 list \<Rightarrow> bool list" where
  "admit_run cfg acc [] = []"
| "admit_run cfg acc (t # ts) =
     (let ok = window_count cfg t acc < max_count cfg
      in ok # admit_run cfg (if ok then acc @ [t] else acc) ts)"

lemma push_run_admit:
  assumes "guard_tracks q cfg acc now" and "sorted (now # map snd ops)"
  shows "fst (push_run q ops) = admit_run cfg acc (map snd ops)"
  using assms
proof (induction ops arbitrary: q acc now)
  case (Cons op ops)
  obtain e t where op: "op = (e, t)" by (cases op)
  let ?acc = "if window_count cfg t acc < max_count cfg then acc @ [t] else acc"
  have tr: "guard_tracks q cfg acc t"
    using Cons.prems op guard_tracks_mono [of q cfg acc now t] by auto
  have "fst (push_run (snd (push_at q e Emergency t)) ops) = admit_run cfg ?acc (map snd ops)"
    using Cons.prems op by (intro Cons.IH [OF push_at_guarded(2) [OF tr]]) auto
  then show ?case
    using push_at_guarded(1) [OF tr, of e]
    by (cases "push_at q e Emergency t"; cases "push_run (snd (push_at q e Emergency t)) ops")
       (auto simp: op Let_def)
qed simp

lemma guard_tracks_restore:
  "guard_tracks q cfg acc now \<Longrightarrow> guard_tracks (restore_at q e Emergency t) cfg (acc @ [t]) now"
  by (auto simp: guard_tracks_def restore_at_def guard_record_def)

lemma guard_tracks_restore_run:
  "guard_tracks q cfg acc now \<Longrightarrow> guard_tracks (restore_run q ops) cfg (acc @ map snd ops) now"
proof (induction ops arbitrary: q acc)
  case (Cons op ops)
  obtain e t where op: "op = (e, t)" by (cases op)
  show ?case
    using Cons.IH [OF guard_tracks_restore [OF Cons.prems, of e t]] by (simp add: op)
qed simp

lemma admitted_snd: "map snd (admitted bs ops) = admitted bs (map snd ops)"
  by (induction bs ops rule: admitted.induct) auto

lemma length_admit_run [simp]: "length (admit_run cfg acc ts) = length ts"
  by (induction ts arbitrary: acc) (auto simp: Let_def)

lemma admit_run_append:
  "admit_run cfg acc (ts @ us) =
     admit_run cfg acc ts @ admit_run cfg (acc @ admitted (admit_run cfg acc ts) ts) us"
  by (induction ts arbitrary: acc) (auto simp: Let_def)

subsection \<open>The rate limit\<close>

definition in_window :: "u64 \<Rightarrow> u64 \<Rightarrow> u64 \<Rightarrow> bool" where
  "in_window w T t \<longleftrightarrow> t \<le> T \<and> u64_saturating_sub T t < w"

lemma in_window_earlier:
  "now \<le> T \<Longrightarrow> t \<le> now \<Longrightarrow> in_window w T t \<Longrightarrow> u64_saturating_sub now t < w"
  by (auto simp: in_window_def word_less_nat_alt word_le_nat_alt unat_u64_saturating_sub)

lemma length_filter_mono:
  "(\<And>x. x \<in> set xs \<Longrightarrow> P x \<Longrightarrow> Q x) \<Longrightarrow> length (filter P xs) \<le> length (filter Q xs)"
  by (induction xs) auto

lemma admit_run_bounded:
  assumes "sorted (acc @ ts)"
    and "\<forall>T. length (filter (in_window (as_secs (guard_window cfg)) T) acc) \<le> max_count cfg"
  shows "length (filter (in_window (as_secs (guard_window cfg)) T)
           (acc @ admitted (admit_run cfg acc ts) ts)) \<le> max_count cfg"
  using assms
proof (induction ts arbitrary: acc)
  case (Cons t ts)
  let ?w = "as_secs (guard_window cfg)"
  show ?case
  proof (cases "window_count cfg t acc < max_count cfg")
    case False
    then show ?thesis using Cons.IH [of acc] Cons.prems by (simp add: sorted_append)
  next
    case True
    have acc: "sorted acc" "\<forall>s \<in> set acc. s \<le> t"
      using Cons.prems(1) by (auto simp: sorted_append)
    have "length (filter (in_window ?w U) (acc @ [t])) \<le> max_count cfg" for U
    proof (cases "t \<le> U")
      case False
      then have "\<not> in_window ?w U t" by (simp add: in_window_def)
      then show ?thesis using Cons.prems(2) by simp
    next
      case tU: True
      have "length (filter (in_window ?w U) acc)
            \<le> length (filter (\<lambda>s. u64_saturating_sub t s < ?w) acc)"
        using acc(2) tU in_window_earlier by (intro length_filter_mono) blast
      also have "\<dots> = window_count cfg t acc"
        using acc(1) by (simp add: window_count_def prune_history_filter)
      finally show ?thesis using True by simp
    qed
    then show ?thesis
      using True Cons.IH [of "acc @ [t]"] Cons.prems(1) by (simp add: Let_def)
  qed
qed simp

section \<open>Properties\<close>

definition push_many ::
  "outbound_tx_queue \<Rightarrow> (transaction_envelope \<times> tx_priority \<times> u64) list \<Rightarrow> outbound_tx_queue" where
  "push_many q ops = foldl (\<lambda>q (e, p, t). snd (push_at q e p t)) q ops"

lemma push_many_inv: "queue_inv q \<Longrightarrow> queue_inv (push_many q ops)"
  by (induction ops arbitrary: q) (auto simp: push_many_def push_at_inv)

lemma push_many_unguarded:
  "emergency_guard_of q = None \<Longrightarrow>
   emergency_guard_of (push_many q ops) = None \<and>
   queue_contents (push_many q ops) = queue_contents q + mset (map (\<lambda>(e, p, t). entry_of e p t) ops)"
proof (induction ops arbitrary: q)
  case (Cons op ops)
  obtain e p t where op: "op = (e, p, t)" by (cases op)
  have "emergency_guard_of (snd (push_at q e p t)) = None"
    using Cons.prems by (simp add: push_at_unguarded)
  from Cons.IH [OF this] show ?case
    using Cons.prems by (simp add: op push_many_def push_at_unguarded heap_insert_contents)
qed (simp add: push_many_def)

text \<open>
  The outbound queue hands out everything that was pushed, each envelope once, in priority
  order: the higher tier first and, inside a tier, the earlier enqueue time first.
\<close>

theorem queue_drains_in_order:
  "\<exists>es. pop_all (length ops) (push_many queue_new ops) = map q_envelope es \<and>
     mset es = mset (map (\<lambda>(e, p, t). entry_of e p t) ops) \<and>
     sorted_wrt (\<lambda>a b. q_priority b < q_priority a \<or>
       q_priority a = q_priority b \<and> q_enqueued_at a \<le> q_enqueued_at b) es"
proof -
  let ?q = "push_many queue_new ops"
  have inv: "queue_inv ?q" by (simp add: push_many_inv)
  have c: "queue_contents ?q = mset (map (\<lambda>(e, p, t). entry_of e p t) ops)"
    using push_many_unguarded [of queue_new ops] by (simp add: queue_new_def queue_contents_def)
  then have "queue_len ?q = length ops" by (simp add: queue_len_contents)
  then have "mset (drain_entries (length ops) ?q) = queue_contents ?q"
    by (simp add: drain_entries_complete [OF inv])
  moreover have "sorted_wrt (\<lambda>a b. q_priority b < q_priority a \<or>
       q_priority a = q_priority b \<and> q_enqueued_at a \<le> q_enqueued_at b) (drain_entries (length ops) ?q)"
    using drain_entries_ordered [OF inv, of "length ops"]
    by (rule sorted_wrt_mono_rel [rotated]) (auto simp: queued_tx_le_def)
  ultimately show ?thesis
    by (intro exI [of _ "drain_entries (length ops) ?q"]) (simp add: pop_all_drain c)
qed

text \<open>
  C35. The Emergency rate limit: however many Emergency payments are pushed (at non-decreasing
  times), those admitted inside any rolling window never exceed the configured maximum; and a
  payment is refused only when the window is full.
\<close>

theorem emergency_rate_limit:
  "sorted (map snd ops) \<Longrightarrow>
     length (filter (in_window (as_secs (guard_window cfg)) T)
       (admitted (fst (push_run (with_emergency_guard cfg) ops)) (map snd ops))) \<le> max_count cfg \<and>
     fst (push_run (with_emergency_guard cfg) ops) = admit_run cfg [] (map snd ops)"
proof -
  assume s: "sorted (map snd ops)"
  have "fst (push_run (with_emergency_guard cfg) ops) = admit_run cfg [] (map snd ops)"
    by (rule push_run_admit [OF guard_tracks_new [of cfg 0]]) (use s in simp)
  then show ?thesis using admit_run_bounded [of "[]" "map snd ops" cfg T] s by simp
qed

theorem emergency_rate_limit_witness:
  "fst (push_run (with_emergency_guard \<lparr>max_count = 1, guard_window = from_secs 60\<rparr>)
       [(sample_envelope 1, 10), (sample_envelope 1, 20), (sample_envelope 1, 70)]) = [True, False, True]"
  using emergency_rate_limit [of "[(sample_envelope 1, 10), (sample_envelope 1, 20), (sample_envelope 1, 70)]" "\<lparr>max_count = 1, guard_window = from_secs 60\<rparr>"]
  by (simp add: window_count_def u64_saturating_sub_def)

text \<open>
  The limit survives a restart: a fresh queue into which the admitted payments have been
  restored decides every later push as the queue that was never restarted.
\<close>

theorem emergency_guard_restart:
  "sorted (map snd (before @ after)) \<Longrightarrow>
     fst (push_run (restore_run (with_emergency_guard cfg)
        (admitted (fst (push_run (with_emergency_guard cfg) before)) before)) after) =
     drop (length before) (fst (push_run (with_emergency_guard cfg) (before @ after)))"
proof -
  assume s: "sorted (map snd (before @ after))"
  let ?new = "with_emergency_guard cfg"
  have run: "fst (push_run ?new ops) = admit_run cfg [] (map snd ops)" if "sorted (map snd ops)" for ops
    by (rule push_run_admit [OF guard_tracks_new [of cfg 0]]) (use that in simp)
  let ?adm = "admitted (fst (push_run ?new before)) before"
  have "guard_tracks (restore_run ?new ?adm) cfg ([] @ map snd ?adm) 0"
    by (rule guard_tracks_restore_run [OF guard_tracks_new])
  then have "fst (push_run (restore_run ?new ?adm) after) = admit_run cfg (map snd ?adm) (map snd after)"
    by (intro push_run_admit [where now = 0]) (use s in \<open>auto simp: sorted_append\<close>)
  moreover have "map snd ?adm = admitted (admit_run cfg [] (map snd before)) (map snd before)"
    using s by (simp add: admitted_snd run sorted_append)
  moreover have "fst (push_run ?new (before @ after)) =
      admit_run cfg [] (map snd before) @
      admit_run cfg (admitted (admit_run cfg [] (map snd before)) (map snd before)) (map snd after)"
    using s by (simp add: run admit_run_append)
  ultimately show ?thesis by simp
qed

theorem emergency_guard_restart_witness:
  "fst (push_run (restore_run (with_emergency_guard \<lparr>max_count = 1, guard_window = from_secs 60\<rparr>)
        (admitted (fst (push_run (with_emergency_guard \<lparr>max_count = 1, guard_window = from_secs 60\<rparr>)
          [(sample_envelope 1, 10)])) [(sample_envelope 1, 10)])) [(sample_envelope 1, 20)]) = [False]"
  using emergency_guard_restart [of "[(sample_envelope 1, 10)]" "[(sample_envelope 1, 20)]" "\<lparr>max_count = 1, guard_window = from_secs 60\<rparr>"]
    push_run_admit [OF guard_tracks_new, of 0 "[(sample_envelope 1, 10), (sample_envelope 1, 20)]" "\<lparr>max_count = 1, guard_window = from_secs 60\<rparr>"]
  by (simp add: window_count_def u64_saturating_sub_def)

end
