(* ===== verification/Dispatch.thy ===== *)
theory Dispatch
  imports Errors
begin

text \<open>
  \<open>src/queue/dispatch.rs\<close>: the window of envelopes handed to a relay and not yet
  acknowledged.  The in-flight table is a hash map whose size is compared with the capacity,
  so it is an association list with distinct keys.
\<close>

definition DEFAULT_MAX_IN_FLIGHT :: usize where "DEFAULT_MAX_IN_FLIGHT = 8"

definition DEFAULT_TIMEOUT_SECS :: u64 where "DEFAULT_TIMEOUT_SECS = 120"

record dispatch_entry =
  dispatched_at :: u64

record dispatch_window =
  max_in_flight :: usize
  timeout_secs :: u64
  in_flight :: "(bytes32 \<times> dispatch_entry) list"

definition window_new :: "usize \<Rightarrow> u64 \<Rightarrow> dispatch_window result" where
  "window_new max_if timeout =
     (if max_if = 0 then
        Inl (InvalidDispatchWindow
          ''max_in_flight must be non-zero; a zero window can never dispatch'')
      else if timeout = 0 then
        Inl (InvalidDispatchWindow
          ''timeout_secs must be non-zero; a zero timeout disables backpressure by expiring every entry immediately'')
      else Inr \<lparr>max_in_flight = max_if, timeout_secs = timeout, in_flight = []\<rparr>)"

definition sweep_expired :: "dispatch_window \<Rightarrow> u64 \<Rightarrow> dispatch_window" where
  "sweep_expired w now =
     w\<lparr>in_flight := filter
         (\<lambda>(_, entry). u64_saturating_sub now (dispatched_at entry) < timeout_secs w) (in_flight w)\<rparr>"

definition try_acquire :: "dispatch_window \<Rightarrow> bytes32 \<Rightarrow> u64 \<Rightarrow> unit result \<times> dispatch_window" where
  "try_acquire w mid now =
     (let w' = sweep_expired w now
      in if map_of (in_flight w') mid \<noteq> None then (Inl DuplicateInFlight, w')
         else if max_in_flight w' \<le> length (in_flight w')
         then (Inl (BackpressureWindowFull (max_in_flight w')), w')
         else (Inr (), w'\<lparr>in_flight := AList.update mid \<lparr>dispatched_at = now\<rparr> (in_flight w')\<rparr>))"

definition acknowledge :: "dispatch_window \<Rightarrow> bytes32 \<Rightarrow> bool \<times> dispatch_window" where
  "acknowledge w mid =
     (map_of (in_flight w) mid \<noteq> None, w\<lparr>in_flight := AList.delete mid (in_flight w)\<rparr>)"

definition abandon :: "dispatch_window \<Rightarrow> bytes32 \<Rightarrow> bool \<times> dispatch_window" where
  "abandon w mid = acknowledge w mid"

definition release_expired :: "dispatch_window \<Rightarrow> u64 \<Rightarrow> usize \<times> dispatch_window" where
  "release_expired w now =
     (let w' = sweep_expired w now in (length (in_flight w) - length (in_flight w'), w'))"

definition in_flight_count :: "dispatch_window \<Rightarrow> u64 \<Rightarrow> usize \<times> dispatch_window" where
  "in_flight_count w now = (let w' = sweep_expired w now in (length (in_flight w'), w'))"

definition is_at_capacity :: "dispatch_window \<Rightarrow> u64 \<Rightarrow> bool \<times> dispatch_window" where
  "is_at_capacity w now =
     (case in_flight_count w now of (n, w') \<Rightarrow> (max_in_flight w' \<le> n, w'))"

text \<open>\<open>Default\<close> expects the validated constructor to succeed; \<open>None\<close> is its panic.\<close>

definition window_default :: "dispatch_window option" where
  "window_default =
     (case window_new DEFAULT_MAX_IN_FLIGHT DEFAULT_TIMEOUT_SECS of Inl _ \<Rightarrow> None | Inr w \<Rightarrow> Some w)"

lemma window_default_total: "window_default \<noteq> None"
  by (simp add: window_default_def window_new_def DEFAULT_MAX_IN_FLIGHT_def DEFAULT_TIMEOUT_SECS_def)

section \<open>Invariant\<close>

definition window_inv :: "dispatch_window \<Rightarrow> bool" where
  "window_inv w \<longleftrightarrow> 0 < max_in_flight w \<and> 0 < timeout_secs w \<and>
     distinct (map fst (in_flight w)) \<and> length (in_flight w) \<le> max_in_flight w"

text \<open>An entry is live at \<open>now\<close> when its timeout has not passed.\<close>

definition live :: "dispatch_window \<Rightarrow> u64 \<Rightarrow> bytes32 \<Rightarrow> bool" where
  "live w now mid \<longleftrightarrow>
     (case map_of (in_flight w) mid of None \<Rightarrow> False
      | Some e \<Rightarrow> u64_saturating_sub now (dispatched_at e) < timeout_secs w)"

lemma window_new_inv: "window_new m t = Inr w \<Longrightarrow> window_inv w"
  by (auto simp: window_new_def window_inv_def word_gt_0 split: if_splits)

lemma sweep_frame [simp]:
  "max_in_flight (sweep_expired w now) = max_in_flight w"
  "timeout_secs (sweep_expired w now) = timeout_secs w"
  by (simp_all add: sweep_expired_def)

lemma sweep_inv: "window_inv w \<Longrightarrow> window_inv (sweep_expired w now)"
  by (auto simp: window_inv_def sweep_expired_def distinct_keys_filter
      intro: le_trans [OF length_filter_le])

lemma map_of_sweep:
  "window_inv w \<Longrightarrow> map_of (in_flight (sweep_expired w now)) mid =
     (if live w now mid then map_of (in_flight w) mid else None)"
  by (simp add: window_inv_def sweep_expired_def live_def map_of_filter_keys split: option.splits)

lemma try_acquire_inv:
  assumes "window_inv w"
  shows "window_inv (snd (try_acquire w mid now))"
proof -
  let ?w = "sweep_expired w now"
  have inv: "window_inv ?w" by (rule sweep_inv [OF assms])
  have "length (AList.update mid e (in_flight ?w)) = Suc (length (in_flight ?w))"
    if "map_of (in_flight ?w) mid = None" for e :: dispatch_entry
    using that by (rule length_update_fresh)
  then show ?thesis
    using inv unfolding try_acquire_def Let_def window_inv_def
    by (simp add: distinct_update del: not_None_eq map_of_eq_None_iff)
qed

lemma acknowledge_inv: "window_inv w \<Longrightarrow> window_inv (snd (acknowledge w mid))"
  by (auto simp: acknowledge_def window_inv_def distinct_delete
      intro: le_trans [OF length_delete_le])

lemma live_acknowledge:
  "window_inv w \<Longrightarrow> live (snd (acknowledge w mid)) now k \<longleftrightarrow> k \<noteq> mid \<and> live w now k"
  by (simp add: acknowledge_def live_def delete_conv split: option.splits)

text \<open>The number of live entries is what the sweep leaves.\<close>

lemma length_sweep:
  assumes "window_inv w"
  shows "length (in_flight (sweep_expired w now)) = card {mid. live w now mid}"
proof -
  let ?s = "in_flight (sweep_expired w now)"
  have d: "distinct (map fst ?s)" using sweep_inv [OF assms] by (simp add: window_inv_def)
  have "card (dom (map_of ?s)) = length ?s"
    using distinct_card [OF d] by (simp add: dom_map_of_conv_image_fst)
  moreover have "dom (map_of ?s) = {mid. live w now mid}"
    using map_of_sweep [OF assms] by (auto simp: live_def split: option.splits if_splits)
  ultimately show ?thesis by simp
qed

lemma try_acquire_result:
  assumes "window_inv w"
  shows "fst (try_acquire w mid now) =
     (if live w now mid then Inl DuplicateInFlight
      else if max_in_flight w \<le> card {k. live w now k} then Inl (BackpressureWindowFull (max_in_flight w))
      else Inr ())"
  using assms
  by (auto simp: try_acquire_def Let_def map_of_sweep length_sweep live_def split: option.splits)

lemma live_try_acquire:
  assumes "window_inv w"
  shows "live (snd (try_acquire w mid now)) now k \<longleftrightarrow>
     live w now k \<or> (k = mid \<and> is_ok (fst (try_acquire w mid now)))"
proof -
  have "0 < timeout_secs w" using assms by (simp add: window_inv_def)
  then show ?thesis
    using assms map_of_sweep [OF assms]
    by (auto simp: try_acquire_def Let_def live_def update_conv u64_saturating_sub_def
        split: option.splits if_splits)
qed

section \<open>Sessions\<close>

text \<open>The calls an embedder makes on one window, in the order it makes them.\<close>

datatype window_call = TryAcquire bytes32 u64 | Acknowledge bytes32 | Abandon bytes32
  | ReleaseExpired u64 | InFlightCount u64 | IsAtCapacity u64

fun window_step :: "dispatch_window \<Rightarrow> window_call \<Rightarrow> dispatch_window" where
  "window_step w (TryAcquire mid now) = snd (try_acquire w mid now)"
| "window_step w (Acknowledge mid) = snd (acknowledge w mid)"
| "window_step w (Abandon mid) = snd (abandon w mid)"
| "window_step w (ReleaseExpired now) = snd (release_expired w now)"
| "window_step w (InFlightCount now) = snd (in_flight_count w now)"
| "window_step w (IsAtCapacity now) = snd (is_at_capacity w now)"

lemma window_step_inv: "window_inv w \<Longrightarrow> window_inv (window_step w c)"
  by (cases c)
    (auto simp: abandon_def release_expired_def in_flight_count_def is_at_capacity_def Let_def
      try_acquire_inv acknowledge_inv sweep_inv)

lemma window_step_max [simp]: "max_in_flight (window_step w c) = max_in_flight w"
  by (cases c)
    (auto simp: abandon_def acknowledge_def release_expired_def in_flight_count_def
      is_at_capacity_def try_acquire_def Let_def)

lemma window_run_inv:
  "window_inv w \<Longrightarrow> window_inv (fold (\<lambda>c w. window_step w c) cs w)"
  by (induction cs arbitrary: w) (auto simp: window_step_inv)

lemma window_run_max [simp]:
  "max_in_flight (fold (\<lambda>c w. window_step w c) cs w) = max_in_flight w"
  by (induction cs arbitrary: w) auto

text \<open>
  A relay session that dies reclaims every slot: once the timeout has passed for all entries
  the window is empty, and a fresh message is admitted.
\<close>

lemma dead_session_reclaimed:
  assumes "window_inv w"
    and "\<forall>(mid, e) \<in> set (in_flight w). timeout_secs w \<le> u64_saturating_sub now (dispatched_at e)"
  shows "in_flight (sweep_expired w now) = []" and "fst (try_acquire w k now) = Inr ()"
proof -
  show e: "in_flight (sweep_expired w now) = []"
    using assms(2) by (auto simp: sweep_expired_def filter_empty_conv)
  show "fst (try_acquire w k now) = Inr ()"
    using assms(1) by (simp add: try_acquire_def Let_def e window_inv_def)
qed

section \<open>Properties\<close>

text \<open>
  C36. Backpressure: through any sequence of calls a window never holds more entries than its
  capacity, nor two for one message, and the outcome of an acquisition is exact: a duplicate
  exactly while the message is live, a full window exactly when \<open>max_in_flight\<close> entries are live,
  otherwise admitted, after which the message is live.
\<close>

theorem dispatch_window_exact:
  "window_new m t = Inr w0 \<Longrightarrow> w = fold (\<lambda>c w. window_step w c) cs w0 \<Longrightarrow>
     length (in_flight w) \<le> m \<and> distinct (map fst (in_flight w)) \<and>
     fst (try_acquire w mid now) =
       (if live w now mid then Inl DuplicateInFlight
        else if m \<le> card {k. live w now k} then Inl (BackpressureWindowFull m)
        else Inr ()) \<and>
     (\<forall>k. live (snd (try_acquire w mid now)) now k \<longleftrightarrow>
        live w now k \<or> k = mid \<and> is_ok (fst (try_acquire w mid now)))"
proof -
  assume new: "window_new m t = Inr w0" and w: "w = fold (\<lambda>c w. window_step w c) cs w0"
  have inv: "window_inv w" unfolding w by (rule window_run_inv [OF window_new_inv [OF new]])
  have m: "max_in_flight w = m" using new by (auto simp: w window_new_def split: if_splits)
  show ?thesis
    using inv try_acquire_result [OF inv, of mid now] live_try_acquire [OF inv, of mid now]
    by (simp add: m window_inv_def)
qed

theorem dispatch_window_exact_witness:
  "\<exists>w0. window_new 8 120 = Inr w0 \<and>
     length (in_flight (fold (\<lambda>c w. window_step w c) [TryAcquire 1 0, Acknowledge 1, TryAcquire 2 5] w0)) \<le> 8"
proof -
  have new: "window_new 8 120 = Inr \<lparr>max_in_flight = 8, timeout_secs = 120, in_flight = []\<rparr>"
    by (simp add: window_new_def)
  show ?thesis
    by (rule exI, rule conjI, rule new, rule dispatch_window_exact [OF new refl, THEN conjunct1])
qed

text \<open>
  A relay session that dies without acknowledging anything does not block the window: once
  the timeout has passed for every entry, the next sweep empties the window and any message is
  admitted.
\<close>

theorem dead_session_reclaims_capacity:
  "window_inv w \<Longrightarrow>
   \<forall>(mid, e) \<in> set (in_flight w). timeout_secs w \<le> u64_saturating_sub now (dispatched_at e) \<Longrightarrow>
     fst (in_flight_count w now) = 0 \<and> fst (release_expired w now) = length (in_flight w) \<and>
     fst (try_acquire w k now) = Inr ()"
  using dead_session_reclaimed(1) [of w now] dead_session_reclaimed(2) [of w now k]
  by (simp add: in_flight_count_def release_expired_def Let_def)

theorem dead_session_reclaims_capacity_witness:
  "fst (try_acquire \<lparr>max_in_flight = 1, timeout_secs = 120,
      in_flight = [(7, \<lparr>dispatched_at = 1000\<rparr>)]\<rparr> 7 1120) = Inr ()"
  using dead_session_reclaims_capacity [of "\<lparr>max_in_flight = 1, timeout_secs = 120,
      in_flight = [(7, \<lparr>dispatched_at = 1000\<rparr>)]\<rparr>" 1120 7]
  by (simp add: window_inv_def u64_saturating_sub_def)

end
