(* ===== verification/Settlement.thy ===== *)
theory Settlement
  imports Core_Types
begin

text \<open>
  \<open>src/settlement/tracker.rs\<close> and \<open>src/settlement/invariants/mod.rs\<close>: the settlement status
  of an envelope, the in-memory tracker that admits only legal transitions, the runtime
  invariant checker, and the transition system of \<open>spec/settlement.tla\<close> that both implement.
\<close>

datatype settlement_status = Queued | Propagating | Settled | Failed | Disputed

fun as_str :: "settlement_status \<Rightarrow> string" where
  "as_str Queued = ''queued''"
| "as_str Propagating = ''propagating''"
| "as_str Settled = ''settled''"
| "as_str Failed = ''failed''"
| "as_str Disputed = ''disputed''"

definition can_transition_to :: "settlement_status \<Rightarrow> settlement_status \<Rightarrow> bool" where
  "can_transition_to self nxt =
     ((self, nxt) \<in> {(Queued, Propagating), (Queued, Failed),
        (Propagating, Settled), (Propagating, Failed), (Propagating, Disputed),
        (Disputed, Settled), (Disputed, Failed), (Failed, Propagating)})"

definition from_str :: "string \<Rightarrow> settlement_status result" where
  "from_str s =
     (if s = ''queued'' then Inr Queued
      else if s = ''propagating'' then Inr Propagating
      else if s = ''settled'' then Inr Settled
      else if s = ''failed'' then Inr Failed
      else if s = ''disputed'' then Inr Disputed
      else Inl (InvalidStateTransition s ''<unknown>''))"

lemma from_str_as_str [simp]: "from_str (as_str s) = Inr s"
  by (cases s) (simp_all add: from_str_def)

lemma from_str_Inr: "from_str t = Inr s \<longleftrightarrow> t = as_str s"
  by (cases s) (auto simp: from_str_def)

lemma as_str_inj [simp]: "as_str s = as_str t \<longleftrightarrow> s = t"
  by (cases s; cases t) auto

definition status_decode :: "string \<Rightarrow> settlement_status option" where
  "status_decode s = (case from_str s of Inl _ \<Rightarrow> None | Inr st \<Rightarrow> Some st)"

interpretation status_codec: codec as_str status_decode
  by unfold_locales (simp add: status_decode_def)

section \<open>The tracker\<close>

type_synonym settlement_tracker = "(bytes32 \<times> settlement_status) list"

definition tracker_new :: settlement_tracker where
  "tracker_new = []"

definition track :: "settlement_tracker \<Rightarrow> bytes32 \<Rightarrow> settlement_tracker" where
  "track t mid = AList.update mid Queued t"

definition restore :: "settlement_tracker \<Rightarrow> bytes32 \<Rightarrow> settlement_status \<Rightarrow> settlement_tracker" where
  "restore t mid status = AList.update mid status t"

definition status :: "settlement_tracker \<Rightarrow> bytes32 \<Rightarrow> settlement_status option" where
  "status t mid = map_of t mid"

definition transition ::
  "hex_encode \<Rightarrow> settlement_tracker \<Rightarrow> bytes32 \<Rightarrow> settlement_status \<Rightarrow> settlement_tracker result" where
  "transition hex t mid nxt =
     (case map_of t mid of
        None \<Rightarrow> Inl (EnvelopeNotFound (hex mid))
      | Some current \<Rightarrow>
          if \<not> can_transition_to current nxt
          then Inl (InvalidStateTransition (as_str current) (as_str nxt))
          else Inr (AList.update mid nxt t))"

definition get_all_entries :: "settlement_tracker \<Rightarrow> (bytes32 \<times> settlement_status) list" where
  "get_all_entries t = t"

section \<open>The runtime invariant checker\<close>

datatype invariant_violation =
    TerminalStateMutated bytes32 settlement_status settlement_status
  | StuckState bytes32 settlement_status "settlement_status list"
  | UnknownState bytes32 settlement_status
  | DuplicateEntry bytes32
  | UnreachableState bytes32 settlement_status "settlement_status list"

fun get_legal_transitions :: "settlement_status \<Rightarrow> settlement_status list" where
  "get_legal_transitions Queued = [Propagating, Failed]"
| "get_legal_transitions Propagating = [Settled, Failed, Disputed]"
| "get_legal_transitions Disputed = [Settled, Failed]"
| "get_legal_transitions Failed = [Propagating]"
| "get_legal_transitions Settled = []"

text \<open>The loop over the entries; \<open>seen\<close> is the set of ids met so far.\<close>

fun check_entries ::
  "bytes32 set \<Rightarrow> (bytes32 \<times> settlement_status) list \<Rightarrow> invariant_violation + unit" where
  "check_entries seen [] = Inr ()"
| "check_entries seen ((mid, st) # rest) =
     (if mid \<in> seen then Inl (DuplicateEntry mid)
      else if st = Settled then
        (case get_legal_transitions st of
           next0 # _ \<Rightarrow> Inl (TerminalStateMutated mid st next0)
         | [] \<Rightarrow> check_entries (insert mid seen) rest)
      else if get_legal_transitions st = [] then Inl (StuckState mid st [])
      else if st = Disputed \<and> st \<notin> set (get_legal_transitions Propagating)
      then Inl (UnreachableState mid st [])
      else check_entries (insert mid seen) rest)"

definition check_invariants :: "settlement_tracker \<Rightarrow> invariant_violation + unit" where
  "check_invariants t = check_entries {} (get_all_entries t)"

section \<open>Transitions\<close>

lemma legal_transitions_iff: "nxt \<in> set (get_legal_transitions s) \<longleftrightarrow> can_transition_to s nxt"
  by (cases s; cases nxt) (simp_all add: can_transition_to_def)

lemma settled_terminal [simp]: "\<not> can_transition_to Settled s"
  by (simp add: can_transition_to_def)

lemma to_disputed: "can_transition_to s Disputed \<longleftrightarrow> s = Propagating"
  by (cases s) (auto simp: can_transition_to_def)

lemma to_queued [simp]: "\<not> can_transition_to s Queued"
  by (simp add: can_transition_to_def)

definition tracker_inv :: "settlement_tracker \<Rightarrow> bool" where
  "tracker_inv t \<longleftrightarrow> distinct (map fst t)"

lemma tracker_inv_ops [simp]:
  "tracker_inv tracker_new" "tracker_inv t \<Longrightarrow> tracker_inv (track t mid)"
  "tracker_inv t \<Longrightarrow> tracker_inv (restore t mid s)"
  by (simp_all add: tracker_inv_def tracker_new_def track_def restore_def distinct_update)

lemma status_ops [table_simps]:
  "status tracker_new k = None"
  "status (track t mid) k = (if k = mid then Some Queued else status t k)"
  "status (restore t mid s) k = (if k = mid then Some s else status t k)"
  by (simp_all add: status_def tracker_new_def track_def restore_def update_conv)

lemma transition_Inr:
  "transition hex t mid nxt = Inr t' \<longleftrightarrow>
     (\<exists>s. status t mid = Some s \<and> can_transition_to s nxt \<and> t' = restore t mid nxt)"
  by (auto simp: transition_def status_def restore_def split: option.splits)

lemma check_entries_ok:
  "distinct (map fst es) \<Longrightarrow> fst ` set es \<inter> seen = {} \<Longrightarrow> check_entries seen es = Inr ()"
proof (induction es arbitrary: seen)
  case (Cons e es)
  obtain mid st where e: "e = (mid, st)" by (cases e)
  have "check_entries (insert mid seen) es = Inr ()"
    using Cons.prems e by (intro Cons.IH) auto
  then show ?case using Cons.prems e by (cases st) auto
qed simp

section \<open>Runs of the tracker\<close>

text \<open>
  One envelope's life in the tracker: tracked once, then transitions, each of which the tracker
  may reject.  \<open>history\<close> lists the statuses it went through, the latest first.
\<close>

inductive tracker_run :: "hex_encode \<Rightarrow> bytes32 \<Rightarrow> settlement_tracker \<Rightarrow> settlement_status list \<Rightarrow> bool"
  for hex :: hex_encode and mid :: bytes32 where
  tracked: "tracker_inv t \<Longrightarrow> status t mid = None \<Longrightarrow> tracker_run hex mid (track t mid) [Queued]"
| moved: "tracker_run hex mid t h \<Longrightarrow> transition hex t mid nxt = Inr t' \<Longrightarrow>
     tracker_run hex mid t' (nxt # h)"
| other: "tracker_run hex mid t h \<Longrightarrow> k \<noteq> mid \<Longrightarrow> transition hex t k nxt = Inr t' \<Longrightarrow>
     tracker_run hex mid t' h"
| other_tracked: "tracker_run hex mid t h \<Longrightarrow> k \<noteq> mid \<Longrightarrow> tracker_run hex mid (track t k) h"

inductive_cases tracker_run_NilE: "tracker_run hex mid t []"

text \<open>A path of the transition graph, latest status first.\<close>

fun legal_path :: "settlement_status list \<Rightarrow> bool" where
  "legal_path [] = False"
| "legal_path [s] = (s = Queued)"
| "legal_path (s # r # h) = (can_transition_to r s \<and> legal_path (r # h))"

lemma tracker_run_legal:
  "tracker_run hex mid t h \<Longrightarrow> legal_path h \<and> status t mid = Some (hd h) \<and> tracker_inv t"
proof (induction rule: tracker_run.induct)
  case (moved t h nxt t')
  then obtain s h' where "h = s # h'" by (cases h) auto
  with moved show ?case by (auto simp: transition_Inr table_simps)
next
  case (other t h k nxt t')
  then show ?case by (auto simp: transition_Inr table_simps)
qed (auto simp: table_simps)

text \<open>In a legal path nothing follows \<open>Settled\<close> and \<open>Disputed\<close> always follows \<open>Propagating\<close>.\<close>

lemma legal_path_settled: "legal_path h \<Longrightarrow> Settled \<in> set h \<Longrightarrow> hd h = Settled"
  by (induction h rule: legal_path.induct) auto

lemma legal_path_disputed: "legal_path (xs @ Disputed # ys) \<Longrightarrow> \<exists>zs. ys = Propagating # zs"
proof (induction xs)
  case Nil
  then show ?case by (cases ys) (auto simp: to_disputed)
next
  case (Cons x xs)
  then show ?case by (cases xs) auto
qed

lemma legal_path_queued: "legal_path h \<Longrightarrow> \<exists>h'. h = h' @ [Queued] \<and> Queued \<notin> set h'"
proof (induction h rule: legal_path.induct)
  case (3 s r h)
  then obtain h' where "r # h = h' @ [Queued]" "Queued \<notin> set h'" by auto
  moreover have "s \<noteq> Queued" using 3 by auto
  ultimately show ?case by (intro exI [of _ "s # h'"]) auto
qed auto

section \<open>The TLA+ specification\<close>

text \<open>
  \<open>spec/settlement.tla\<close>: \<open>LegalTransitions\<close> as a function to sets, the four invariants, and
  the step \<open>Next\<close>.
\<close>

definition TLA_LegalTransitions :: "settlement_status \<Rightarrow> settlement_status set" where
  "TLA_LegalTransitions s =
     (case s of
        Queued \<Rightarrow> {Propagating, Failed}
      | Propagating \<Rightarrow> {Settled, Failed, Disputed}
      | Disputed \<Rightarrow> {Settled, Failed}
      | Failed \<Rightarrow> {Propagating}
      | Settled \<Rightarrow> {})"

definition TLA_Invariants :: bool where
  "TLA_Invariants \<longleftrightarrow>
     (\<forall>nxt. nxt \<notin> TLA_LegalTransitions Settled) \<and>
     (\<forall>s. s \<noteq> Settled \<longrightarrow> TLA_LegalTransitions s \<noteq> {}) \<and>
     (\<forall>s. Disputed \<in> TLA_LegalTransitions s \<longrightarrow> s = Propagating)"

lemma TLA_LegalTransitions_eq: "TLA_LegalTransitions s = {nxt. can_transition_to s nxt}"
  by (cases s) (auto simp: TLA_LegalTransitions_def can_transition_to_def)

lemma TLA_Invariants_hold: TLA_Invariants
  unfolding TLA_Invariants_def
proof (intro conjI allI impI)
  fix s :: settlement_status
  assume "s \<noteq> Settled"
  then show "TLA_LegalTransitions s \<noteq> {}" by (cases s) (simp_all add: TLA_LegalTransitions_def)
qed (simp_all add: TLA_LegalTransitions_eq to_disputed)

section \<open>Properties\<close>





end
