(* ===== verification/Spendable.thy ===== *)
theory Spendable
  imports Settlement Priority
begin

text \<open>
  \<open>src/queue/spendable.rs\<close>: how much of an account's last-known balance is left once the
  payments still in flight are set aside.
\<close>

record queued_envelope_record =
  rec_envelope :: transaction_envelope
  rec_source_account :: string
  rec_sequence :: i64
  rec_priority :: tx_priority
  rec_enqueued_at :: u64

record queued_envelope_spend =
  spend_record :: queued_envelope_record
  spend_amount :: i64
  spend_status :: settlement_status

definition spend_new ::
  "queued_envelope_record \<Rightarrow> i64 \<Rightarrow> settlement_status \<Rightarrow> queued_envelope_spend" where
  "spend_new r amount st = \<lparr>spend_record = r, spend_amount = amount, spend_status = st\<rparr>"

definition reserves :: "string \<Rightarrow> queued_envelope_spend \<Rightarrow> bool" where
  "reserves account s \<longleftrightarrow>
     rec_source_account (spend_record s) = account \<and>
     spend_status s \<in> {Queued, Propagating, Disputed} \<and>
     0 \<le> sint (spend_amount s)"

definition estimate_spendable :: "string \<Rightarrow> i64 \<Rightarrow> queued_envelope_spend list \<Rightarrow> i64" where
  "estimate_spendable account known_balance queued =
     (let reserved = foldl (\<lambda>total s. i64_saturating_add total (spend_amount s)) 0
            (filter (reserves account) queued)
      in i64_saturating_sub known_balance reserved)"

section \<open>The amount set aside\<close>

definition reserved_sum :: "string \<Rightarrow> queued_envelope_spend list \<Rightarrow> int" where
  "reserved_sum account queued = (\<Sum>s \<leftarrow> filter (reserves account) queued. sint (spend_amount s))"

lemma reserved_sum_nonneg: "0 \<le> reserved_sum account queued"
  unfolding reserved_sum_def by (rule sum_list_nonneg) (auto simp: reserves_def)

text \<open>Saturating steps over non-negative amounts give the sum, cut off at the top once.\<close>

lemma saturating_fold:
  assumes "\<forall>s \<in> set xs. 0 \<le> sint (spend_amount s)" and "0 \<le> sint a"
  shows "sint (foldl (\<lambda>total s. i64_saturating_add total (spend_amount s)) a xs) =
     min i64_max (sint a + (\<Sum>s \<leftarrow> xs. sint (spend_amount s)))"
  using assms
proof (induction xs arbitrary: a)
  case Nil
  then show ?case using sint_i64_le [of a] by simp
next
  case (Cons s xs)
  let ?b = "i64_saturating_add a (spend_amount s)"
  have b: "sint ?b = min i64_max (sint a + sint (spend_amount s))"
    using Cons.prems by (simp add: sint_i64_saturating_add)
  have "0 \<le> (\<Sum>s \<leftarrow> xs. sint (spend_amount s))"
    using Cons.prems by (intro sum_list_nonneg) auto
  moreover have "0 \<le> sint ?b" using Cons.prems b by simp
  ultimately show ?case
    using Cons.IH [of ?b] Cons.prems b by simp
qed

lemma sint_estimate:
  "sint (estimate_spendable account known_balance queued) =
     max i64_min (sint known_balance - min i64_max (reserved_sum account queued))"
proof -
  have "sint (foldl (\<lambda>total s. i64_saturating_add total (spend_amount s)) 0
           (filter (reserves account) queued)) = min i64_max (reserved_sum account queued)"
    by (subst saturating_fold) (auto simp: reserves_def reserved_sum_def)
  moreover have "sint known_balance - min i64_max (reserved_sum account queued) \<le> i64_max"
    using sint_i64_le [of known_balance] reserved_sum_nonneg [of account queued] by linarith
  ultimately show ?thesis
    by (simp add: estimate_spendable_def sint_i64_saturating_sub)
qed

lemma reserved_sum_append:
  "reserved_sum account (xs @ ys) = reserved_sum account xs + reserved_sum account ys"
  by (simp add: reserved_sum_def)

section \<open>Properties\<close>

text \<open>
  The spendable estimate is the known balance minus the non-negative amounts of the
  account's own payments still in flight, computed without overflow: it never exceeds the known
  balance, it does not depend on the order of the queue, and one more payment in flight
  lowers it by its amount while the totals stay in range.
\<close>

theorem estimate_spendable_exact:
  "sint (estimate_spendable account known_balance queued) =
     max i64_min (sint known_balance - min i64_max (reserved_sum account queued)) \<and>
   sint (estimate_spendable account known_balance queued) \<le> sint known_balance \<and>
   (mset queued = mset queued' \<longrightarrow>
      estimate_spendable account known_balance queued = estimate_spendable account known_balance queued') \<and>
   (reserves account s \<and> reserved_sum account (s # queued) \<le> i64_max \<and> 0 \<le> sint known_balance \<longrightarrow>
      sint (estimate_spendable account known_balance (s # queued)) =
      sint (estimate_spendable account known_balance queued) - sint (spend_amount s))"
proof (intro conjI impI)
  show "sint (estimate_spendable account known_balance queued) \<le> sint known_balance"
    using reserved_sum_nonneg [of account queued] sint_i64_ge [of known_balance]
    by (simp add: sint_estimate)
  show "estimate_spendable account known_balance queued = estimate_spendable account known_balance queued'"
    if "mset queued = mset queued'"
  proof -
    have "mset (map (\<lambda>s. sint (spend_amount s)) (filter (reserves account) queued)) =
        mset (map (\<lambda>s. sint (spend_amount s)) (filter (reserves account) queued'))"
      using that by simp
    then have "reserved_sum account queued = reserved_sum account queued'"
      unfolding reserved_sum_def by (metis sum_mset_sum_list)
    then show ?thesis by (simp add: sint_estimate flip: sint_i64_eq_iff)
  qed
  assume h: "reserves account s \<and> reserved_sum account (s # queued) \<le> i64_max \<and> 0 \<le> sint known_balance"
  have "reserved_sum account (s # queued) = sint (spend_amount s) + reserved_sum account queued"
    using h by (simp add: reserved_sum_def)
  moreover have "0 \<le> sint (spend_amount s)" using h by (simp add: reserves_def)
  ultimately show "sint (estimate_spendable account known_balance (s # queued)) =
      sint (estimate_spendable account known_balance queued) - sint (spend_amount s)"
    using h reserved_sum_nonneg [of account queued] by (simp add: sint_estimate)
qed (rule sint_estimate)

theorem estimate_spendable_exact_witness:
  "sint (estimate_spendable ''A'' 100
     [spend_new \<lparr>rec_envelope = sample_envelope 1, rec_source_account = ''A'', rec_sequence = 5,
        rec_priority = Normal, rec_enqueued_at = 0\<rparr> 30 Queued,
      spend_new \<lparr>rec_envelope = sample_envelope 2, rec_source_account = ''A'', rec_sequence = 6,
        rec_priority = Normal, rec_enqueued_at = 0\<rparr> 50 Settled]) = 70"
  using estimate_spendable_exact [THEN conjunct1, of "''A''" 100
    "[spend_new \<lparr>rec_envelope = sample_envelope 1, rec_source_account = ''A'', rec_sequence = 5,
        rec_priority = Normal, rec_enqueued_at = 0\<rparr> 30 Queued,
      spend_new \<lparr>rec_envelope = sample_envelope 2, rec_source_account = ''A'', rec_sequence = 6,
        rec_priority = Normal, rec_enqueued_at = 0\<rparr> 50 Settled]"]
  by (simp add: reserved_sum_def reserves_def spend_new_def)

end
