(* ===== verification/Envelope.thy ===== *)
theory Envelope
  imports Core_Types Sequence
begin

text \<open>
  \<open>src/envelope/xdr.rs\<close>, \<open>pq.rs\<close> and \<open>builder.rs\<close>: reading the true source account and sequence
  out of the transaction, building and signing an envelope around a sequence reservation,
  resequencing, the optional post-quantum signature, and multisig coordination.

  What the third-party crates do is collected in one record of functions, a parameter \<open>X\<close> of
  every definition that calls them: the XDR and strkey codecs, ed25519, SHA-256, Dilithium, and
  the envelope builder of \<open>stellarconduit-core\<close> (which also reads the clock, its first
  argument).
\<close>

section \<open>Third-party functions\<close>

text \<open>
  A Stellar transaction as the XDR crate parses it, with the fields this crate reads or writes;
  everything else (fee, memo, operations, signatures) is kept as opaque bytes.
\<close>

datatype muxed_account = Ed25519 bytes32 | MuxedEd25519 u64 bytes32

record stellar_tx =
  source_account :: muxed_account
  seq_num :: i64
  tx_rest :: bytes

record stellar_tx_v0 =
  source_account_ed25519 :: bytes32
  v0_seq_num :: i64
  v0_rest :: bytes

datatype xdr_envelope =
    Tx stellar_tx bytes
  | TxFeeBump bytes stellar_tx bytes
  | TxV0 stellar_tx_v0 bytes

type_synonym signing_key = bytes32
type_synonym signature = "512 word"
type_synonym pq_public_key = bytes
type_synonym pq_secret_key = bytes
type_synonym pq_signature = bytes

record third_party =
  from_xdr_base64 :: "string \<Rightarrow> string + xdr_envelope"
  to_xdr_base64 :: "xdr_envelope \<Rightarrow> string + string"
  ed25519_strkey :: "bytes32 \<Rightarrow> string"
  verifying_key :: "signing_key \<Rightarrow> bytes32"
  ed25519_sign :: "signing_key \<Rightarrow> bytes32 \<Rightarrow> signature"
  sha256 :: "bytes \<Rightarrow> bytes32"
  seal :: "u64 \<Rightarrow> signing_key \<Rightarrow> bytes32 \<Rightarrow> string \<Rightarrow> u8 \<Rightarrow> transaction_envelope"
  pq_sign :: "bytes \<Rightarrow> pq_secret_key \<Rightarrow> pq_signature"
  pq_key_bytes :: "pq_public_key \<Rightarrow> bytes"
  pq_sig_bytes :: "pq_signature \<Rightarrow> bytes"
  pq_key_from_bytes :: "bytes \<Rightarrow> pq_public_key option"
  pq_sig_from_bytes :: "bytes \<Rightarrow> pq_signature option"
  pq_verify :: "pq_signature \<Rightarrow> bytes \<Rightarrow> pq_public_key \<Rightarrow> bool"

section \<open>Reading the transaction\<close>

definition ed25519_to_strkey :: "third_party \<Rightarrow> bytes32 \<Rightarrow> string" where
  "ed25519_to_strkey X key = ed25519_strkey X key"

definition muxed_source_strkey :: "third_party \<Rightarrow> muxed_account \<Rightarrow> string" where
  "muxed_source_strkey X account =
     (let key = (case account of Ed25519 key \<Rightarrow> key | MuxedEd25519 _ key \<Rightarrow> key)
      in ed25519_to_strkey X key)"

definition extract_source_account_and_sequence ::
  "third_party \<Rightarrow> string \<Rightarrow> (string \<times> i64) result" where
  "extract_source_account_and_sequence X xdr =
     (case from_xdr_base64 X xdr of
        Inl e \<Rightarrow> Inl (XdrParse e)
      | Inr envelope \<Rightarrow> Inr
          (case envelope of
             Tx tx _ \<Rightarrow> (muxed_source_strkey X (source_account tx), seq_num tx)
           | TxFeeBump _ inner _ \<Rightarrow> (muxed_source_strkey X (source_account inner), seq_num inner)
           | TxV0 tx _ \<Rightarrow> (ed25519_to_strkey X (source_account_ed25519 tx), v0_seq_num tx)))"

definition update_sequence :: "i64 \<Rightarrow> xdr_envelope \<Rightarrow> xdr_envelope" where
  "update_sequence new_sequence envelope =
     (case envelope of
        Tx tx sigs \<Rightarrow> Tx (tx\<lparr>seq_num := new_sequence\<rparr>) sigs
      | TxFeeBump outer inner sigs \<Rightarrow> TxFeeBump outer (inner\<lparr>seq_num := new_sequence\<rparr>) sigs
      | TxV0 tx sigs \<Rightarrow> TxV0 (tx\<lparr>v0_seq_num := new_sequence\<rparr>) sigs)"

definition with_updated_sequence :: "third_party \<Rightarrow> string \<Rightarrow> i64 \<Rightarrow> string result" where
  "with_updated_sequence X xdr new_sequence =
     (case from_xdr_base64 X xdr of
        Inl e \<Rightarrow> Inl (XdrParse e)
      | Inr envelope \<Rightarrow>
          (case to_xdr_base64 X (update_sequence new_sequence envelope) of
             Inl e \<Rightarrow> Inl (XdrParse e)
           | Inr s \<Rightarrow> Inr s))"

section \<open>Post-quantum signatures\<close>

datatype signing_policy = ClassicalOnly | Hybrid pq_public_key pq_secret_key

record hybrid_signed_envelope =
  classical_envelope :: transaction_envelope
  hyb_pq_signature :: "bytes option"
  hyb_pq_public_key :: "bytes option"

definition canonical_payload :: "hybrid_signed_envelope \<Rightarrow> bytes" where
  "canonical_payload h =
     to_vec (origin_pubkey (classical_envelope h)) @ as_bytes (tx_xdr (classical_envelope h))"

definition verify_pq :: "third_party \<Rightarrow> hybrid_signed_envelope \<Rightarrow> unit result" where
  "verify_pq X h =
     (case (hyb_pq_signature h, hyb_pq_public_key h) of
        (Some sig_bytes, Some pk_bytes) \<Rightarrow>
          (case pq_key_from_bytes X pk_bytes of
             None \<Rightarrow> Inl PqVerificationFailed
           | Some public_key \<Rightarrow>
               (case pq_sig_from_bytes X sig_bytes of
                  None \<Rightarrow> Inl PqVerificationFailed
                | Some sig \<Rightarrow>
                    if pq_verify X sig (canonical_payload h) public_key then Inr ()
                    else Inl PqVerificationFailed))
      | _ \<Rightarrow> Inr ())"

text \<open>The signing step the three constructors of hybrid envelopes share.\<close>

definition sign_hybrid ::
  "third_party \<Rightarrow> signing_policy \<Rightarrow> transaction_envelope \<Rightarrow> hybrid_signed_envelope" where
  "sign_hybrid X policy envelope =
     (let h = \<lparr>classical_envelope = envelope, hyb_pq_signature = None, hyb_pq_public_key = None\<rparr>
      in case policy of
           ClassicalOnly \<Rightarrow> h
         | Hybrid pq_pk pq_sk \<Rightarrow>
             let pq_sig = pq_sign X (canonical_payload h) pq_sk
             in h\<lparr>hyb_pq_signature := Some (pq_sig_bytes X pq_sig),
                  hyb_pq_public_key := Some (pq_key_bytes X pq_pk)\<rparr>)"

section \<open>Building and signing\<close>

definition build_and_sign ::
  "third_party \<Rightarrow> u64 \<Rightarrow> sequence_reservation_manager \<Rightarrow> string \<Rightarrow> signing_key \<Rightarrow> signing_policy
     \<Rightarrow> string \<Rightarrow> u8 \<Rightarrow> (hybrid_signed_envelope \<times> i64) result \<times> sequence_reservation_manager" where
  "build_and_sign X now sequences account key policy xdr ttl =
     (case extract_source_account_and_sequence X xdr of
        Inl e \<Rightarrow> (Inl e, sequences)
      | Inr (xdr_account, xdr_sequence) \<Rightarrow>
          if account \<noteq> xdr_account then (Inl (SourceAccountMismatch account xdr_account), sequences)
          else
            (case reserve_next sequences xdr_account of
               Inl e \<Rightarrow> (Inl e, sequences)
             | Inr (reserved, sequences1) \<Rightarrow>
                 if reserved \<noteq> xdr_sequence then
                   (Inl (SequenceMismatch xdr_account reserved xdr_sequence),
                    case release sequences1 xdr_account reserved of
                      Inl _ \<Rightarrow> sequences1
                    | Inr sequences2 \<Rightarrow> sequences2)
                 else
                   (Inr (sign_hybrid X policy (seal X now key (verifying_key X key) xdr ttl), xdr_sequence),
                    sequences1)))"

definition resequence_and_resign ::
  "third_party \<Rightarrow> u64 \<Rightarrow> transaction_envelope \<Rightarrow> i64 \<Rightarrow> signing_key \<Rightarrow> signing_policy
     \<Rightarrow> hybrid_signed_envelope result" where
  "resequence_and_resign X now old_envelope new_sequence key policy =
     (case with_updated_sequence X (tx_xdr old_envelope) new_sequence of
        Inl e \<Rightarrow> Inl e
      | Inr new_tx_xdr \<Rightarrow>
          Inr (sign_hybrid X policy
                 (seal X now key (verifying_key X key) new_tx_xdr (ttl_hops old_envelope))))"

section \<open>Multisig coordination\<close>

definition multisig_payload_hash :: "third_party \<Rightarrow> string \<Rightarrow> i64 \<Rightarrow> string \<Rightarrow> bytes32" where
  "multisig_payload_hash X account sequence xdr =
     sha256 X (as_bytes account @ u64_le_bytes sequence @ as_bytes xdr)"

record partially_signed_envelope =
  pse_source_account :: string
  pse_sequence :: i64
  pse_tx_xdr :: string
  contributions :: "(bytes32 \<times> signature) list"

definition partial_new :: "string \<Rightarrow> i64 \<Rightarrow> string \<Rightarrow> partially_signed_envelope" where
  "partial_new account sequence xdr =
     \<lparr>pse_source_account = account, pse_sequence = sequence, pse_tx_xdr = xdr, contributions = []\<rparr>"

definition contributor_count :: "partially_signed_envelope \<Rightarrow> usize" where
  "contributor_count p = length (contributions p)"

text \<open>The sum of \<open>u32\<close> weights wraps.\<close>

definition accumulated_weight ::
  "partially_signed_envelope \<Rightarrow> multisig_account_registry \<Rightarrow> u32" where
  "accumulated_weight p registry =
     sum_list (List.map_filter (\<lambda>(pubkey, _). signer_weight registry (pse_source_account p) pubkey)
       (contributions p))"

definition meets_threshold :: "partially_signed_envelope \<Rightarrow> multisig_account_registry \<Rightarrow> bool" where
  "meets_threshold p registry =
     (case threshold registry (pse_source_account p) of
        None \<Rightarrow> False
      | Some required \<Rightarrow> required \<le> accumulated_weight p registry)"

definition add_signature ::
  "third_party \<Rightarrow> partially_signed_envelope \<Rightarrow> multisig_account_registry \<Rightarrow> signing_key
     \<Rightarrow> unit result \<times> partially_signed_envelope" where
  "add_signature X p registry key =
     (let pubkey = verifying_key X key
      in if \<not> is_known_signer registry (pse_source_account p) pubkey
         then (Inl (UnknownMultisigSigner (pse_source_account p)), p)
         else
           let hash = multisig_payload_hash X (pse_source_account p) (pse_sequence p) (pse_tx_xdr p);
               sig = ed25519_sign X key hash
           in (Inr (), p\<lparr>contributions := AList.update pubkey sig (contributions p)\<rparr>))"

definition try_promote ::
  "third_party \<Rightarrow> u64 \<Rightarrow> partially_signed_envelope \<Rightarrow> multisig_account_registry \<Rightarrow> signing_key
     \<Rightarrow> signing_policy \<Rightarrow> u8 \<Rightarrow> hybrid_signed_envelope result" where
  "try_promote X now p registry mesh_key policy ttl =
     (if \<not> meets_threshold p registry then
        Inl (MultisigThresholdNotMet (pse_source_account p) (accumulated_weight p registry)
          (case threshold registry (pse_source_account p) of None \<Rightarrow> 0 | Some t \<Rightarrow> t))
      else Inr (sign_hybrid X policy (seal X now mesh_key (verifying_key X mesh_key) (pse_tx_xdr p) ttl)))"

section \<open>Facts\<close>

lemma build_and_sign_Inr:
  "build_and_sign X now m account key policy xdr ttl = (Inr (h, s), m') \<longleftrightarrow>
     extract_source_account_and_sequence X xdr = Inr (account, s) \<and>
     reserve_next m account = Inr (s, m') \<and>
     h = sign_hybrid X policy (seal X now key (verifying_key X key) xdr ttl)"
  by (auto simp: build_and_sign_def split: sum.splits prod.splits if_splits)

lemma build_and_sign_Inl:
  assumes "build_and_sign X now m account key policy xdr ttl = (Inl e, m')"
  shows "m' = m"
proof (cases "extract_source_account_and_sequence X xdr")
  case (Inr p)
  obtain xa xs where p: "p = (xa, xs)" by (cases p)
  show ?thesis
  proof (cases "reserve_next m xa")
    case (Inr q)
    obtain r m1 where "q = (r, m1)" by (cases q)
    then show ?thesis
      using assms Inr \<open>extract_source_account_and_sequence X xdr = Inr p\<close> p release_reserve_next [of m xa r m1]
      by (auto simp: build_and_sign_def split: if_splits)
  qed (use assms \<open>extract_source_account_and_sequence X xdr = Inr p\<close> p in
        \<open>auto simp: build_and_sign_def split: if_splits\<close>)
qed (use assms in \<open>simp add: build_and_sign_def\<close>)

lemma classical_sign_hybrid [simp]: "classical_envelope (sign_hybrid X policy e) = e"
  by (auto simp: sign_hybrid_def Let_def split: signing_policy.splits)

lemma canonical_payload_sign_hybrid [simp]:
  "canonical_payload (sign_hybrid X policy e) = to_vec (origin_pubkey e) @ as_bytes (tx_xdr e)"
  by (simp add: canonical_payload_def)

text \<open>The contributions after a run of \<open>add_signature\<close> calls.\<close>

fun add_signatures ::
  "third_party \<Rightarrow> multisig_account_registry \<Rightarrow> partially_signed_envelope \<Rightarrow> signing_key list
     \<Rightarrow> partially_signed_envelope" where
  "add_signatures X registry p [] = p"
| "add_signatures X registry p (k # ks) = add_signatures X registry (snd (add_signature X p registry k)) ks"

lemma add_signatures_frame [simp]:
  "pse_source_account (add_signatures X registry p ks) = pse_source_account p"
  "pse_tx_xdr (add_signatures X registry p ks) = pse_tx_xdr p"
  by (induction ks arbitrary: p) (auto simp: add_signature_def Let_def)

lemma add_signatures_keys:
  "fst ` set (contributions (add_signatures X registry p ks)) =
     fst ` set (contributions p) \<union>
     {k \<in> verifying_key X ` set ks. is_known_signer registry (pse_source_account p) k}"
proof (induction ks arbitrary: p)
  case (Cons k ks)
  have "pse_source_account (snd (add_signature X p registry k)) = pse_source_account p"
    by (simp add: add_signature_def Let_def)
  moreover have "fst ` set (contributions (snd (add_signature X p registry k))) =
      fst ` set (contributions p) \<union>
      (if is_known_signer registry (pse_source_account p) (verifying_key X k)
       then {verifying_key X k} else {})"
    by (auto simp: add_signature_def Let_def dom_update simp flip: dom_map_of_conv_image_fst)
       (auto simp: update_conv' split: if_splits)
  ultimately show ?case using Cons.IH [of "snd (add_signature X p registry k)"] by auto
qed simp

lemma add_signatures_distinct:
  "distinct (map fst (contributions p)) \<Longrightarrow>
   distinct (map fst (contributions (add_signatures X registry p ks)))"
proof (induction ks arbitrary: p)
  case (Cons k ks)
  have "distinct (map fst (contributions (snd (add_signature X p registry k))))"
    using Cons.prems by (simp add: add_signature_def Let_def distinct_update)
  from Cons.IH [OF this] show ?case by simp
qed simp

lemma accumulated_weight_sum:
  assumes "distinct (map fst (contributions p))"
    and "\<forall>k \<in> fst ` set (contributions p). is_known_signer registry (pse_source_account p) k"
  shows "accumulated_weight p registry =
     (\<Sum>k \<in> fst ` set (contributions p). the (signer_weight registry (pse_source_account p) k))"
proof -
  let ?w = "\<lambda>k. signer_weight registry (pse_source_account p) k"
  have "List.map_filter (\<lambda>(k, _). ?w k) cs = map (\<lambda>k. the (?w k)) (map fst cs)"
    if "\<forall>k \<in> fst ` set cs. ?w k \<noteq> None" for cs :: "(bytes32 \<times> signature) list"
    using that by (induction cs) (auto simp: List.map_filter_simps)
  then have "accumulated_weight p registry = sum_list (map (\<lambda>k. the (?w k)) (map fst (contributions p)))"
    using assms(2) by (simp add: accumulated_weight_def is_known_signer_def)
  also have "\<dots> = (\<Sum>k \<in> set (map fst (contributions p)). the (?w k))"
    using assms(1) by (rule sum_list_distinct_conv_sum_set)
  finally show ?thesis by simp
qed

lemma unat_sum_u32:
  assumes "finite S" and "(\<Sum>k \<in> S. unat (f k)) < 2 ^ 32"
  shows "unat (\<Sum>k \<in> S. (f k :: u32)) = (\<Sum>k \<in> S. unat (f k))"
  using assms
proof (induction S rule: finite_induct)
  case (insert k S)
  then have "unat (f k) + unat (\<Sum>k \<in> S. f k) < 2 ^ 32" by simp
  then show ?case using insert by (simp add: unat_word_ariths)
qed simp

text \<open>A canonical payload determines the key and the transaction it was built from.\<close>

lemma canonical_payload_inj:
  "canonical_payload h = canonical_payload h' \<longleftrightarrow>
     origin_pubkey (classical_envelope h) = origin_pubkey (classical_envelope h') \<and>
     tx_xdr (classical_envelope h) = tx_xdr (classical_envelope h')"
proof -
  show ?thesis by (simp add: canonical_payload_def as_bytes_inj)
qed

section \<open>Properties\<close>

text \<open>
  An envelope is only signed for the account and the sequence number that the transaction
  itself encodes, and only when that number is the next free one of the account; the number is
  then reserved.  In every other case the reservations are left exactly as they were.
\<close>

theorem build_and_sign_exact:
  "build_and_sign X now m account key policy xdr ttl = (r, m') \<Longrightarrow>
     (case r of
        Inl e \<Rightarrow> m' = m \<and>
          \<not> (\<exists>s m''. extract_source_account_and_sequence X xdr = Inr (account, s) \<and>
               reserve_next m account = Inr (s, m''))
      | Inr (h, s) \<Rightarrow>
          extract_source_account_and_sequence X xdr = Inr (account, s) \<and>
          last_reserved m account = Some (s - 1) \<and> last_reserved m' account = Some s \<and>
          (\<forall>k. k \<noteq> account \<longrightarrow> last_reserved m' k = last_reserved m k) \<and>
          classical_envelope h = seal X now key (verifying_key X key) xdr ttl)"
proof (cases r)
  case (Inl e)
  assume b: "build_and_sign X now m account key policy xdr ttl = (r, m')"
  have "False" if "extract_source_account_and_sequence X xdr = Inr (account, s)"
      "reserve_next m account = Inr (s, m'')" for s m''
    using that b Inl by (simp add: build_and_sign_def)
  then show ?thesis using build_and_sign_Inl b Inl by auto
next
  case (Inr p)
  assume b: "build_and_sign X now m account key policy xdr ttl = (r, m')"
  obtain h s where p: "p = (h, s)" by (cases p)
  have "extract_source_account_and_sequence X xdr = Inr (account, s)"
    and res: "reserve_next m account = Inr (s, m')"
    and "h = sign_hybrid X policy (seal X now key (verifying_key X key) xdr ttl)"
    using b Inr p by (simp_all add: build_and_sign_Inr)
  moreover have "last_reserved m account = Some (s - 1)"
    using res by (auto simp: reserve_next_Inr)
  ultimately show ?thesis
    using last_reserved_reserve_next [OF res] by (simp add: Inr p)
qed

text \<open>A concrete instance of the third-party functions, for the examples.\<close>

definition sample_tx :: "i64 \<Rightarrow> xdr_envelope" where
  "sample_tx s = TxV0 \<lparr>source_account_ed25519 = 1, v0_seq_num = s, v0_rest = []\<rparr> []"

definition sample_crypto :: third_party where
  "sample_crypto =
     \<lparr>from_xdr_base64 = (\<lambda>s. if s = ''a'' then Inr (sample_tx 5) else if s = ''b'' then Inr (sample_tx 6) else Inl ''bad''),
      to_xdr_base64 = (\<lambda>e. if e = sample_tx 5 then Inr ''a'' else if e = sample_tx 6 then Inr ''b'' else Inl ''bad''),
      ed25519_strkey = (\<lambda>k. if k = 1 then ''G1'' else ''G?''),
      verifying_key = (\<lambda>k. k), ed25519_sign = (\<lambda>k m. 0), sha256 = (\<lambda>bs. 0),
      seal = (\<lambda>now key pk xdr ttl. \<lparr>message_id = 1, origin_pubkey = pk, tx_xdr = xdr, ttl_hops = ttl,
        env_timestamp = now, env_signature = 0\<rparr>),
      pq_sign = (\<lambda>m sk. m), pq_key_bytes = (\<lambda>k. k), pq_sig_bytes = (\<lambda>s. s),
      pq_key_from_bytes = Some, pq_sig_from_bytes = Some, pq_verify = (\<lambda>sig m pk. sig = m)\<rparr>"

lemma sample_extract:
  "extract_source_account_and_sequence sample_crypto ''a'' = Inr (''G1'', 5)"
  "extract_source_account_and_sequence sample_crypto ''b'' = Inr (''G1'', 6)"
  by (simp_all add: extract_source_account_and_sequence_def sample_crypto_def sample_tx_def
      ed25519_to_strkey_def)

theorem build_and_sign_exact_witness:
  "snd (build_and_sign sample_crypto 0 (seed srm_new ''G1'' 4) ''G1'' 7 ClassicalOnly ''b'' 3) =
     seed srm_new ''G1'' 4"
  using build_and_sign_exact [of sample_crypto 0 "seed srm_new ''G1'' 4" "''G1''" 7 ClassicalOnly "''b''" 3
      "Inl (SequenceMismatch ''G1'' 5 6)" "seed srm_new ''G1'' 4"]
  by (simp add: build_and_sign_def sample_extract reserve_next_def release_def seed_def srm_new_def)

text \<open>
  C26. Multisig: whatever keys are asked to sign, how often and in which order, only registered
  signers contribute, each once; the envelope becomes dispatchable exactly when the weights of
  the distinct registered signers reach the account's threshold (weights adding up within
  32 bits).
\<close>

theorem multisig_threshold_exact:
  "S = {k \<in> verifying_key X ` set ks. is_known_signer registry account k} \<Longrightarrow>
   W = (\<Sum>k \<in> S. unat (the (signer_weight registry account k))) \<Longrightarrow> W < 2 ^ 32 \<Longrightarrow>
   p = add_signatures X registry (partial_new account sq xdr) ks \<Longrightarrow>
     contributor_count p = card S \<and> unat (accumulated_weight p registry) = W \<and>
     (is_ok (try_promote X now p registry mesh_key policy ttl) \<longleftrightarrow>
        (\<exists>t. threshold registry account = Some t \<and> unat t \<le> W))"
proof -
  assume S: "S = {k \<in> verifying_key X ` set ks. is_known_signer registry account k}"
    and W: "W = (\<Sum>k \<in> S. unat (the (signer_weight registry account k)))" and lt: "W < 2 ^ 32"
    and p: "p = add_signatures X registry (partial_new account sq xdr) ks"
  have acc: "pse_source_account p = account" by (simp add: p partial_new_def)
  have keys: "fst ` set (contributions p) = S"
    using add_signatures_keys [of X registry "partial_new account sq xdr" ks] by (simp add: p S partial_new_def)
  have d: "distinct (map fst (contributions p))"
    unfolding p by (rule add_signatures_distinct) (simp add: partial_new_def)
  have "contributor_count p = card S"
    using distinct_card [OF d] keys by (simp add: contributor_count_def)
  moreover have "accumulated_weight p registry = (\<Sum>k \<in> S. the (signer_weight registry account k))"
    using accumulated_weight_sum [OF d, of registry] keys S by (auto simp: acc)
  then have w: "unat (accumulated_weight p registry) = W"
    using unat_sum_u32 [of S "\<lambda>k. the (signer_weight registry account k)"] W lt S by simp
  moreover have "is_ok (try_promote X now p registry mesh_key policy ttl) \<longleftrightarrow>
      (\<exists>t. threshold registry account = Some t \<and> unat t \<le> W)"
    using w by (auto simp: try_promote_def meets_threshold_def acc word_le_nat_alt split: option.splits)
  ultimately show ?thesis by blast
qed

theorem multisig_threshold_exact_witness:
  "is_ok (try_promote sample_crypto 0
     (add_signatures sample_crypto (registry_seed Map.empty ''G1'' [(10, 1), (11, 1)] 2)
       (partial_new ''G1'' 5 ''a'') [10, 10, 12, 11])
     (registry_seed Map.empty ''G1'' [(10, 1), (11, 1)] 2) 7 ClassicalOnly 3)"
proof -
  let ?r = "registry_seed Map.empty ''G1'' [(10, 1), (11, 1)] 2"
  have S: "{k \<in> verifying_key sample_crypto ` set [10, 10, 12, 11]. is_known_signer ?r ''G1'' k} = {10, 11}"
    by (auto simp: sample_crypto_def registry_seed_def is_known_signer_def signer_weight_def)
  have W: "(\<Sum>k \<in> {10, 11}. unat (the (signer_weight ?r ''G1'' k))) = 2"
    by (simp add: registry_seed_def signer_weight_def)
  show ?thesis
    using multisig_threshold_exact [OF S [symmetric] W [symmetric] _ refl, of 5 "''a''" 0 7 ClassicalOnly 3]
    by (simp add: threshold_def registry_seed_def)
qed

text \<open>
  Resequencing rewrites the sequence number and nothing else: the new transaction parses to
  the old one with the new number, for the same source account, and moving it back to the
  original number recovers the original transaction.
\<close>

theorem with_updated_sequence_exact:
  "\<forall>e s. to_xdr_base64 X e = Inr s \<longrightarrow> from_xdr_base64 X s = Inr e \<Longrightarrow>
   from_xdr_base64 X xdr = Inr env \<Longrightarrow>
   extract_source_account_and_sequence X xdr = Inr (account, s) \<Longrightarrow>
   with_updated_sequence X xdr n = Inr xdr' \<Longrightarrow>
     extract_source_account_and_sequence X xdr' = Inr (account, n) \<and>
     from_xdr_base64 X xdr' = Inr (update_sequence n env) \<and>
     update_sequence s (update_sequence n env) = env \<and>
     (resequence_and_resign X now (old\<lparr>tx_xdr := xdr\<rparr>) n key policy =
        Inr (sign_hybrid X policy (seal X now key (verifying_key X key) xdr' (ttl_hops old))))"
proof (intro conjI)
  assume rt: "\<forall>e s. to_xdr_base64 X e = Inr s \<longrightarrow> from_xdr_base64 X s = Inr e"
    and env: "from_xdr_base64 X xdr = Inr env"
    and ext: "extract_source_account_and_sequence X xdr = Inr (account, s)"
    and upd: "with_updated_sequence X xdr n = Inr xdr'"
  have "to_xdr_base64 X (update_sequence n env) = Inr xdr'"
    using upd env by (auto simp: with_updated_sequence_def split: sum.splits)
  with rt show new: "from_xdr_base64 X xdr' = Inr (update_sequence n env)" by blast
  show "extract_source_account_and_sequence X xdr' = Inr (account, n)"
    using ext env new by (cases env) (auto simp: extract_source_account_and_sequence_def update_sequence_def)
  show "update_sequence s (update_sequence n env) = env"
    using ext env by (cases env) (auto simp: extract_source_account_and_sequence_def update_sequence_def)
  show "resequence_and_resign X now (old\<lparr>tx_xdr := xdr\<rparr>) n key policy =
      Inr (sign_hybrid X policy (seal X now key (verifying_key X key) xdr' (ttl_hops old)))"
    using upd by (simp add: resequence_and_resign_def)
qed

theorem with_updated_sequence_exact_witness:
  "extract_source_account_and_sequence sample_crypto ''b'' = Inr (''G1'', 6)"
proof -
  have rt: "\<forall>e s. to_xdr_base64 sample_crypto e = Inr s \<longrightarrow> from_xdr_base64 sample_crypto s = Inr e"
    by (auto simp: sample_crypto_def)
  have env: "from_xdr_base64 sample_crypto ''a'' = Inr (sample_tx 5)" by (simp add: sample_crypto_def)
  have upd: "with_updated_sequence sample_crypto ''a'' 6 = Inr ''b''"
    by (simp add: with_updated_sequence_def sample_crypto_def update_sequence_def sample_tx_def)
  show ?thesis
    using with_updated_sequence_exact [OF rt env sample_extract(1) upd] by blast
qed

text \<open>
  The post-quantum layer: an envelope signed under the hybrid policy passes verification,
  and once its origin key or its transaction is altered it no longer does, provided Dilithium
  signatures verify for the message they were made for and for no other.
\<close>

theorem verify_pq_hybrid:
  "pq_key_from_bytes X (pq_key_bytes X pk) = Some pk \<Longrightarrow>
   \<forall>m. pq_sig_from_bytes X (pq_sig_bytes X (pq_sign X m sk)) = Some (pq_sign X m sk) \<Longrightarrow>
   \<forall>m m'. pq_verify X (pq_sign X m sk) m' pk \<longleftrightarrow> m' = m \<Longrightarrow>
     verify_pq X (sign_hybrid X (Hybrid pk sk) e) = Inr () \<and>
     (origin_pubkey e' \<noteq> origin_pubkey e \<or> tx_xdr e' \<noteq> tx_xdr e \<longrightarrow>
        verify_pq X ((sign_hybrid X (Hybrid pk sk) e)\<lparr>classical_envelope := e'\<rparr>) = Inl PqVerificationFailed)"
  using canonical_payload_inj [of "(sign_hybrid X (Hybrid pk sk) e)\<lparr>classical_envelope := e'\<rparr>"
      "\<lparr>classical_envelope = e, hyb_pq_signature = None, hyb_pq_public_key = None\<rparr>"]
  by (auto simp: verify_pq_def sign_hybrid_def Let_def canonical_payload_def)

theorem verify_pq_hybrid_witness:
  "verify_pq sample_crypto ((sign_hybrid sample_crypto (Hybrid [1] [2]) (sample_envelope 1))
     \<lparr>classical_envelope := (sample_envelope 1)\<lparr>tx_xdr := ''c''\<rparr>\<rparr>) = Inl PqVerificationFailed"
proof -
  have "pq_key_from_bytes sample_crypto (pq_key_bytes sample_crypto [1]) = Some [1]"
    "\<forall>m. pq_sig_from_bytes sample_crypto (pq_sig_bytes sample_crypto (pq_sign sample_crypto m [2])) =
       Some (pq_sign sample_crypto m [2])"
    "\<forall>m m'. pq_verify sample_crypto (pq_sign sample_crypto m [2]) m' [1] \<longleftrightarrow> m' = m"
    by (auto simp: sample_crypto_def)
  from verify_pq_hybrid [OF this, THEN conjunct2, of "(sample_envelope 1)\<lparr>tx_xdr := ''c''\<rparr>" "sample_envelope 1"]
  show ?thesis by simp
qed

text \<open>
  An envelope whose signature or key field has been dropped verifies: the check does not demand
  the post-quantum signature, so stripping it downgrades a hybrid envelope silently.
\<close>

lemma verify_pq_stripped:
  "verify_pq X (h\<lparr>hyb_pq_signature := None\<rparr>) = Inr ()"
  "verify_pq X (h\<lparr>hyb_pq_public_key := None\<rparr>) = Inr ()"
  by (simp_all add: verify_pq_def split: option.splits)

end
