(* ===== verification/Encryption.thy ===== *)
theory Encryption
  imports Errors
begin

text \<open>
  \<open>src/encryption.rs\<close>: keys, nonces and the \<open>[nonce][ciphertext]\<close> framing of encrypted columns.
  AES-256-GCM and Argon2 are third-party: the record \<open>cipher\<close> holds them (\<open>Inl\<close>/\<open>None\<close> their
  errors).  A random nonce or salt is an argument of the operation that draws it.
\<close>

definition KEY_SIZE :: usize where "KEY_SIZE = 32"

definition NONCE_SIZE :: usize where "NONCE_SIZE = 12"

definition SALT_SIZE :: usize where "SALT_SIZE = 16"

definition ARGON2_MEMORY_COST :: u32 where "ARGON2_MEMORY_COST = 65536"

definition ARGON2_TIME_COST :: u32 where "ARGON2_TIME_COST = 3"

definition ARGON2_PARALLELISM :: u32 where "ARGON2_PARALLELISM = 4"

type_synonym encryption_key = bytes32
type_synonym encryption_nonce = "96 word"
type_synonym encrypted_data = bytes
type_synonym argon2_params = "u32 \<times> u32 \<times> u32 \<times> usize"

record cipher =
  aes_gcm_encrypt :: "encryption_key \<Rightarrow> encryption_nonce \<Rightarrow> bytes \<Rightarrow> string + bytes"
  aes_gcm_decrypt :: "encryption_key \<Rightarrow> encryption_nonce \<Rightarrow> bytes \<Rightarrow> bytes option"
  argon2_check_params :: "argon2_params \<Rightarrow> string + unit"
  argon2id :: "argon2_params \<Rightarrow> bytes \<Rightarrow> bytes \<Rightarrow> string + bytes32"

definition from_passphrase :: "'z cipher_scheme \<Rightarrow> string \<Rightarrow> bytes \<Rightarrow> encryption_key result" where
  "from_passphrase C passphrase salt =
     (let params = (ARGON2_MEMORY_COST, ARGON2_TIME_COST, ARGON2_PARALLELISM, KEY_SIZE)
      in case argon2_check_params C params of
           Inl e \<Rightarrow> Inl (EncryptionError (''Argon2 params error: '' @ e))
         | Inr _ \<Rightarrow>
             (case argon2id C params (as_bytes passphrase) salt of
                Inl e \<Rightarrow> Inl (EncryptionError (''Key derivation failed: '' @ e))
              | Inr key \<Rightarrow> Inr key))"

definition encrypt ::
  "'z cipher_scheme \<Rightarrow> bytes \<Rightarrow> encryption_key \<Rightarrow> encryption_nonce \<Rightarrow> bytes result" where
  "encrypt C plaintext key nonce =
     (case aes_gcm_encrypt C key nonce plaintext of
        Inl e \<Rightarrow> Inl (EncryptionError (''Encryption failed: '' @ e))
      | Inr ct \<Rightarrow> Inr ct)"

definition decrypt ::
  "'z cipher_scheme \<Rightarrow> bytes \<Rightarrow> encryption_key \<Rightarrow> encryption_nonce \<Rightarrow> bytes result" where
  "decrypt C ciphertext key nonce =
     (case aes_gcm_decrypt C key nonce ciphertext of
        None \<Rightarrow> Inl DecryptionFailed
      | Some pt \<Rightarrow> Inr pt)"

definition nonce_bytes :: "encryption_nonce \<Rightarrow> bytes" where
  "nonce_bytes n = be_bytes NONCE_SIZE (unat n)"

definition nonce_of_bytes :: "bytes \<Rightarrow> encryption_nonce" where
  "nonce_of_bytes bs = word_of_nat (of_be_bytes bs)"

text \<open>\<open>EncryptedData::encrypt\<close>; \<open>nonce\<close> is the value \<open>EncryptionNonce::generate\<close> draws.\<close>

definition encrypt_data ::
  "'z cipher_scheme \<Rightarrow> encryption_nonce \<Rightarrow> bytes \<Rightarrow> encryption_key \<Rightarrow> encrypted_data result" where
  "encrypt_data C nonce plaintext key =
     (case encrypt C plaintext key nonce of
        Inl e \<Rightarrow> Inl e
      | Inr ciphertext \<Rightarrow> Inr (nonce_bytes nonce @ ciphertext))"

definition decrypt_data ::
  "'z cipher_scheme \<Rightarrow> encrypted_data \<Rightarrow> encryption_key \<Rightarrow> bytes result" where
  "decrypt_data C d key =
     (if length d < NONCE_SIZE then Inl DecryptionFailed
      else decrypt C (drop NONCE_SIZE d) key (nonce_of_bytes (take NONCE_SIZE d)))"

section \<open>Round trip\<close>

lemma nonce_of_nonce_bytes [simp]: "nonce_of_bytes (nonce_bytes n) = n"
proof -
  have "unat n < 256 ^ 12" using unat_bound [of n] by simp
  then show ?thesis by (simp add: nonce_of_bytes_def nonce_bytes_def NONCE_SIZE_def of_be_be_bytes)
qed

lemma length_nonce_bytes [simp]: "length (nonce_bytes n) = NONCE_SIZE"
  by (simp add: nonce_bytes_def)

text \<open>What AES-GCM promises: decrypting with the same key and nonce gives the plaintext back.\<close>

definition cipher_ok :: "'z cipher_scheme \<Rightarrow> bool" where
  "cipher_ok C \<longleftrightarrow>
     (\<forall>key nonce pt ct. aes_gcm_encrypt C key nonce pt = Inr ct \<longrightarrow> aes_gcm_decrypt C key nonce ct = Some pt)"

lemma decrypt_data_encrypt_data:
  assumes "cipher_ok C" and "encrypt_data C nonce pt key = Inr d"
  shows "decrypt_data C d key = Inr pt"
  using assms
  by (auto simp: encrypt_data_def encrypt_def decrypt_data_def decrypt_def cipher_ok_def
      split: sum.splits)

text \<open>
  Encrypted columns: what was encrypted decrypts to the plaintext with the same key; the
  stored bytes start with the nonce; anything shorter than a nonce, and anything AES-GCM
  rejects under the given key, is reported as a decryption failure and never as data.
\<close>

theorem encrypted_data_roundtrip:
  "cipher_ok C \<Longrightarrow> encrypt_data C nonce pt key = Inr d \<Longrightarrow>
     decrypt_data C d key = Inr pt \<and> take NONCE_SIZE d = nonce_bytes nonce \<and>
     (\<forall>bs. length bs < NONCE_SIZE \<longrightarrow> decrypt_data C bs key = Inl DecryptionFailed) \<and>
     (\<forall>key'. aes_gcm_decrypt C key' nonce (drop NONCE_SIZE d) = None \<longrightarrow>
        decrypt_data C d key' = Inl DecryptionFailed)"
proof (intro conjI allI impI)
  assume ok: "cipher_ok C" and d: "encrypt_data C nonce pt key = Inr d"
  show "decrypt_data C d key = Inr pt" by (rule decrypt_data_encrypt_data [OF ok d])
  show take: "take NONCE_SIZE d = nonce_bytes nonce"
    using d by (auto simp: encrypt_data_def split: sum.splits)
  have "\<not> length d < NONCE_SIZE" using d by (auto simp: encrypt_data_def split: sum.splits)
  then show "decrypt_data C d key' = Inl DecryptionFailed"
    if "aes_gcm_decrypt C key' nonce (drop NONCE_SIZE d) = None" for key'
    using that take by (simp add: decrypt_data_def decrypt_def)
qed (simp add: decrypt_data_def)

text \<open>A toy cipher for the examples: it prefixes the key and checks it on the way back.\<close>

definition sample_cipher :: cipher where
  "sample_cipher =
     \<lparr>aes_gcm_encrypt = (\<lambda>k n pt. Inr (to_vec k @ pt)),
      aes_gcm_decrypt = (\<lambda>k n ct. if take 32 ct = to_vec k then Some (drop 32 ct) else None),
      argon2_check_params = (\<lambda>_. Inr ()), argon2id = (\<lambda>_ _ _. Inr 0)\<rparr>"

lemma sample_cipher_ok: "cipher_ok sample_cipher"
  by (auto simp: cipher_ok_def sample_cipher_def)

theorem encrypted_data_roundtrip_witness:
  "decrypt_data sample_cipher (nonce_bytes 5 @ to_vec 9 @ [1, 2]) 9 = Inr [1, 2]"
  using encrypted_data_roundtrip [OF sample_cipher_ok, of 5 "[1, 2]" 9 "nonce_bytes 5 @ to_vec 9 @ [1, 2]"]
  by (simp add: encrypt_data_def encrypt_def sample_cipher_def)

end
