(* ===== verification/Tables.thy ===== *)
theory Tables
  imports Prelude
begin

text \<open>
  The SQL statements of \<open>src/storage/db.rs\<close> as operations on lists of rows.  A table is the list
  of its rows in rowid order.  \<open>INSERT OR REPLACE\<close> deletes the row with the same primary key and
  appends the new one (a fresh, larger rowid); a plain \<open>INSERT\<close> fails on a key that is present;
  rows of a table whose primary key is the rowid are kept in key order.
\<close>

definition replace_row :: "('r \<Rightarrow> 'k) \<Rightarrow> 'r \<Rightarrow> 'r list \<Rightarrow> 'r list" where
  "replace_row key r rows = filter (\<lambda>x. key x \<noteq> key r) rows @ [r]"

definition insert_row :: "('r \<Rightarrow> 'k) \<Rightarrow> 'r \<Rightarrow> 'r list \<Rightarrow> 'r list option" where
  "insert_row key r rows = (if key r \<in> key ` set rows then None else Some (rows @ [r]))"

definition insert_row_by_id :: "('r \<Rightarrow> i64) \<Rightarrow> 'r \<Rightarrow> 'r list \<Rightarrow> 'r list option" where
  "insert_row_by_id key r rows =
     (if key r \<in> key ` set rows then None else Some (insort_key (\<lambda>x. sint (key x)) r rows))"

definition select_row :: "('r \<Rightarrow> 'k) \<Rightarrow> 'k \<Rightarrow> 'r list \<Rightarrow> 'r option" where
  "select_row key k rows = List.find (\<lambda>r. key r = k) rows"

definition delete_rows :: "('r \<Rightarrow> 'k) \<Rightarrow> 'k \<Rightarrow> 'r list \<Rightarrow> 'r list" where
  "delete_rows key k rows = filter (\<lambda>r. key r \<noteq> k) rows"

definition update_rows :: "('r \<Rightarrow> 'k) \<Rightarrow> 'k \<Rightarrow> ('r \<Rightarrow> 'r) \<Rightarrow> 'r list \<Rightarrow> 'r list" where
  "update_rows key k f rows = map (\<lambda>r. if key r = k then f r else r) rows"

text \<open>A sequence of plain inserts, stopping at the first that fails.\<close>

fun insert_all :: "('r \<Rightarrow> 'r list \<Rightarrow> 'r list option) \<Rightarrow> 'r list \<Rightarrow> 'r list \<Rightarrow> 'r list option" where
  "insert_all ins [] rows = Some rows"
| "insert_all ins (r # rs) rows = (case ins r rows of None \<Rightarrow> None | Some rows' \<Rightarrow> insert_all ins rs rows')"

section \<open>The interface of a keyed table\<close>

text \<open>
  What the clients of a table with a primary key rely on: a lookup sees the last row written
  for its key, and the keys stay unique.
\<close>

locale keyed_table =
  fixes key :: "'r \<Rightarrow> 'k"
    and new :: 't
    and upsert :: "'r \<Rightarrow> 't \<Rightarrow> 't"
    and remove :: "'k \<Rightarrow> 't \<Rightarrow> 't"
    and lookup :: "'k \<Rightarrow> 't \<Rightarrow> 'r option"
    and rows :: "'t \<Rightarrow> 'r list"
  assumes lookup_upsert: "lookup k (upsert r t) = (if k = key r then Some r else lookup k t)"
    and lookup_remove: "lookup k (remove k' t) = (if k = k' then None else lookup k t)"
    and lookup_rows: "distinct (map key (rows t)) \<Longrightarrow> lookup k t = Some r \<longleftrightarrow> r \<in> set (rows t) \<and> key r = k"
    and rows_new: "rows new = []"
    and rows_upsert: "distinct (map key (rows t)) \<Longrightarrow> distinct (map key (rows (upsert r t)))"
    and rows_remove: "distinct (map key (rows t)) \<Longrightarrow> distinct (map key (rows (remove k t)))"
begin

definition invar :: "'t \<Rightarrow> bool" where
  "invar t \<longleftrightarrow> distinct (map key (rows t))"

lemma invar_new: "invar new"
  by (simp add: invar_def rows_new)

lemma invar_upsert: "invar t \<Longrightarrow> invar (upsert r t)"
  by (simp add: invar_def rows_upsert)

lemma invar_remove: "invar t \<Longrightarrow> invar (remove k t)"
  by (simp add: invar_def rows_remove)

lemma lookup_Some_key: "invar t \<Longrightarrow> lookup k t = Some r \<Longrightarrow> key r = k"
  by (simp add: invar_def lookup_rows)

lemma lookup_None_iff: "invar t \<Longrightarrow> lookup k t = None \<longleftrightarrow> k \<notin> key ` set (rows t)"
proof -
  assume "invar t"
  then have "lookup k t = Some r \<longleftrightarrow> r \<in> set (rows t) \<and> key r = k" for r
    by (simp add: invar_def lookup_rows)
  then show ?thesis by (cases "lookup k t") force+
qed

lemma set_rows_upsert:
  "invar t \<Longrightarrow> set (rows (upsert r t)) = insert r {x \<in> set (rows t). key x \<noteq> key r}"
proof -
  assume inv: "invar t"
  have "x \<in> set (rows (upsert r t)) \<longleftrightarrow> lookup (key x) (upsert r t) = Some x" for x
    using invar_upsert [OF inv, of r] by (simp add: invar_def lookup_rows)
  moreover have "x \<in> set (rows t) \<longleftrightarrow> lookup (key x) t = Some x" for x
    using inv by (simp add: invar_def lookup_rows)
  ultimately show ?thesis by (auto simp: lookup_upsert split: if_splits)
qed

text \<open>A later write for the same key hides an earlier one; writes for other keys commute.\<close>

lemma lookup_upsert_twice: "key r = key s \<Longrightarrow> lookup k (upsert s (upsert r t)) = lookup k (upsert s t)"
  by (simp add: lookup_upsert)

lemma lookup_upsert_commute:
  "key r \<noteq> key s \<Longrightarrow> lookup k (upsert s (upsert r t)) = lookup k (upsert r (upsert s t))"
  by (simp add: lookup_upsert)

end

section \<open>Row lists are keyed tables\<close>

lemma select_replace: "select_row key k (replace_row key r rows) = (if k = key r then Some r else select_row key k rows)"
  by (induction rows) (auto simp: select_row_def replace_row_def)

lemma select_delete: "select_row key k (delete_rows key k' rows) = (if k = k' then None else select_row key k rows)"
  by (induction rows) (auto simp: select_row_def delete_rows_def)

lemma select_Some: "distinct (map key rows) \<Longrightarrow> select_row key k rows = Some r \<longleftrightarrow> r \<in> set rows \<and> key r = k"
  by (induction rows) (auto simp: select_row_def)

lemma select_None: "select_row key k rows = None \<longleftrightarrow> k \<notin> key ` set rows"
  by (induction rows) (auto simp: select_row_def)

lemma distinct_replace: "distinct (map key rows) \<Longrightarrow> distinct (map key (replace_row key r rows))"
  by (auto simp: replace_row_def distinct_map_filter)

lemma distinct_delete_rows: "distinct (map key rows) \<Longrightarrow> distinct (map key (delete_rows key k rows))"
  by (simp add: delete_rows_def distinct_map_filter)

lemma keyed_table_rows:
  "keyed_table key [] (replace_row key) (delete_rows key) (select_row key) (\<lambda>rows. rows)"
  by unfold_locales
    (simp_all add: select_replace select_delete select_Some distinct_replace distinct_delete_rows)

lemma select_update:
  "(\<And>r. key (f r) = key r) \<Longrightarrow>
   select_row key k (update_rows key k' f rows) =
     (if k = k' then map_option f (select_row key k rows) else select_row key k rows)"
  by (induction rows) (auto simp: select_row_def update_rows_def)

lemma map_key_update: "(\<And>r. key (f r) = key r) \<Longrightarrow> map key (update_rows key k f rows) = map key rows"
  by (auto simp: update_rows_def)

text \<open>Importing rows with fresh, pairwise different keys into an empty table keeps their order.\<close>

lemma insert_row_Some: "insert_row key r rows = Some x \<longleftrightarrow> key r \<notin> key ` set rows \<and> x = rows @ [r]"
  by (auto simp: insert_row_def)

lemma insert_row_by_id_fresh:
  "key r \<notin> key ` set rows \<Longrightarrow>
   insert_row_by_id key r rows = Some (insort_key (\<lambda>x. sint (key x)) r rows)"
  by (simp add: insert_row_by_id_def)

lemma insert_row_by_id_Some:
  "insert_row_by_id key r rows = Some x \<longleftrightarrow>
     key r \<notin> key ` set rows \<and> x = insort_key (\<lambda>x. sint (key x)) r rows"
  by (auto simp: insert_row_by_id_def)

lemma insert_all_rows:
  "distinct (map key (acc @ rs)) \<Longrightarrow> insert_all (insert_row key) rs acc = Some (acc @ rs)"
proof (induction rs arbitrary: acc)
  case (Cons r rs)
  have "insert_row key r acc = Some (acc @ [r])" using Cons.prems by (auto simp: insert_row_Some)
  then show ?case using Cons.IH [of "acc @ [r]"] Cons.prems by simp
qed simp

lemma insert_all_rows_distinct:
  "insert_all (insert_row key) rs acc = Some out \<Longrightarrow> distinct (map key acc) \<Longrightarrow>
   out = acc @ rs \<and> distinct (map key out)"
proof (induction rs arbitrary: acc)
  case (Cons r rs)
  then have "key r \<notin> key ` set acc" "insert_all (insert_row key) rs (acc @ [r]) = Some out"
    by (auto simp: insert_row_Some split: option.splits)
  moreover from this(1) have "distinct (map key (acc @ [r]))" using Cons.prems(2) by auto
  ultimately have "out = (acc @ [r]) @ rs \<and> distinct (map key out)" by (intro Cons.IH)
  then show ?case unfolding append_assoc append_Cons append_Nil .
qed simp

lemma insort_last: "\<forall>x \<in> set xs. f x < f r \<Longrightarrow> insort_key f r xs = xs @ [r]"
  by (induction xs) auto

lemma insert_all_by_id:
  "sorted_wrt (<) (map (\<lambda>x. sint (key x)) (acc @ rs)) \<Longrightarrow>
   insert_all (insert_row_by_id key) rs acc = Some (acc @ rs)"
proof (induction rs arbitrary: acc)
  case (Cons r rs)
  have lt: "\<forall>x \<in> set acc. sint (key x) < sint (key r)"
    using Cons.prems by (auto simp: sorted_wrt_append)
  then have "key r \<notin> key ` set acc" by force
  then have "insert_row_by_id key r acc = Some (acc @ [r])"
    using insort_last [OF lt] by (simp add: insert_row_by_id_fresh)
  moreover have "insert_all (insert_row_by_id key) rs (acc @ [r]) = Some ((acc @ [r]) @ rs)"
    using Cons.prems by (intro Cons.IH) simp
  ultimately show ?case by simp
qed simp

end
