(* ===== verification/Storage.thy ===== *)
theory Storage
  imports Tables Encryption Spendable Escalation Priority
begin

text \<open>
  \<open>src/storage/db.rs\<close>: the durable tables and the statements each operation runs on them.

  Every operation takes a \<open>fault\<close>: \<open>None\<close> when the database works, \<open>Some k\<close> when the \<open>k\<close>-th
  statement of the call fails (counting from 0).  A failing call returns an error together with
  the database that the statements before the failure left, which is also the database that a
  crash at that point leaves on disk; inside a transaction nothing is left.  MessagePack is the
  third-party record \<open>serde\<close>, an extension of \<open>cipher\<close>.
\<close>

type_synonym fault = "nat option"

definition io_error :: sync_engine_error where
  "io_error = ConnectionError ''database call failed''"

text \<open>The faults of the statements that follow the first \<open>n\<close>.\<close>

definition fault_after :: "nat \<Rightarrow> fault \<Rightarrow> fault" where
  "fault_after n fault = (case fault of Some k \<Rightarrow> if n \<le> k then Some (k - n) else None | None \<Rightarrow> None)"

lemma fault_after_None [simp]: "fault_after n None = None"
  by (simp add: fault_after_def)

section \<open>Rows\<close>

record queued_envelope_row =
  qe_message_id :: bytes
  qe_source_account :: string
  qe_sequence :: i64
  qe_priority :: i64
  qe_enqueued_at :: i64
  qe_envelope_bytes :: bytes

record settlement_status_row =
  ss_message_id :: bytes
  ss_status :: string
  ss_updated_at :: i64

record sequence_reservation_row =
  sr_source_account :: string
  sr_last_reserved :: i64

record conflict_row =
  cf_id :: i64
  cf_source_account :: string
  cf_sequence :: i64
  cf_envelope_a :: bytes
  cf_envelope_b :: bytes
  cf_detected_at :: i64
  cf_resolved :: i64

record settlement_history_row =
  sh_id :: i64
  sh_message_id :: bytes
  sh_from_status :: string
  sh_to_status :: string
  sh_timestamp :: i64

record dispute_escalation_row =
  dr_id :: i64
  dr_source_account :: string
  dr_sequence :: i64
  dr_envelope_a :: bytes
  dr_envelope_b :: bytes
  dr_initiator :: string
  dr_respondent :: string
  dr_tx_id :: bytes
  dr_proof_bytes :: bytes
  dr_created_at :: i64
  dr_submitted :: i64

record db_snapshot =
  schema_version :: u32
  snap_queued_envelopes :: "queued_envelope_row list"
  snap_settlement_status :: "settlement_status_row list"
  snap_sequence_reservations :: "sequence_reservation_row list"
  snap_conflicts :: "conflict_row list"
  snap_settlement_history :: "settlement_history_row list"
  snap_dispute_escalations :: "dispute_escalation_row list"

text \<open>
  The database file: the tables of \<open>init\<close>, and the counters \<open>AUTOINCREMENT\<close> keeps per table.
\<close>

record database =
  queued_envelopes :: "queued_envelope_row list"
  settlement_status_table :: "settlement_status_row list"
  sequence_reservations :: "sequence_reservation_row list"
  conflicts :: "conflict_row list"
  settlement_history :: "settlement_history_row list"
  dispute_escalations :: "dispute_escalation_row list"
  encryption_metadata :: "(string \<times> string) list"
  conflicts_counter :: i64
  history_counter :: i64
  escalations_counter :: i64

record sync_engine_db =
  conn :: database
  encryption_key_of :: "encryption_key option"

record serde = cipher +
  envelope_to_vec :: "transaction_envelope \<Rightarrow> bytes"
  envelope_from_slice :: "bytes \<Rightarrow> transaction_envelope option"
  proof_to_vec :: "relay_chain_proof \<Rightarrow> bytes"
  proof_from_slice :: "bytes \<Rightarrow> relay_chain_proof option"
  snapshot_to_vec :: "db_snapshot \<Rightarrow> bytes"
  snapshot_from_slice :: "bytes \<Rightarrow> db_snapshot option"

definition deserialization_error :: sync_engine_error where
  "deserialization_error = DeserializationError ''invalid MessagePack''"

definition DB_SNAPSHOT_SCHEMA_VERSION :: u32 where "DB_SNAPSHOT_SCHEMA_VERSION = 1"

definition ENCRYPTION_ENABLED_KEY :: string where "ENCRYPTION_ENABLED_KEY = ''encryption_enabled''"

definition empty_database :: database where
  "empty_database =
     \<lparr>queued_envelopes = [], settlement_status_table = [], sequence_reservations = [], conflicts = [],
      settlement_history = [], dispute_escalations = [], encryption_metadata = [],
      conflicts_counter = 0, history_counter = 0, escalations_counter = 0\<rparr>"

text \<open>\<open>AUTOINCREMENT\<close>: one more than the largest id ever used; an error after the last one.\<close>

definition next_id :: "i64 \<Rightarrow> i64 option" where
  "next_id counter = (if sint counter = i64_max then None else Some (counter + 1))"

section \<open>Opening\<close>

text \<open>
  \<open>disk\<close> is the database file at the path, if there is one; \<open>CREATE TABLE IF NOT EXISTS\<close> adds
  empty tables to a new file and leaves those of an existing one.
\<close>

definition init :: "string \<Rightarrow> database option \<Rightarrow> fault \<Rightarrow> sync_engine_db result" where
  "init db_path disk fault =
     (if fault \<noteq> None then Inl io_error
      else
        let file = (if db_path = '':memory:'' then None else disk)
        in Inr \<lparr>conn = (case file of None \<Rightarrow> empty_database | Some d \<Rightarrow> d), encryption_key_of = None\<rparr>)"

definition check_encryption_flag :: "sync_engine_db \<Rightarrow> fault \<Rightarrow> bool result" where
  "check_encryption_flag db fault =
     (if fault \<noteq> None then Inl io_error
      else Inr (case select_row fst ENCRYPTION_ENABLED_KEY (encryption_metadata (conn db)) of
                  None \<Rightarrow> False
                | Some (_, v) \<Rightarrow> v = ''true''))"

definition set_encryption_flag :: "sync_engine_db \<Rightarrow> fault \<Rightarrow> unit result \<times> sync_engine_db" where
  "set_encryption_flag db fault =
     (if fault \<noteq> None then (Inl io_error, db)
      else (Inr (), db\<lparr>conn := (conn db)\<lparr>encryption_metadata :=
              replace_row fst (ENCRYPTION_ENABLED_KEY, ''true'') (encryption_metadata (conn db))\<rparr>\<rparr>))"

text \<open>
  The first statement counts the envelopes, the second reads the first one; the cases of the
  decryption result are those of the \<open>match\<close>.
\<close>

definition verify_encryption_key :: "'z serde_scheme \<Rightarrow> sync_engine_db \<Rightarrow> fault \<Rightarrow> unit result" where
  "verify_encryption_key S db fault =
     (if fault = Some 0 then Inl io_error
      else case queued_envelopes (conn db) of
             [] \<Rightarrow> Inr ()
           | row # _ \<Rightarrow>
               if fault \<noteq> None then Inl io_error
               else case encryption_key_of db of
                      None \<Rightarrow> Inl EncryptionKeyMismatch
                    | Some key \<Rightarrow>
                        (case decrypt_data (cipher.truncate S) (qe_envelope_bytes row) key of
                           Inr _ \<Rightarrow> Inr ()
                         | Inl e \<Rightarrow> if e = DecryptionFailed then Inl EncryptionKeyMismatch else Inl e))"

definition init_with_encryption ::
  "'z serde_scheme \<Rightarrow> string \<Rightarrow> database option \<Rightarrow> encryption_key \<Rightarrow> fault \<Rightarrow> sync_engine_db result" where
  "init_with_encryption S db_path disk key fault =
     (case init db_path disk (if fault = Some 0 then fault else None) of
        Inl e \<Rightarrow> Inl e
      | Inr db \<Rightarrow>
          (case check_encryption_flag db (if fault = Some 1 then fault else None) of
             Inl e \<Rightarrow> Inl e
           | Inr was_encrypted \<Rightarrow>
               if \<not> was_encrypted then
                 (case set_encryption_flag db (if fault = Some 2 then fault else None) of
                    (Inl e, _) \<Rightarrow> Inl e
                  | (Inr _, db1) \<Rightarrow> Inr (db1\<lparr>encryption_key_of := Some key\<rparr>))
               else
                 let db1 = db\<lparr>encryption_key_of := Some key\<rparr>
                 in case verify_encryption_key S db1 (fault_after 2 fault) of
                      Inl e \<Rightarrow> Inl e
                    | Inr _ \<Rightarrow> Inr db1))"

definition encrypt_if_enabled ::
  "'z serde_scheme \<Rightarrow> sync_engine_db \<Rightarrow> encryption_nonce \<Rightarrow> bytes \<Rightarrow> bytes result" where
  "encrypt_if_enabled S db nonce plaintext =
     (case encryption_key_of db of
        Some key \<Rightarrow> encrypt_data (cipher.truncate S) nonce plaintext key
      | None \<Rightarrow> Inr plaintext)"

definition decrypt_if_needed :: "'z serde_scheme \<Rightarrow> sync_engine_db \<Rightarrow> bytes \<Rightarrow> bytes result" where
  "decrypt_if_needed S db ciphertext =
     (case encryption_key_of db of
        Some key \<Rightarrow> decrypt_data (cipher.truncate S) ciphertext key
      | None \<Rightarrow> Inr ciphertext)"

section \<open>Queued envelopes\<close>

definition envelope_row ::
  "transaction_envelope \<Rightarrow> string \<Rightarrow> i64 \<Rightarrow> tx_priority \<Rightarrow> u64 \<Rightarrow> bytes \<Rightarrow> queued_envelope_row" where
  "envelope_row envelope account sequence priority enqueued_at bs =
     \<lparr>qe_message_id = to_vec (message_id envelope), qe_source_account = account,
      qe_sequence = sequence, qe_priority = priority_to_i64 priority, qe_enqueued_at = enqueued_at,
      qe_envelope_bytes = bs\<rparr>"

definition enqueue_envelope ::
  "'z serde_scheme \<Rightarrow> sync_engine_db \<Rightarrow> encryption_nonce \<Rightarrow> transaction_envelope \<Rightarrow> string \<Rightarrow> i64
     \<Rightarrow> tx_priority \<Rightarrow> u64 \<Rightarrow> fault \<Rightarrow> unit result \<times> sync_engine_db" where
  "enqueue_envelope S db nonce envelope account sequence priority enqueued_at fault =
     (case encrypt_if_enabled S db nonce (envelope_to_vec S envelope) of
        Inl e \<Rightarrow> (Inl e, db)
      | Inr bs \<Rightarrow>
          if fault \<noteq> None then (Inl io_error, db)
          else (Inr (), db\<lparr>conn := (conn db)\<lparr>queued_envelopes :=
            replace_row qe_message_id (envelope_row envelope account sequence priority enqueued_at bs)
              (queued_envelopes (conn db))\<rparr>\<rparr>))"

text \<open>One transaction: a fault at any statement, or at the commit, rolls all of it back.\<close>

definition enqueue_transaction ::
  "'z serde_scheme \<Rightarrow> sync_engine_db \<Rightarrow> encryption_nonce \<Rightarrow> transaction_envelope \<Rightarrow> string \<Rightarrow> i64
     \<Rightarrow> tx_priority \<Rightarrow> u64 \<Rightarrow> fault \<Rightarrow> unit result \<times> sync_engine_db" where
  "enqueue_transaction S db nonce envelope account sequence priority enqueued_at fault =
     (case encrypt_if_enabled S db nonce (envelope_to_vec S envelope) of
        Inl e \<Rightarrow> (Inl e, db)
      | Inr bs \<Rightarrow>
          if fault \<noteq> None then (Inl io_error, db)
          else
            let d = conn db;
                d1 = d\<lparr>sequence_reservations :=
                  replace_row sr_source_account \<lparr>sr_source_account = account, sr_last_reserved = sequence\<rparr>
                    (sequence_reservations d)\<rparr>;
                d2 = d1\<lparr>queued_envelopes :=
                  replace_row qe_message_id (envelope_row envelope account sequence priority enqueued_at bs)
                    (queued_envelopes d1)\<rparr>;
                d3 = d2\<lparr>settlement_status_table :=
                  replace_row ss_message_id
                    \<lparr>ss_message_id = to_vec (message_id envelope), ss_status = as_str Queued,
                     ss_updated_at = enqueued_at\<rparr> (settlement_status_table d2)\<rparr>
            in (Inr (), db\<lparr>conn := d3\<rparr>))"

definition decode_record ::
  "'z serde_scheme \<Rightarrow> sync_engine_db \<Rightarrow> queued_envelope_row \<Rightarrow> queued_envelope_record result" where
  "decode_record S db row =
     (case decrypt_if_needed S db (qe_envelope_bytes row) of
        Inl e \<Rightarrow> Inl e
      | Inr bs \<Rightarrow>
          (case envelope_from_slice S bs of
             None \<Rightarrow> Inl deserialization_error
           | Some envelope \<Rightarrow>
               (case priority_try_from (qe_priority row) of
                  Inl e \<Rightarrow> Inl e
                | Inr p \<Rightarrow> Inr \<lparr>rec_envelope = envelope, rec_source_account = qe_source_account row,
                    rec_sequence = qe_sequence row, rec_priority = p, rec_enqueued_at = qe_enqueued_at row\<rparr>)))"

definition get_queued_envelope ::
  "'z serde_scheme \<Rightarrow> sync_engine_db \<Rightarrow> bytes32 \<Rightarrow> fault \<Rightarrow> queued_envelope_record option result" where
  "get_queued_envelope S db mid fault =
     (if fault \<noteq> None then Inl io_error
      else case select_row qe_message_id (to_vec mid) (queued_envelopes (conn db)) of
             None \<Rightarrow> Inr None
           | Some row \<Rightarrow> (case decode_record S db row of Inl e \<Rightarrow> Inl e | Inr r \<Rightarrow> Inr (Some r)))"

definition list_queued_envelopes ::
  "'z serde_scheme \<Rightarrow> sync_engine_db \<Rightarrow> fault \<Rightarrow> queued_envelope_record list result" where
  "list_queued_envelopes S db fault =
     (if fault \<noteq> None then Inl io_error
      else collect_results (map (decode_record S db) (queued_envelopes (conn db))))"

definition remove_queued_envelope :: "sync_engine_db \<Rightarrow> bytes32 \<Rightarrow> fault \<Rightarrow> unit result \<times> sync_engine_db" where
  "remove_queued_envelope db mid fault =
     (if fault \<noteq> None then (Inl io_error, db)
      else (Inr (), db\<lparr>conn := (conn db)\<lparr>queued_envelopes :=
              delete_rows qe_message_id (to_vec mid) (queued_envelopes (conn db))\<rparr>\<rparr>))"

section \<open>Settlement status\<close>

definition insert_history ::
  "bytes \<Rightarrow> string \<Rightarrow> string \<Rightarrow> u64 \<Rightarrow> database \<Rightarrow> database option" where
  "insert_history mid from_status to_status timestamp d =
     (case next_id (history_counter d) of
        None \<Rightarrow> None
      | Some i \<Rightarrow> Some (d\<lparr>settlement_history := settlement_history d @
            [\<lparr>sh_id = i, sh_message_id = mid, sh_from_status = from_status, sh_to_status = to_status,
              sh_timestamp = timestamp\<rparr>], history_counter := i\<rparr>))"

text \<open>
  Three statements, each its own transaction.  A failing lookup of the old status is not an
  error (\<open>unwrap_or_default\<close>): the history then records the empty string.
\<close>

definition set_settlement_status ::
  "sync_engine_db \<Rightarrow> bytes32 \<Rightarrow> settlement_status \<Rightarrow> u64 \<Rightarrow> fault \<Rightarrow> unit result \<times> sync_engine_db" where
  "set_settlement_status db mid st updated_at fault =
     (let key = to_vec mid;
          from_status =
            (if fault = Some 0 then ''''
             else case select_row ss_message_id key (settlement_status_table (conn db)) of
                    None \<Rightarrow> '''' | Some row \<Rightarrow> ss_status row)
      in if fault = Some 1 then (Inl io_error, db)
         else
           let d1 = (conn db)\<lparr>settlement_status_table :=
                 replace_row ss_message_id
                   \<lparr>ss_message_id = key, ss_status = as_str st, ss_updated_at = updated_at\<rparr>
                   (settlement_status_table (conn db))\<rparr>
           in if fault = Some 2 then (Inl io_error, db\<lparr>conn := d1\<rparr>)
              else (case insert_history key from_status (as_str st) updated_at d1 of
                      None \<Rightarrow> (Inl io_error, db\<lparr>conn := d1\<rparr>)
                    | Some d2 \<Rightarrow> (Inr (), db\<lparr>conn := d2\<rparr>)))"

record batch_update_report =
  applied :: "bytes32 list"
  rejected :: "(bytes32 \<times> string) list"

text \<open>
  One update of a batch: the new database and the reason of a rejection, \<open>None\<close> when it was
  applied; overall \<open>None\<close> for a failing statement.
\<close>

definition batch_one ::
  "bytes32 \<Rightarrow> settlement_status \<Rightarrow> u64 \<Rightarrow> database \<Rightarrow> (database \<times> string option) option" where
  "batch_one mid to_status updated_at d =
     (let key = to_vec mid
      in case select_row ss_message_id key (settlement_status_table d) of
           None \<Rightarrow> Some (d, Some ''Untracked envelope'')
         | Some row \<Rightarrow>
             let from_status = ss_status row;
                 is_valid = (case from_str from_status of
                     Inr current \<Rightarrow> can_transition_to current to_status
                   | Inl _ \<Rightarrow> False)
             in if \<not> is_valid then
                  Some (d, Some (''Illegal transition from '' @ [CHR 39] @ from_status @ [CHR 39] @ '' to '' @
                       [CHR 39] @ as_str to_status @ [CHR 39]))
                else
                  let d1 = d\<lparr>settlement_status_table :=
                        update_rows ss_message_id key
                          (\<lambda>r. r\<lparr>ss_status := as_str to_status, ss_updated_at := updated_at\<rparr>)
                          (settlement_status_table d)\<rparr>
                  in (case insert_history key from_status (as_str to_status) updated_at d1 of
                        None \<Rightarrow> None
                      | Some d2 \<Rightarrow> Some (d2, None)))"

fun batch_loop ::
  "(bytes32 \<times> settlement_status \<times> u64) list \<Rightarrow> database \<Rightarrow> batch_update_report
     \<Rightarrow> (database \<times> batch_update_report) option" where
  "batch_loop [] d report = Some (d, report)"
| "batch_loop ((mid, to_status, updated_at) # updates) d report =
     (case batch_one mid to_status updated_at d of
        None \<Rightarrow> None
      | Some (d1, None) \<Rightarrow> batch_loop updates d1 (report\<lparr>applied := applied report @ [mid]\<rparr>)
      | Some (d1, Some reason) \<Rightarrow>
          batch_loop updates d1 (report\<lparr>rejected := rejected report @ [(mid, reason)]\<rparr>))"

definition set_settlement_status_batch ::
  "sync_engine_db \<Rightarrow> (bytes32 \<times> settlement_status \<times> u64) list \<Rightarrow> fault
     \<Rightarrow> batch_update_report result \<times> sync_engine_db" where
  "set_settlement_status_batch db updates fault =
     (if fault \<noteq> None then (Inl io_error, db)
      else case batch_loop updates (conn db) \<lparr>applied = [], rejected = []\<rparr> of
             None \<Rightarrow> (Inl io_error, db)
           | Some (d, report) \<Rightarrow> (Inr report, db\<lparr>conn := d\<rparr>))"

definition get_settlement_status ::
  "sync_engine_db \<Rightarrow> bytes32 \<Rightarrow> fault \<Rightarrow> settlement_status option result" where
  "get_settlement_status db mid fault =
     (if fault \<noteq> None then Inl io_error
      else case select_row ss_message_id (to_vec mid) (settlement_status_table (conn db)) of
             None \<Rightarrow> Inr None
           | Some row \<Rightarrow> (case from_str (ss_status row) of Inl e \<Rightarrow> Inl e | Inr st \<Rightarrow> Inr (Some st)))"

record history_entry =
  he_message_id :: bytes32
  he_from_status :: string
  he_to_status :: string
  he_timestamp :: u64

text \<open>\<open>try_into().unwrap_or([0u8; 32])\<close>\<close>

definition id_or_zero :: "bytes \<Rightarrow> bytes32" where
  "id_or_zero bs = (case try_into32 bs of None \<Rightarrow> 0 | Some x \<Rightarrow> x)"

lemma id_or_zero_to_vec [simp]: "id_or_zero (to_vec x) = x"
  by (simp add: id_or_zero_def)

definition history_for :: "sync_engine_db \<Rightarrow> bytes32 \<Rightarrow> fault \<Rightarrow> history_entry list result" where
  "history_for db mid fault =
     (if fault \<noteq> None then Inl io_error
      else Inr (map (\<lambda>r. \<lparr>he_message_id = id_or_zero (sh_message_id r), he_from_status = sh_from_status r,
                          he_to_status = sh_to_status r, he_timestamp = sh_timestamp r\<rparr>)
            (sort_key (\<lambda>r. sint (sh_id r))
              (filter (\<lambda>r. sh_message_id r = to_vec mid) (settlement_history (conn db))))))"

section \<open>Sequence reservations\<close>

definition save_sequence_reservation ::
  "sync_engine_db \<Rightarrow> string \<Rightarrow> i64 \<Rightarrow> fault \<Rightarrow> unit result \<times> sync_engine_db" where
  "save_sequence_reservation db account last_res fault =
     (if fault \<noteq> None then (Inl io_error, db)
      else (Inr (), db\<lparr>conn := (conn db)\<lparr>sequence_reservations :=
              replace_row sr_source_account \<lparr>sr_source_account = account, sr_last_reserved = last_res\<rparr>
                (sequence_reservations (conn db))\<rparr>\<rparr>))"

definition load_sequence_reservation :: "sync_engine_db \<Rightarrow> string \<Rightarrow> fault \<Rightarrow> i64 option result" where
  "load_sequence_reservation db account fault =
     (if fault \<noteq> None then Inl io_error
      else Inr (map_option sr_last_reserved
        (select_row sr_source_account account (sequence_reservations (conn db)))))"

text \<open>The rows collected into a \<open>HashMap\<close>; its entries in some order.\<close>

definition list_all_sequence_reservations :: "sync_engine_db \<Rightarrow> fault \<Rightarrow> (string \<times> i64) list result" where
  "list_all_sequence_reservations db fault =
     (if fault \<noteq> None then Inl io_error
      else Inr (foldl (\<lambda>m r. AList.update (sr_source_account r) (sr_last_reserved r) m) []
        (sequence_reservations (conn db))))"

section \<open>Conflicts\<close>

definition record_conflict :: "sync_engine_db \<Rightarrow> conflict \<Rightarrow> u64 \<Rightarrow> fault \<Rightarrow> unit result \<times> sync_engine_db" where
  "record_conflict db c detected_at fault =
     (if fault \<noteq> None then (Inl io_error, db)
      else case next_id (conflicts_counter (conn db)) of
             None \<Rightarrow> (Inl io_error, db)
           | Some i \<Rightarrow> (Inr (), db\<lparr>conn := (conn db)\<lparr>
               conflicts := conflicts (conn db) @
                 [\<lparr>cf_id = i, cf_source_account = c_source_account c, cf_sequence = c_sequence c,
                   cf_envelope_a = to_vec (envelope_a c), cf_envelope_b = to_vec (envelope_b c),
                   cf_detected_at = detected_at, cf_resolved = 0\<rparr>],
               conflicts_counter := i\<rparr>\<rparr>))"

definition list_unresolved_conflicts :: "sync_engine_db \<Rightarrow> fault \<Rightarrow> conflict list result" where
  "list_unresolved_conflicts db fault =
     (if fault \<noteq> None then Inl io_error
      else Inr (map (\<lambda>r. \<lparr>c_source_account = cf_source_account r, c_sequence = cf_sequence r,
                          envelope_a = id_or_zero (cf_envelope_a r), envelope_b = id_or_zero (cf_envelope_b r)\<rparr>)
            (filter (\<lambda>r. cf_resolved r = 0) (conflicts (conn db)))))"

record conflict_record =
  cr_id :: i64
  cr_source_account :: string
  cr_sequence :: i64
  cr_envelope_a :: bytes32
  cr_envelope_b :: bytes32
  cr_detected_at :: u64
  cr_resolved :: bool

definition list_all_conflicts :: "sync_engine_db \<Rightarrow> fault \<Rightarrow> conflict_record list result" where
  "list_all_conflicts db fault =
     (if fault \<noteq> None then Inl io_error
      else Inr (map (\<lambda>r. \<lparr>cr_id = cf_id r, cr_source_account = cf_source_account r,
                          cr_sequence = cf_sequence r, cr_envelope_a = id_or_zero (cf_envelope_a r),
                          cr_envelope_b = id_or_zero (cf_envelope_b r), cr_detected_at = cf_detected_at r,
                          cr_resolved = (cf_resolved r \<noteq> 0)\<rparr>)
            (sort_key (\<lambda>r. sint (cf_id r)) (conflicts (conn db)))))"

record db_summary =
  queued_envelopes_count :: nat
  settlement_status_count :: nat
  sequence_reservations_count :: nat
  conflicts_count :: nat
  unresolved_conflicts_count :: nat
  oldest_queued_at :: "u64 option"
  newest_queued_at :: "u64 option"

text \<open>\<open>MIN\<close> and \<open>MAX\<close> of a column, \<open>NULL\<close> on an empty table.\<close>

definition sql_min :: "i64 list \<Rightarrow> i64 option" where
  "sql_min xs = (case xs of [] \<Rightarrow> None | x # ys \<Rightarrow> Some (foldl i64_minimum x ys))"

definition sql_max :: "i64 list \<Rightarrow> i64 option" where
  "sql_max xs = (case xs of [] \<Rightarrow> None | x # ys \<Rightarrow>
     Some (foldl (\<lambda>a b. if sint a \<le> sint b then b else a) x ys))"

definition summary :: "sync_engine_db \<Rightarrow> fault \<Rightarrow> db_summary result" where
  "summary db fault =
     (if fault \<noteq> None then Inl io_error
      else let d = conn db in Inr
        \<lparr>queued_envelopes_count = length (queued_envelopes d),
         settlement_status_count = length (settlement_status_table d),
         sequence_reservations_count = length (sequence_reservations d),
         conflicts_count = length (conflicts d),
         unresolved_conflicts_count = length (filter (\<lambda>r. cf_resolved r = 0) (conflicts d)),
         oldest_queued_at = sql_min (map qe_enqueued_at (queued_envelopes d)),
         newest_queued_at = sql_max (map qe_enqueued_at (queued_envelopes d))\<rparr>)"

section \<open>Escalations\<close>

text \<open>The insert, then the two status updates, each with its own statements.\<close>

definition save_escalation ::
  "'z serde_scheme \<Rightarrow> sync_engine_db \<Rightarrow> conflict \<Rightarrow> dispute_escalation \<Rightarrow> u64 \<Rightarrow> fault
     \<Rightarrow> i64 result \<times> sync_engine_db" where
  "save_escalation S db c esc created_at fault =
     (if fault = Some 0 then (Inl io_error, db)
      else case next_id (escalations_counter (conn db)) of
        None \<Rightarrow> (Inl io_error, db)
      | Some i \<Rightarrow>
          let row = \<lparr>dr_id = i, dr_source_account = c_source_account c, dr_sequence = c_sequence c,
                dr_envelope_a = to_vec (envelope_a c), dr_envelope_b = to_vec (envelope_b c),
                dr_initiator = initiator esc, dr_respondent = respondent esc,
                dr_tx_id = to_vec (de_tx_id esc), dr_proof_bytes = proof_to_vec S (de_proof esc),
                dr_created_at = created_at, dr_submitted = 0\<rparr>;
              db1 = db\<lparr>conn := (conn db)\<lparr>dispute_escalations := dispute_escalations (conn db) @ [row],
                escalations_counter := i\<rparr>\<rparr>
          in (case set_settlement_status db1 (envelope_a c) Disputed created_at
                     (if fault \<in> {Some 1, Some 2, Some 3} then fault_after 1 fault else None) of
                (Inl e, db2) \<Rightarrow> (Inl e, db2)
              | (Inr _, db2) \<Rightarrow>
                  (case set_settlement_status db2 (envelope_b c) Disputed created_at
                          (fault_after 4 fault) of
                     (Inl e, db3) \<Rightarrow> (Inl e, db3)
                   | (Inr _, db3) \<Rightarrow> (Inr i, db3))))"

record persisted_escalation =
  pe_id :: i64
  pe_source_account :: string
  pe_sequence :: i64
  pe_envelope_a :: bytes32
  pe_envelope_b :: bytes32
  pe_escalation :: dispute_escalation
  pe_created_at :: u64

definition decode_escalation ::
  "'z serde_scheme \<Rightarrow> dispute_escalation_row \<Rightarrow> persisted_escalation result" where
  "decode_escalation S r =
     (case proof_from_slice S (dr_proof_bytes r) of
        None \<Rightarrow> Inl deserialization_error
      | Some p \<Rightarrow> Inr \<lparr>pe_id = dr_id r, pe_source_account = dr_source_account r,
          pe_sequence = dr_sequence r, pe_envelope_a = id_or_zero (dr_envelope_a r),
          pe_envelope_b = id_or_zero (dr_envelope_b r),
          pe_escalation = \<lparr>initiator = dr_initiator r, respondent = dr_respondent r,
            de_tx_id = id_or_zero (dr_tx_id r), de_proof = p\<rparr>,
          pe_created_at = dr_created_at r\<rparr>)"

definition list_pending_escalations ::
  "'z serde_scheme \<Rightarrow> sync_engine_db \<Rightarrow> fault \<Rightarrow> persisted_escalation list result" where
  "list_pending_escalations S db fault =
     (if fault \<noteq> None then Inl io_error
      else collect_results (map (decode_escalation S)
        (filter (\<lambda>r. dr_submitted r = 0) (dispute_escalations (conn db)))))"

definition mark_escalation_submitted :: "sync_engine_db \<Rightarrow> i64 \<Rightarrow> fault \<Rightarrow> unit result \<times> sync_engine_db" where
  "mark_escalation_submitted db i fault =
     (if fault \<noteq> None then (Inl io_error, db)
      else (Inr (), db\<lparr>conn := (conn db)\<lparr>dispute_escalations :=
              update_rows dr_id i (\<lambda>r. r\<lparr>dr_submitted := 1\<rparr>) (dispute_escalations (conn db))\<rparr>\<rparr>))"

section \<open>Sweeping stale envelopes\<close>

text \<open>
  The ids the query selects: envelopes enqueued before the cutoff (compared as signed integers)
  whose status row says queued or propagating.
\<close>

definition stale_row :: "database \<Rightarrow> i64 \<Rightarrow> queued_envelope_row \<Rightarrow> bool" where
  "stale_row d cutoff q \<longleftrightarrow>
     sint (qe_enqueued_at q) < sint cutoff \<and>
     (case select_row ss_message_id (qe_message_id q) (settlement_status_table d) of
        None \<Rightarrow> False
      | Some s \<Rightarrow> ss_status s \<in> {''queued'', ''propagating''})"

fun sweep_loop :: "sync_engine_db \<Rightarrow> bytes32 list \<Rightarrow> u64 \<Rightarrow> fault \<Rightarrow> unit result \<times> sync_engine_db" where
  "sweep_loop db [] now fault = (Inr (), db)"
| "sweep_loop db (mid # mids) now fault =
     (case set_settlement_status db mid Failed now
             (if fault \<in> {Some 0, Some 1, Some 2} then fault else None) of
        (Inl e, db1) \<Rightarrow> (Inl e, db1)
      | (Inr _, db1) \<Rightarrow> sweep_loop db1 mids now (fault_after 3 fault))"

definition sweep_stale_envelopes ::
  "sync_engine_db \<Rightarrow> u64 \<Rightarrow> u64 \<Rightarrow> fault \<Rightarrow> bytes32 list result \<times> sync_engine_db" where
  "sweep_stale_envelopes db max_age_secs now fault =
     (let cutoff = u64_saturating_sub now max_age_secs
      in if fault = Some 0 then (Inl io_error, db)
         else
           let stale_ids = List.map_filter (\<lambda>q. try_into32 (qe_message_id q))
                 (filter (stale_row (conn db) cutoff) (queued_envelopes (conn db)))
           in (case sweep_loop db stale_ids now (fault_after 1 fault) of
                 (Inl e, db1) \<Rightarrow> (Inl e, db1)
               | (Inr _, db1) \<Rightarrow> (Inr stale_ids, db1)))"

section \<open>Snapshots\<close>

definition take_snapshot :: "database \<Rightarrow> db_snapshot" where
  "take_snapshot d =
     \<lparr>schema_version = DB_SNAPSHOT_SCHEMA_VERSION,
      snap_queued_envelopes = queued_envelopes d,
      snap_settlement_status = settlement_status_table d,
      snap_sequence_reservations = sequence_reservations d,
      snap_conflicts = conflicts d,
      snap_settlement_history = settlement_history d,
      snap_dispute_escalations = dispute_escalations d\<rparr>"

definition export_snapshot :: "'z serde_scheme \<Rightarrow> sync_engine_db \<Rightarrow> fault \<Rightarrow> bytes result" where
  "export_snapshot S db fault =
     (if fault \<noteq> None then Inl io_error else Inr (snapshot_to_vec S (take_snapshot (conn db))))"

record import_report =
  queued_envelopes_imported :: usize
  settlement_status_imported :: usize
  sequence_reservations_imported :: usize
  conflicts_imported :: usize
  settlement_history_imported :: usize
  dispute_escalations_imported :: usize

definition existing_rows :: "database \<Rightarrow> nat" where
  "existing_rows d =
     length (queued_envelopes d) + length (settlement_status_table d) +
     length (sequence_reservations d) + length (conflicts d) +
     length (settlement_history d) + length (dispute_escalations d)"

text \<open>\<open>AUTOINCREMENT\<close> after rows with explicit ids: the counter is the largest id seen.\<close>

definition bump_counter :: "i64 \<Rightarrow> i64 list \<Rightarrow> i64" where
  "bump_counter counter ids = foldl (\<lambda>a b. if sint a \<le> sint b then b else a) counter ids"

text \<open>The inserts of one import; \<open>None\<close> is a violated primary key.\<close>

definition insert_snapshot :: "db_snapshot \<Rightarrow> database \<Rightarrow> database option" where
  "insert_snapshot s d =
     (case insert_all (insert_row qe_message_id) (snap_queued_envelopes s) (queued_envelopes d) of
        None \<Rightarrow> None
      | Some qs \<Rightarrow>
     (case insert_all (insert_row ss_message_id) (snap_settlement_status s) (settlement_status_table d) of
        None \<Rightarrow> None
      | Some ss \<Rightarrow>
     (case insert_all (insert_row sr_source_account) (snap_sequence_reservations s) (sequence_reservations d) of
        None \<Rightarrow> None
      | Some rs \<Rightarrow>
     (case insert_all (insert_row_by_id cf_id) (snap_conflicts s) (conflicts d) of
        None \<Rightarrow> None
      | Some cs \<Rightarrow>
     (case insert_all (insert_row_by_id sh_id) (snap_settlement_history s) (settlement_history d) of
        None \<Rightarrow> None
      | Some hs \<Rightarrow>
     (case insert_all (insert_row_by_id dr_id) (snap_dispute_escalations s) (dispute_escalations d) of
        None \<Rightarrow> None
      | Some es \<Rightarrow> Some
         (d\<lparr>queued_envelopes := qs, settlement_status_table := ss, sequence_reservations := rs,
            conflicts := cs, settlement_history := hs, dispute_escalations := es,
            conflicts_counter := bump_counter (conflicts_counter d) (map cf_id (snap_conflicts s)),
            history_counter := bump_counter (history_counter d) (map sh_id (snap_settlement_history s)),
            escalations_counter :=
              bump_counter (escalations_counter d) (map dr_id (snap_dispute_escalations s))\<rparr>)))))))"

definition import_snapshot ::
  "'z serde_scheme \<Rightarrow> sync_engine_db \<Rightarrow> bytes \<Rightarrow> fault \<Rightarrow> import_report result \<times> sync_engine_db" where
  "import_snapshot S db data fault =
     (case snapshot_from_slice S data of
        None \<Rightarrow> (Inl deserialization_error, db)
      | Some s \<Rightarrow>
          if schema_version s \<noteq> DB_SNAPSHOT_SCHEMA_VERSION
          then (Inl (IncompatibleSnapshotSchemaVersion (schema_version s) DB_SNAPSHOT_SCHEMA_VERSION), db)
          else if fault \<noteq> None then (Inl io_error, db)
          else if existing_rows (conn db) \<noteq> 0 then (Inl ImportTargetNotEmpty, db)
          else (case insert_snapshot s (conn db) of
                  None \<Rightarrow> (Inl io_error, db)
                | Some d \<Rightarrow> (Inr
                    \<lparr>queued_envelopes_imported = length (snap_queued_envelopes s),
                     settlement_status_imported = length (snap_settlement_status s),
                     sequence_reservations_imported = length (snap_sequence_reservations s),
                     conflicts_imported = length (snap_conflicts s),
                     settlement_history_imported = length (snap_settlement_history s),
                     dispute_escalations_imported = length (snap_dispute_escalations s)\<rparr>,
                    db\<lparr>conn := d\<rparr>)))"

end
