(* ===== verification/Storage_Laws.thy ===== *)
theory Storage_Laws
  imports Storage
begin

text \<open>
  Properties of the durable storage: the three primary-keyed tables are keyed tables, the
  key and id invariants hold through every operation and every fault, queries after updates,
  snapshots, batches, sweeps and escalations.
\<close>

interpretation queued: keyed_table qe_message_id "[]" "replace_row qe_message_id"
    "delete_rows qe_message_id" "select_row qe_message_id" "\<lambda>rows. rows"
  by (rule keyed_table_rows)

interpretation statuses: keyed_table ss_message_id "[]" "replace_row ss_message_id"
    "delete_rows ss_message_id" "select_row ss_message_id" "\<lambda>rows. rows"
  by (rule keyed_table_rows)

interpretation reservations: keyed_table sr_source_account "[]" "replace_row sr_source_account"
    "delete_rows sr_source_account" "select_row sr_source_account" "\<lambda>rows. rows"
  by (rule keyed_table_rows)

lemmas table_lookups [table_simps] =
  queued.lookup_upsert statuses.lookup_upsert reservations.lookup_upsert queued.lookup_remove

section \<open>The invariant\<close>

definition ids_ok :: "i64 list \<Rightarrow> i64 \<Rightarrow> bool" where
  "ids_ok ids counter \<longleftrightarrow>
     sorted_wrt (<) (map sint ids) \<and> (\<forall>i \<in> set ids. sint i \<le> sint counter)"

definition db_inv :: "database \<Rightarrow> bool" where
  "db_inv d \<longleftrightarrow>
     distinct (map qe_message_id (queued_envelopes d)) \<and>
     distinct (map ss_message_id (settlement_status_table d)) \<and>
     distinct (map sr_source_account (sequence_reservations d)) \<and>
     ids_ok (map cf_id (conflicts d)) (conflicts_counter d) \<and>
     ids_ok (map sh_id (settlement_history d)) (history_counter d) \<and>
     ids_ok (map dr_id (dispute_escalations d)) (escalations_counter d)"

lemma db_inv_empty: "db_inv empty_database"
  by (simp add: db_inv_def empty_database_def ids_ok_def)

lemma next_id_Some: "next_id counter = Some i \<Longrightarrow> sint i = sint counter + 1"
proof -
  assume "next_id counter = Some i"
  then have i: "i = counter + 1" and "sint counter \<noteq> i64_max"
    by (auto simp: next_id_def split: if_splits)
  then have "sint counter < i64_max" using sint_i64_le [of counter] by linarith
  with i show ?thesis by (simp add: sint_i64_succ)
qed

lemma ids_ok_append: "ids_ok ids counter \<Longrightarrow> next_id counter = Some i \<Longrightarrow> ids_ok (ids @ [i]) i"
  using next_id_Some [of counter i] by (force simp: ids_ok_def sorted_wrt_append)

lemma distinct_ids_ok: "ids_ok ids counter \<Longrightarrow> distinct ids"
  by (auto simp: ids_ok_def strict_sorted_iff distinct_map)

lemma insert_history_Some:
  "insert_history mid f t ts d = Some d' \<Longrightarrow>
     queued_envelopes d' = queued_envelopes d \<and>
     settlement_status_table d' = settlement_status_table d \<and>
     sequence_reservations d' = sequence_reservations d \<and>
     conflicts d' = conflicts d \<and> dispute_escalations d' = dispute_escalations d \<and>
     conflicts_counter d' = conflicts_counter d \<and> escalations_counter d' = escalations_counter d \<and>
     encryption_metadata d' = encryption_metadata d \<and>
     (\<exists>i. next_id (history_counter d) = Some i \<and> history_counter d' = i \<and>
        settlement_history d' = settlement_history d @
          [\<lparr>sh_id = i, sh_message_id = mid, sh_from_status = f, sh_to_status = t, sh_timestamp = ts\<rparr>])"
  by (auto simp: insert_history_def split: option.splits)

lemma insert_history_inv: "db_inv d \<Longrightarrow> insert_history mid f t ts d = Some d' \<Longrightarrow> db_inv d'"
  using insert_history_Some [of mid f t ts d d'] by (auto simp: db_inv_def ids_ok_append)

lemma db_inv_replace [simp]:
  "db_inv d \<Longrightarrow> db_inv (d\<lparr>queued_envelopes := replace_row qe_message_id r (queued_envelopes d)\<rparr>)"
  "db_inv d \<Longrightarrow> db_inv (d\<lparr>settlement_status_table := replace_row ss_message_id s (settlement_status_table d)\<rparr>)"
  "db_inv d \<Longrightarrow> db_inv (d\<lparr>sequence_reservations := replace_row sr_source_account q (sequence_reservations d)\<rparr>)"
  "db_inv d \<Longrightarrow> db_inv (d\<lparr>queued_envelopes := delete_rows qe_message_id k (queued_envelopes d)\<rparr>)"
  by (simp_all add: db_inv_def queued.rows_upsert statuses.rows_upsert reservations.rows_upsert queued.rows_remove)

lemma set_settlement_status_inv:
  "db_inv (conn db) \<Longrightarrow> db_inv (conn (snd (set_settlement_status db mid st t fault)))"
  by (auto simp: set_settlement_status_def Let_def split: option.splits
      intro: insert_history_inv [OF db_inv_replace(2)])

lemma batch_one_inv:
  assumes "batch_one mid to_status updated_at d = Some (d', r)" and "db_inv d"
  shows "db_inv d'"
proof -
  have upd: "db_inv (d\<lparr>settlement_status_table :=
      update_rows ss_message_id k (\<lambda>r. r\<lparr>ss_status := s, ss_updated_at := t\<rparr>) (settlement_status_table d)\<rparr>)" for k s t
    using assms(2) by (simp add: db_inv_def map_key_update)
  show ?thesis
    using assms by (auto simp: batch_one_def Let_def split: option.splits if_splits
        intro: insert_history_inv [OF upd])
qed

lemma batch_loop_inv:
  "batch_loop updates d report = Some (d', report') \<Longrightarrow> db_inv d \<Longrightarrow> db_inv d'"
  by (induction updates d report rule: batch_loop.induct)
    (auto split: option.splits dest: batch_one_inv)

lemma record_conflict_inv: "db_inv (conn db) \<Longrightarrow> db_inv (conn (snd (record_conflict db c t fault)))"
  by (auto simp: record_conflict_def db_inv_def ids_ok_append split: option.splits)

lemma save_escalation_inv: "db_inv (conn db) \<Longrightarrow> db_inv (conn (snd (save_escalation S db c esc t fault)))"
proof (cases "next_id (escalations_counter (conn db))")
  case None
  then show "db_inv (conn db) \<Longrightarrow> ?thesis" by (simp add: save_escalation_def)
next
  case (Some i)
  assume inv: "db_inv (conn db)"
  let ?row = "\<lparr>dr_id = i, dr_source_account = c_source_account c, dr_sequence = c_sequence c,
      dr_envelope_a = to_vec (envelope_a c), dr_envelope_b = to_vec (envelope_b c),
      dr_initiator = initiator esc, dr_respondent = respondent esc,
      dr_tx_id = to_vec (de_tx_id esc), dr_proof_bytes = proof_to_vec S (de_proof esc),
      dr_created_at = t, dr_submitted = 0\<rparr>"
  let ?db1 = "db\<lparr>conn := (conn db)\<lparr>dispute_escalations := dispute_escalations (conn db) @ [?row],
      escalations_counter := i\<rparr>\<rparr>"
  have "ids_ok (map dr_id (dispute_escalations (conn db)) @ [i]) i"
    using inv by (intro ids_ok_append [OF _ Some]) (simp add: db_inv_def)
  then have i1: "db_inv (conn ?db1)" using inv by (simp add: db_inv_def)
  have i2: "db_inv (conn (snd (set_settlement_status ?db1 (envelope_a c) Disputed t f)))" for f
    by (rule set_settlement_status_inv [OF i1])
  have i3: "db_inv (conn (snd (set_settlement_status
      (snd (set_settlement_status ?db1 (envelope_a c) Disputed t f)) (envelope_b c) Disputed t g)))" for f g
    by (rule set_settlement_status_inv [OF i2])
  obtain r2 db2 where s2: "set_settlement_status ?db1 (envelope_a c) Disputed t
      (if fault \<in> {Some 1, Some 2, Some 3} then fault_after 1 fault else None) = (r2, db2)"
    by (cases "set_settlement_status ?db1 (envelope_a c) Disputed t
      (if fault \<in> {Some 1, Some 2, Some 3} then fault_after 1 fault else None)")
  obtain r3 db3 where s3: "set_settlement_status db2 (envelope_b c) Disputed t (fault_after 4 fault) = (r3, db3)"
    by (cases "set_settlement_status db2 (envelope_b c) Disputed t (fault_after 4 fault)")
  have "db_inv (conn db2)" "db_inv (conn db3)"
    using i2 i3 s2 s3 by (metis snd_conv)+
  then show ?thesis
    using inv Some s2 s3 by (auto simp: save_escalation_def Let_def split: sum.splits)
qed

lemma mark_escalation_inv: "db_inv (conn db) \<Longrightarrow> db_inv (conn (snd (mark_escalation_submitted db i fault)))"
proof -
  have "map dr_id (update_rows dr_id i (\<lambda>r. r\<lparr>dr_submitted := 1\<rparr>) rows) = map dr_id rows"
    for rows :: "dispute_escalation_row list"
    by (rule map_key_update) simp
  then show "db_inv (conn db) \<Longrightarrow> ?thesis" by (auto simp: mark_escalation_submitted_def db_inv_def)
qed

lemma sweep_loop_inv: "db_inv (conn db) \<Longrightarrow> db_inv (conn (snd (sweep_loop db mids now fault)))"
proof (induction db mids now fault rule: sweep_loop.induct)
  case (2 db mid mids now fault)
  show ?case
    using 2 set_settlement_status_inv [OF 2(2), of mid Failed now "if fault \<in> {Some 0, Some 1, Some 2} then fault else None"]
    by (auto split: prod.splits sum.splits)
qed simp

section \<open>Imports keep the invariant\<close>

lemma bump_counter_ge: "sint counter \<le> sint (bump_counter counter ids) \<and>
    (\<forall>i \<in> set ids. sint i \<le> sint (bump_counter counter ids))"
proof (induction ids arbitrary: counter)
  case (Cons i ids)
  let ?c = "if sint counter \<le> sint i then i else counter"
  have "sint counter \<le> sint ?c" "sint i \<le> sint ?c" by auto
  with Cons.IH [of ?c] show ?case by (fastforce simp: bump_counter_def)
qed (simp add: bump_counter_def)

lemma insert_all_by_id_sorted:
  "insert_all (insert_row_by_id key) rs acc = Some out \<Longrightarrow>
   sorted_wrt (<) (map (\<lambda>x. sint (key x)) acc) \<Longrightarrow>
   sorted_wrt (<) (map (\<lambda>x. sint (key x)) out) \<and> set out = set acc \<union> set rs"
proof (induction rs arbitrary: acc)
  case (Cons r rs)
  let ?f = "\<lambda>x. sint (key x)"
  have fresh: "key r \<notin> key ` set acc"
    and rest: "insert_all (insert_row_by_id key) rs (insort_key ?f r acc) = Some out"
    using Cons.prems(1) by (auto simp: insert_row_by_id_Some split: option.splits)
  have "sorted (map ?f acc)" "distinct (map ?f acc)"
    using Cons.prems(2) by (simp_all add: strict_sorted_iff)
  moreover have "?f r \<notin> ?f ` set acc" using fresh by (auto simp: sint_i64_eq_iff)
  moreover have "r \<notin> set acc" using fresh by auto
  ultimately have "sorted (map ?f (insort_key ?f r acc))" "distinct (map ?f (insort_key ?f r acc))"
    by (simp_all add: sorted_insort_key distinct_map set_insort_key distinct_insort)
  then have "sorted_wrt (<) (map ?f (insort_key ?f r acc))" by (simp add: strict_sorted_iff)
  from Cons.IH [OF rest this] show ?case by (auto simp: set_insort_key)
qed simp

lemma insert_all_by_id_ids_ok:
  assumes "insert_all (insert_row_by_id key) rs [] = Some out"
  shows "ids_ok (map key out) (bump_counter counter (map key rs))"
  using insert_all_by_id_sorted [OF assms] bump_counter_ge [of counter "map key rs"]
  by (simp add: ids_ok_def comp_def)

lemma insert_snapshot_inv:
  assumes "insert_snapshot s d = Some d'" and "existing_rows d = 0"
  shows "db_inv d'"
proof -
  have e: "queued_envelopes d = []" "settlement_status_table d = []" "sequence_reservations d = []"
    "conflicts d = []" "settlement_history d = []" "dispute_escalations d = []"
    using assms(2) by (simp_all add: existing_rows_def)
  show ?thesis
    using assms(1)
    by (auto simp: insert_snapshot_def e db_inv_def split: option.splits
        dest: insert_all_rows_distinct insert_all_by_id_ids_ok)
qed

lemma import_snapshot_inv: "db_inv (conn db) \<Longrightarrow> db_inv (conn (snd (import_snapshot S db data fault)))"
  by (auto simp: import_snapshot_def intro: insert_snapshot_inv split: option.splits)

section \<open>Every call of the database\<close>

text \<open>The operations of \<open>SyncEngineDb\<close> that write, with the arguments their callers give them.\<close>

datatype db_call =
    EnqueueEnvelope encryption_nonce transaction_envelope string i64 tx_priority u64
  | EnqueueTransaction encryption_nonce transaction_envelope string i64 tx_priority u64
  | RemoveQueuedEnvelope bytes32
  | SetSettlementStatus bytes32 settlement_status u64
  | SetSettlementStatusBatch "(bytes32 \<times> settlement_status \<times> u64) list"
  | SaveSequenceReservation string i64
  | RecordConflict conflict u64
  | SaveEscalation conflict dispute_escalation u64
  | MarkEscalationSubmitted i64
  | SweepStaleEnvelopes u64 u64
  | ImportSnapshot bytes
  | SetEncryptionFlag

fun db_step :: "'z serde_scheme \<Rightarrow> db_call \<times> fault \<Rightarrow> sync_engine_db \<Rightarrow> sync_engine_db" where
  "db_step S (EnqueueEnvelope n e a s p t, f) db = snd (enqueue_envelope S db n e a s p t f)"
| "db_step S (EnqueueTransaction n e a s p t, f) db = snd (enqueue_transaction S db n e a s p t f)"
| "db_step S (RemoveQueuedEnvelope m, f) db = snd (remove_queued_envelope db m f)"
| "db_step S (SetSettlementStatus m s t, f) db = snd (set_settlement_status db m s t f)"
| "db_step S (SetSettlementStatusBatch us, f) db = snd (set_settlement_status_batch db us f)"
| "db_step S (SaveSequenceReservation a s, f) db = snd (save_sequence_reservation db a s f)"
| "db_step S (RecordConflict c t, f) db = snd (record_conflict db c t f)"
| "db_step S (SaveEscalation c e t, f) db = snd (save_escalation S db c e t f)"
| "db_step S (MarkEscalationSubmitted i, f) db = snd (mark_escalation_submitted db i f)"
| "db_step S (SweepStaleEnvelopes m t, f) db = snd (sweep_stale_envelopes db m t f)"
| "db_step S (ImportSnapshot bs, f) db = snd (import_snapshot S db bs f)"
| "db_step S (SetEncryptionFlag, f) db = snd (set_encryption_flag db f)"

lemma enqueue_envelope_inv:
  "db_inv (conn db) \<Longrightarrow> db_inv (conn (snd (enqueue_envelope S db n e a s p t f)))"
  by (auto simp: enqueue_envelope_def split: sum.splits)

lemma enqueue_transaction_inv:
  "db_inv (conn db) \<Longrightarrow> db_inv (conn (snd (enqueue_transaction S db n e a s p t f)))"
  by (auto simp: enqueue_transaction_def Let_def db_inv_def queued.rows_upsert statuses.rows_upsert
      reservations.rows_upsert split: sum.splits)

lemma sweep_stale_inv: "db_inv (conn db) \<Longrightarrow> db_inv (conn (snd (sweep_stale_envelopes db m now fault)))"
  using sweep_loop_inv [of db _ now "fault_after 1 fault"]
  by (auto simp: sweep_stale_envelopes_def Let_def split: prod.splits sum.splits)
     (metis snd_conv)+

lemma db_step_inv: "db_inv (conn db) \<Longrightarrow> db_inv (conn (db_step S cf db))"
proof (cases cf)
  case (Pair c f)
  assume "db_inv (conn db)"
  then show ?thesis unfolding Pair
    by (cases c)
      (auto simp: enqueue_envelope_inv enqueue_transaction_inv remove_queued_envelope_def
        set_settlement_status_inv set_settlement_status_batch_def batch_loop_inv
        save_sequence_reservation_def record_conflict_inv save_escalation_inv mark_escalation_inv
        sweep_stale_inv import_snapshot_inv set_encryption_flag_def db_inv_def [of "_\<lparr>encryption_metadata := _\<rparr>"]
        split: option.splits, auto simp: db_inv_def)
qed

section \<open>Stored statuses and history\<close>

definition stored_status :: "database \<Rightarrow> bytes32 \<Rightarrow> settlement_status option" where
  "stored_status d mid =
     (case select_row ss_message_id (to_vec mid) (settlement_status_table d) of
        None \<Rightarrow> None | Some row \<Rightarrow> status_decode (ss_status row))"

definition statuses_ok :: "database \<Rightarrow> bool" where
  "statuses_ok d \<longleftrightarrow> (\<forall>row \<in> set (settlement_status_table d). \<exists>s. ss_status row = as_str s)"

lemma stored_status_frame:
  "settlement_status_table d = settlement_status_table d' \<Longrightarrow> stored_status d = stored_status d'"
  by (rule ext) (simp add: stored_status_def)

lemma stored_status_replace:
  "stored_status (d\<lparr>settlement_status_table := replace_row ss_message_id
     \<lparr>ss_message_id = to_vec mid, ss_status = as_str st, ss_updated_at = t\<rparr> (settlement_status_table d)\<rparr>) k =
   (if k = mid then Some st else stored_status d k)"
  by (simp add: stored_status_def statuses.lookup_upsert status_codec.dec_enc)

lemma select_status_mem:
  "select_row ss_message_id k rows = Some row \<Longrightarrow> row \<in> set rows \<and> ss_message_id row = k"
  by (induction rows) (auto simp: select_row_def split: if_splits)

lemma get_settlement_status_stored:
  assumes "statuses_ok (conn db)"
  shows "get_settlement_status db mid None = Inr (stored_status (conn db) mid)"
proof (cases "select_row ss_message_id (to_vec mid) (settlement_status_table (conn db))")
  case None
  then show ?thesis by (simp add: get_settlement_status_def stored_status_def)
next
  case (Some row)
  then obtain s where "ss_status row = as_str s"
    using assms select_status_mem [OF Some] by (auto simp: statuses_ok_def)
  with Some show ?thesis
    by (simp add: get_settlement_status_def stored_status_def status_codec.dec_enc)
qed

text \<open>The statement triple of \<open>set_settlement_status\<close>, when all three run.\<close>

lemma set_settlement_status_Inr:
  assumes "set_settlement_status db mid st t fault = (Inr (), db')"
  shows "stored_status (conn db') k = (if k = mid then Some st else stored_status (conn db) k)"
    and "queued_envelopes (conn db') = queued_envelopes (conn db)"
    and "sequence_reservations (conn db') = sequence_reservations (conn db)"
    and "conflicts (conn db') = conflicts (conn db)"
    and "dispute_escalations (conn db') = dispute_escalations (conn db)"
    and "encryption_key_of db' = encryption_key_of db"
    and "\<exists>i. next_id (history_counter (conn db)) = Some i \<and>
       settlement_history (conn db') = settlement_history (conn db) @
         [\<lparr>sh_id = i, sh_message_id = to_vec mid,
           sh_from_status = (if fault = Some 0 then '''' else
             case select_row ss_message_id (to_vec mid) (settlement_status_table (conn db)) of
               None \<Rightarrow> '''' | Some row \<Rightarrow> ss_status row),
           sh_to_status = as_str st, sh_timestamp = t\<rparr>]"
    and "settlement_status_table (conn db') = replace_row ss_message_id
       \<lparr>ss_message_id = to_vec mid, ss_status = as_str st, ss_updated_at = t\<rparr>
       (settlement_status_table (conn db))"
proof -
  let ?from = "if fault = Some 0 then '''' else
      case select_row ss_message_id (to_vec mid) (settlement_status_table (conn db)) of
        None \<Rightarrow> '''' | Some row \<Rightarrow> ss_status row"
  let ?d1 = "(conn db)\<lparr>settlement_status_table := replace_row ss_message_id
      \<lparr>ss_message_id = to_vec mid, ss_status = as_str st, ss_updated_at = t\<rparr>
      (settlement_status_table (conn db))\<rparr>"
  obtain d2 where d2: "insert_history (to_vec mid) ?from (as_str st) t ?d1 = Some d2"
    and db': "db' = db\<lparr>conn := d2\<rparr>"
    using assms by (auto simp: set_settlement_status_def Let_def split: if_splits option.splits)
  note h = insert_history_Some [OF d2]
  have "stored_status d2 = stored_status ?d1" using h by (intro stored_status_frame) simp
  then show "stored_status (conn db') k = (if k = mid then Some st else stored_status (conn db) k)"
    by (simp add: db' stored_status_replace)
  show "\<exists>i. next_id (history_counter (conn db)) = Some i \<and>
       settlement_history (conn db') = settlement_history (conn db) @
         [\<lparr>sh_id = i, sh_message_id = to_vec mid, sh_from_status = ?from,
           sh_to_status = as_str st, sh_timestamp = t\<rparr>]"
    using h by (auto simp: db')
  show "queued_envelopes (conn db') = queued_envelopes (conn db)"
    and "sequence_reservations (conn db') = sequence_reservations (conn db)"
    and "conflicts (conn db') = conflicts (conn db)"
    and "dispute_escalations (conn db') = dispute_escalations (conn db)"
    and "encryption_key_of db' = encryption_key_of db"
    and "settlement_status_table (conn db') = replace_row ss_message_id
       \<lparr>ss_message_id = to_vec mid, ss_status = as_str st, ss_updated_at = t\<rparr>
       (settlement_status_table (conn db))"
    using h by (simp_all add: db')
qed

lemma statuses_ok_replace:
  "statuses_ok d \<Longrightarrow> statuses_ok (d\<lparr>settlement_status_table := replace_row ss_message_id
     \<lparr>ss_message_id = k, ss_status = as_str st, ss_updated_at = t\<rparr> (settlement_status_table d)\<rparr>)"
  by (auto simp: statuses_ok_def replace_row_def)

lemma set_settlement_status_ok:
  "statuses_ok (conn db) \<Longrightarrow> statuses_ok (conn (snd (set_settlement_status db mid st t fault)))"
proof -
  assume "statuses_ok (conn db)"
  then have "statuses_ok ((conn db)\<lparr>settlement_status_table := replace_row ss_message_id
      \<lparr>ss_message_id = to_vec mid, ss_status = as_str st, ss_updated_at = t\<rparr> (settlement_status_table (conn db))\<rparr>)"
    by (rule statuses_ok_replace)
  moreover have "statuses_ok d'" if "insert_history a b c e d = Some d'" "statuses_ok d" for a b c e d d'
    using insert_history_Some [OF that(1)] that(2) by (simp add: statuses_ok_def)
  ultimately show ?thesis
    using \<open>statuses_ok (conn db)\<close>
    by (auto simp: set_settlement_status_def Let_def split: option.splits)
qed

text \<open>Whatever happens, the call leaves the status either as it was or as it was asked to be.\<close>

lemma set_settlement_status_any:
  "set_settlement_status db mid st t fault = (r, db') \<Longrightarrow>
     (stored_status (conn db') = stored_status (conn db) \<or>
      stored_status (conn db') = (stored_status (conn db))(mid \<mapsto> st)) \<and>
     queued_envelopes (conn db') = queued_envelopes (conn db) \<and>
     sequence_reservations (conn db') = sequence_reservations (conn db) \<and>
     encryption_key_of db' = encryption_key_of db"
proof (cases r)
  case (Inr u)
  assume "set_settlement_status db mid st t fault = (r, db')"
  then have s: "set_settlement_status db mid st t fault = (Inr (), db')" using Inr by simp
  have "stored_status (conn db') = (stored_status (conn db))(mid \<mapsto> st)"
    using set_settlement_status_Inr(1) [OF s] by (intro ext) simp
  then show ?thesis using set_settlement_status_Inr(2,3,6) [OF s] by simp
next
  case (Inl e)
  assume a: "set_settlement_status db mid st t fault = (r, db')"
  have "stored_status ((conn db)\<lparr>settlement_status_table := replace_row ss_message_id
      \<lparr>ss_message_id = to_vec mid, ss_status = as_str st, ss_updated_at = t\<rparr>
      (settlement_status_table (conn db))\<rparr>) = (stored_status (conn db))(mid \<mapsto> st)"
    by (rule ext) (simp add: stored_status_replace)
  then show ?thesis
    using a Inl by (auto simp: set_settlement_status_def Let_def split: if_splits option.splits)
qed

section \<open>Records of the queue\<close>

definition envelope_codec_ok :: "'z serde_scheme \<Rightarrow> transaction_envelope \<Rightarrow> bool" where
  "envelope_codec_ok S e \<longleftrightarrow> envelope_from_slice S (envelope_to_vec S e) = Some e"

lemma decode_record_envelope_row:
  assumes "cipher_ok (cipher.truncate S)" and "envelope_codec_ok S e"
    and "encrypt_if_enabled S db nonce (envelope_to_vec S e) = Inr bs"
    and "encryption_key_of db' = encryption_key_of db"
  shows "decode_record S db' (envelope_row e a sq p t bs) =
     Inr \<lparr>rec_envelope = e, rec_source_account = a, rec_sequence = sq, rec_priority = p, rec_enqueued_at = t\<rparr>"
proof -
  have "decrypt_if_needed S db' bs = Inr (envelope_to_vec S e)"
    using assms(1,3,4)
    by (auto simp: decrypt_if_needed_def encrypt_if_enabled_def split: option.splits
        intro: decrypt_data_encrypt_data)
  then show ?thesis
    using assms(2) by (simp add: decode_record_def envelope_row_def envelope_codec_ok_def)
qed

lemma decode_record_key: "encryption_key_of db' = encryption_key_of db \<Longrightarrow> decode_record S db' = decode_record S db"
  by (rule ext) (simp add: decode_record_def decrypt_if_needed_def)

text \<open>The three effects of a successful transaction.\<close>

lemma enqueue_transaction_Inr:
  assumes "enqueue_transaction S db nonce e a sq p t fault = (Inr (), db')"
  obtains bs where "encrypt_if_enabled S db nonce (envelope_to_vec S e) = Inr bs"
    and "queued_envelopes (conn db') =
       replace_row qe_message_id (envelope_row e a sq p t bs) (queued_envelopes (conn db))"
    and "sequence_reservations (conn db') =
       replace_row sr_source_account \<lparr>sr_source_account = a, sr_last_reserved = sq\<rparr> (sequence_reservations (conn db))"
    and "settlement_status_table (conn db') = replace_row ss_message_id
       \<lparr>ss_message_id = to_vec (message_id e), ss_status = as_str Queued, ss_updated_at = t\<rparr>
       (settlement_status_table (conn db))"
    and "encryption_key_of db' = encryption_key_of db"
    and "fault = None"
  using assms that
  by (auto simp: enqueue_transaction_def Let_def split: sum.splits if_splits)

lemma enqueue_transaction_Inl:
  "enqueue_transaction S db nonce e a sq p t fault = (Inl err, db') \<Longrightarrow> db' = db"
  by (auto simp: enqueue_transaction_def Let_def split: sum.splits if_splits)

section \<open>Batches\<close>

text \<open>
  What a batch means: on the map of statuses, apply the legal transitions in order and skip the
  rest; the flags say which updates were applied.
\<close>

fun batch_spec ::
  "(bytes32 \<rightharpoonup> settlement_status) \<Rightarrow> (bytes32 \<times> settlement_status \<times> u64) list
     \<Rightarrow> (bytes32 \<rightharpoonup> settlement_status) \<times> bool list" where
  "batch_spec m [] = (m, [])"
| "batch_spec m ((mid, to_status, _) # us) =
     (let ok = (case m mid of None \<Rightarrow> False | Some s \<Rightarrow> can_transition_to s to_status);
          rest = batch_spec (if ok then m(mid \<mapsto> to_status) else m) us
      in (fst rest, ok # snd rest))"

lemma stored_status_update:
  "stored_status (d\<lparr>settlement_status_table :=
     update_rows ss_message_id (to_vec mid) (\<lambda>r. r\<lparr>ss_status := as_str st, ss_updated_at := t\<rparr>)
       (settlement_status_table d)\<rparr>) k =
   (if k = mid \<and> select_row ss_message_id (to_vec mid) (settlement_status_table d) \<noteq> None
    then Some st else stored_status d k)"
  by (auto simp: stored_status_def select_update status_codec.dec_enc split: option.splits)

lemma batch_one_spec:
  assumes "batch_one mid to_status t d = Some (d', r)" and "statuses_ok d"
  shows "statuses_ok d'"
    and "r = None \<longleftrightarrow> (\<exists>s. stored_status d mid = Some s \<and> can_transition_to s to_status)"
    and "stored_status d' = (if r = None then (stored_status d)(mid \<mapsto> to_status) else stored_status d)"
proof -
  let ?sel = "select_row ss_message_id (to_vec mid) (settlement_status_table d)"
  have "statuses_ok d' \<and>
     (r = None \<longleftrightarrow> (\<exists>s. stored_status d mid = Some s \<and> can_transition_to s to_status)) \<and>
     stored_status d' = (if r = None then (stored_status d)(mid \<mapsto> to_status) else stored_status d)"
  proof (cases ?sel)
    case None
    then show ?thesis using assms by (auto simp: batch_one_def stored_status_def)
  next
    case (Some row)
    then obtain s where s: "ss_status row = as_str s"
      using assms(2) select_status_mem [OF Some] by (auto simp: statuses_ok_def)
    have st: "stored_status d mid = Some s"
      using Some s by (simp add: stored_status_def status_codec.dec_enc)
    show ?thesis
    proof (cases "can_transition_to s to_status")
      case False
      then show ?thesis using assms Some s st by (auto simp: batch_one_def Let_def)
    next
      case True
      let ?d1 = "d\<lparr>settlement_status_table := update_rows ss_message_id (to_vec mid)
          (\<lambda>r. r\<lparr>ss_status := as_str to_status, ss_updated_at := t\<rparr>) (settlement_status_table d)\<rparr>"
      have h: "insert_history (to_vec mid) (as_str s) (as_str to_status) t ?d1 = Some d'" and r: "r = None"
        using assms(1) Some s True by (auto simp: batch_one_def Let_def split: option.splits)
      have tab: "settlement_status_table d' = settlement_status_table ?d1"
        using insert_history_Some [OF h] by simp
      have "stored_status d' = stored_status ?d1" by (rule stored_status_frame [OF tab])
      also have "\<dots> = (stored_status d)(mid \<mapsto> to_status)"
        by (rule ext) (simp add: stored_status_update Some)
      finally have "stored_status d' = (stored_status d)(mid \<mapsto> to_status)" .
      moreover have "statuses_ok d'"
        using assms(2) tab by (auto simp: statuses_ok_def update_rows_def)
      ultimately show ?thesis using True st r by simp
    qed
  qed
  then show "statuses_ok d'"
    and "r = None \<longleftrightarrow> (\<exists>s. stored_status d mid = Some s \<and> can_transition_to s to_status)"
    and "stored_status d' = (if r = None then (stored_status d)(mid \<mapsto> to_status) else stored_status d)"
    by blast+
qed

definition flagged :: "bool \<Rightarrow> ('a \<times> 'b) list \<Rightarrow> bool list \<Rightarrow> 'a list" where
  "flagged b us oks = map (fst \<circ> fst) (filter (\<lambda>(_, ok). ok = b) (zip us oks))"

lemma batch_loop_spec:
  assumes "batch_loop us d report = Some (d', report')" and "statuses_ok d"
  shows "stored_status d' = fst (batch_spec (stored_status d) us) \<and> statuses_ok d' \<and>
     applied report' = applied report @ flagged True us (snd (batch_spec (stored_status d) us)) \<and>
     map fst (rejected report') =
       map fst (rejected report) @ flagged False us (snd (batch_spec (stored_status d) us))"
  using assms
proof (induction us d report rule: batch_loop.induct)
  case (2 mid to_status t us d report)
  obtain d1 r where one: "batch_one mid to_status t d = Some (d1, r)"
    using 2(3) by (auto split: option.splits)
  note spec = batch_one_spec [OF one 2(4)]
  obtain m oks where rest: "batch_spec (stored_status d1) us = (m, oks)"
    by (cases "batch_spec (stored_status d1) us")
  have ok: "(case stored_status d mid of None \<Rightarrow> False | Some s \<Rightarrow> can_transition_to s to_status) \<longleftrightarrow> r = None"
    using spec(2) by (auto split: option.splits)
  have bs: "batch_spec (stored_status d) ((mid, to_status, t) # us) = (m, (r = None) # oks)"
    using rest spec(3) by (simp add: ok Let_def)
  show ?case
  proof (cases r)
    case None
    then have "batch_loop us d1 (report\<lparr>applied := applied report @ [mid]\<rparr>) = Some (d', report')"
      using 2(3) one by simp
    from 2(1) [OF one refl None this spec(1)] show ?thesis
      unfolding bs using rest None by (simp add: flagged_def)
  next
    case (Some reason)
    then have "batch_loop us d1 (report\<lparr>rejected := rejected report @ [(mid, reason)]\<rparr>) = Some (d', report')"
      using 2(3) one by simp
    from 2(2) [OF one refl Some this spec(1)] show ?thesis
      unfolding bs using rest Some by (simp add: flagged_def)
  qed
qed (simp add: flagged_def)

section \<open>Sweeps\<close>

lemma sweep_loop_spec:
  assumes "sweep_loop db mids now fault = (Inr (), db')"
  shows "stored_status (conn db') k = (if k \<in> set mids then Some Failed else stored_status (conn db) k) \<and>
     queued_envelopes (conn db') = queued_envelopes (conn db) \<and>
     sequence_reservations (conn db') = sequence_reservations (conn db)"
  using assms
proof (induction db mids now fault rule: sweep_loop.induct)
  case (2 db mid mids now fault)
  obtain db1 where one: "set_settlement_status db mid Failed now
      (if fault \<in> {Some 0, Some 1, Some 2} then fault else None) = (Inr (), db1)"
    and rest: "sweep_loop db1 mids now (fault_after 3 fault) = (Inr (), db')"
    using 2(2) by (auto split: prod.splits sum.splits)
  show ?case
    using 2(1) [OF one [symmetric] refl rest] set_settlement_status_Inr(1-3) [OF one] by simp
qed simp

lemma set_map_filter_iff: "y \<in> set (List.map_filter f xs) \<longleftrightarrow> (\<exists>x \<in> set xs. f x = Some y)"
  by (induction xs) (auto simp: List.map_filter_simps split: option.splits)

end
