(* ===== verification/Storage_Properties.thy ===== *)
theory Storage_Properties
  imports Storage_Laws
begin

text \<open>
  What the durable storage promises its callers, operation by operation, with a concrete
  serializer and cipher for the examples.
\<close>

section \<open>Examples\<close>

definition sample_proof :: relay_chain_proof where
  "sample_proof = \<lparr>chain_hash = 0, proof_sequence = 5, proof_signature = 0\<rparr>"

definition sample_serde :: "db_snapshot \<Rightarrow> serde" where
  "sample_serde s =
     \<lparr>aes_gcm_encrypt = aes_gcm_encrypt sample_cipher, aes_gcm_decrypt = aes_gcm_decrypt sample_cipher,
      argon2_check_params = argon2_check_params sample_cipher, argon2id = argon2id sample_cipher,
      envelope_to_vec = (\<lambda>e. to_vec (message_id e)),
      envelope_from_slice = (\<lambda>bs. map_option sample_envelope (try_into32 bs)),
      proof_to_vec = (\<lambda>_. []), proof_from_slice = (\<lambda>_. Some sample_proof),
      snapshot_to_vec = (\<lambda>_. [1]), snapshot_from_slice = (\<lambda>bs. if bs = [1] then Some s else None)\<rparr>"

lemma sample_serde_cipher [simp]: "cipher.truncate (sample_serde s) = sample_cipher"
  by (simp add: sample_serde_def sample_cipher_def cipher.truncate_def)

lemma sample_serde_codec [simp]: "envelope_codec_ok (sample_serde s) (sample_envelope m)"
  by (simp add: envelope_codec_ok_def sample_serde_def)

abbreviation new_db :: "encryption_key option \<Rightarrow> sync_engine_db" where
  "new_db k \<equiv> \<lparr>conn = empty_database, encryption_key_of = k\<rparr>"

lemma db_inv_new [simp]: "db_inv (conn (new_db k))" "statuses_ok (conn (new_db k))"
  by (simp_all add: db_inv_empty) (simp add: empty_database_def statuses_ok_def)

section \<open>Properties\<close>


text \<open>
  C6. Queuing is atomic and complete: if the transaction fails the database is unchanged;
  if it succeeds, the envelope is read back exactly (through encryption, when it is on) with
  status queued and the account's reservation at its sequence number, and every other envelope,
  status and reservation reads as before.
\<close>

theorem enqueue_transaction_atomic:
  "cipher_ok (cipher.truncate S) \<Longrightarrow> envelope_codec_ok S e \<Longrightarrow> statuses_ok (conn db) \<Longrightarrow>
   enqueue_transaction S db nonce e a sq p t fault = (r, db') \<Longrightarrow>
     (case r of
        Inl _ \<Rightarrow> db' = db
      | Inr _ \<Rightarrow>
          get_queued_envelope S db' (message_id e) None =
            Inr (Some \<lparr>rec_envelope = e, rec_source_account = a, rec_sequence = sq,
                       rec_priority = p, rec_enqueued_at = t\<rparr>) \<and>
          get_settlement_status db' (message_id e) None = Inr (Some Queued) \<and>
          load_sequence_reservation db' a None = Inr (Some sq) \<and>
          (\<forall>k. k \<noteq> message_id e \<longrightarrow>
             get_queued_envelope S db' k None = get_queued_envelope S db k None \<and>
             get_settlement_status db' k None = get_settlement_status db k None) \<and>
          (\<forall>b. b \<noteq> a \<longrightarrow> load_sequence_reservation db' b None = load_sequence_reservation db b None))"
proof (cases r)
  case (Inl err)
  assume "enqueue_transaction S db nonce e a sq p t fault = (r, db')"
  then show ?thesis using Inl enqueue_transaction_Inl by auto
next
  case (Inr u)
  assume c: "cipher_ok (cipher.truncate S)" and k: "envelope_codec_ok S e"
    and ok: "statuses_ok (conn db)"
    and enq: "enqueue_transaction S db nonce e a sq p t fault = (r, db')"
  have "enqueue_transaction S db nonce e a sq p t fault = (Inr (), db')" using enq Inr by simp
  then obtain bs where bs: "encrypt_if_enabled S db nonce (envelope_to_vec S e) = Inr bs"
    and q: "queued_envelopes (conn db') =
       replace_row qe_message_id (envelope_row e a sq p t bs) (queued_envelopes (conn db))"
    and sr: "sequence_reservations (conn db') =
       replace_row sr_source_account \<lparr>sr_source_account = a, sr_last_reserved = sq\<rparr> (sequence_reservations (conn db))"
    and ss: "settlement_status_table (conn db') = replace_row ss_message_id
       \<lparr>ss_message_id = to_vec (message_id e), ss_status = as_str Queued, ss_updated_at = t\<rparr>
       (settlement_status_table (conn db))"
    and key: "encryption_key_of db' = encryption_key_of db"
    by (rule enqueue_transaction_Inr)
  have row: "qe_message_id (envelope_row e a sq p t bs) = to_vec (message_id e)"
    by (simp add: envelope_row_def)
  have dec: "decode_record S db' = decode_record S db" by (rule decode_record_key [OF key])
  show ?thesis
    unfolding Inr get_queued_envelope_def dec
    using decode_record_envelope_row [OF c k bs key, of a sq p t]
    by (simp add: get_settlement_status_def load_sequence_reservation_def
        q sr ss table_lookups row dec del: as_str.simps)
qed

theorem enqueue_transaction_atomic_witness:
  "\<exists>db'. enqueue_transaction (sample_serde (take_snapshot empty_database)) (new_db (Some 9)) 3 (sample_envelope 1) ''A'' 5 Normal 100 None =
     (Inr (), db') \<and> load_sequence_reservation db' ''A'' None = Inr (Some 5)"
proof -
  obtain r db' where e: "enqueue_transaction (sample_serde (take_snapshot empty_database)) (new_db (Some 9)) 3 (sample_envelope 1) ''A'' 5 Normal 100 None = (r, db')"
    by fastforce
  moreover have "r = Inr ()"
    using e by (auto simp: enqueue_transaction_def encrypt_if_enabled_def encrypt_data_def encrypt_def
        sample_cipher_def Let_def split: sum.splits)
  ultimately show ?thesis
    using enqueue_transaction_atomic [OF _ sample_serde_codec db_inv_new(2) e]
    by (simp add: sample_cipher_ok)
qed

lemma insert_own_snapshot:
  assumes inv: "db_inv src" and e: "existing_rows dst = 0"
  obtains d where "insert_snapshot (take_snapshot src) dst = Some d" and "take_snapshot d = take_snapshot src"
    and "db_inv d"
proof -
  have empty: "queued_envelopes dst = []" "settlement_status_table dst = []" "sequence_reservations dst = []"
    "conflicts dst = []" "settlement_history dst = []" "dispute_escalations dst = []"
    using e by (simp_all add: existing_rows_def)
  have "insert_all (insert_row qe_message_id) (queued_envelopes src) [] = Some (queued_envelopes src)"
    "insert_all (insert_row ss_message_id) (settlement_status_table src) [] = Some (settlement_status_table src)"
    "insert_all (insert_row sr_source_account) (sequence_reservations src) [] = Some (sequence_reservations src)"
    using insert_all_rows [of qe_message_id "[]" "queued_envelopes src"]
      insert_all_rows [of ss_message_id "[]" "settlement_status_table src"]
      insert_all_rows [of sr_source_account "[]" "sequence_reservations src"] inv
    by (simp_all add: db_inv_def)
  moreover have "insert_all (insert_row_by_id cf_id) (conflicts src) [] = Some (conflicts src)"
    "insert_all (insert_row_by_id sh_id) (settlement_history src) [] = Some (settlement_history src)"
    "insert_all (insert_row_by_id dr_id) (dispute_escalations src) [] = Some (dispute_escalations src)"
    using insert_all_by_id [of cf_id "[]" "conflicts src"] insert_all_by_id [of sh_id "[]" "settlement_history src"]
      insert_all_by_id [of dr_id "[]" "dispute_escalations src"] inv
    by (simp_all add: db_inv_def ids_ok_def comp_def)
  ultimately obtain d where d: "insert_snapshot (take_snapshot src) dst = Some d" "take_snapshot d = take_snapshot src"
    by (simp add: insert_snapshot_def take_snapshot_def empty)
  then show thesis using that insert_snapshot_inv [OF d(1) e] by blast
qed

text \<open>
  Moving to a new device: importing the export of a well-formed database into an empty
  one succeeds, reports the number of rows of each table, and gives exactly the exported
  tables, in their order.
\<close>

theorem snapshot_roundtrip:
  "snapshot_from_slice S (snapshot_to_vec S (take_snapshot (conn src))) = Some (take_snapshot (conn src)) \<Longrightarrow>
   db_inv (conn src) \<Longrightarrow> existing_rows (conn dst) = 0 \<Longrightarrow>
   export_snapshot S src None = Inr data \<Longrightarrow>
     \<exists>report dst'. import_snapshot S dst data None = (Inr report, dst') \<and>
       take_snapshot (conn dst') = take_snapshot (conn src) \<and> db_inv (conn dst') \<and>
       encryption_key_of dst' = encryption_key_of dst \<and>
       queued_envelopes_imported report = length (queued_envelopes (conn src)) \<and>
       settlement_status_imported report = length (settlement_status_table (conn src)) \<and>
       sequence_reservations_imported report = length (sequence_reservations (conn src)) \<and>
       conflicts_imported report = length (conflicts (conn src)) \<and>
       settlement_history_imported report = length (settlement_history (conn src)) \<and>
       dispute_escalations_imported report = length (dispute_escalations (conn src))"
proof -
  assume rt: "snapshot_from_slice S (snapshot_to_vec S (take_snapshot (conn src))) = Some (take_snapshot (conn src))"
    and inv: "db_inv (conn src)" and e: "existing_rows (conn dst) = 0"
    and ex: "export_snapshot S src None = Inr data"
  have data: "snapshot_from_slice S data = Some (take_snapshot (conn src))" using rt ex by (simp add: export_snapshot_def)
  obtain d where "insert_snapshot (take_snapshot (conn src)) (conn dst) = Some d"
    "take_snapshot d = take_snapshot (conn src)" "db_inv d" by (rule insert_own_snapshot [OF inv e])
  then show ?thesis using e by (simp add: import_snapshot_def data) (simp add: take_snapshot_def)
qed

theorem snapshot_roundtrip_witness:
  "\<exists>report dst'. import_snapshot (sample_serde (take_snapshot (conn (new_db (Some 9))))) (new_db None) [1] None =
     (Inr report, dst')"
  using snapshot_roundtrip [of "sample_serde (take_snapshot (conn (new_db (Some 9))))" "new_db (Some 9)" "new_db None" "[1]"]
    db_inv_new(1) [of "Some 9"]
  by (auto simp: sample_serde_def export_snapshot_def existing_rows_def empty_database_def)

text \<open>
  C10. An import never merges and never half-succeeds: on any error (undecodable data, a wrong
  schema version, a non-empty target, a violated key, a failing statement) the database is
  unchanged, a target holding any row rejects every import, and after a success the tables hold
  exactly the rows of the snapshot.
\<close>

theorem import_all_or_nothing:
  "(case import_snapshot S db data fault of
      (Inl _, db') \<Rightarrow> db' = db
    | (Inr _, db') \<Rightarrow> existing_rows (conn db) = 0 \<and>
        (\<exists>s. snapshot_from_slice S data = Some s \<and> schema_version s = DB_SNAPSHOT_SCHEMA_VERSION \<and>
           queued_envelopes (conn db') = snap_queued_envelopes s \<and>
           settlement_status_table (conn db') = snap_settlement_status s \<and>
           sequence_reservations (conn db') = snap_sequence_reservations s \<and>
           set (conflicts (conn db')) = set (snap_conflicts s) \<and>
           set (settlement_history (conn db')) = set (snap_settlement_history s) \<and>
           set (dispute_escalations (conn db')) = set (snap_dispute_escalations s)))"
proof (cases "import_snapshot S db data fault")
  case (Pair r db')
  show ?thesis
  proof (cases r)
    case (Inl err)
    then show ?thesis using Pair by (auto simp: import_snapshot_def split: option.splits if_splits)
  next
    case (Inr report)
    then obtain s d where s: "snapshot_from_slice S data = Some s" "schema_version s = DB_SNAPSHOT_SCHEMA_VERSION"
      and e: "existing_rows (conn db) = 0" and d: "insert_snapshot s (conn db) = Some d" "conn db' = d"
      using Pair by (auto simp: import_snapshot_def split: option.splits if_splits)
    have empty: "queued_envelopes (conn db) = []" "settlement_status_table (conn db) = []"
      "sequence_reservations (conn db) = []" "conflicts (conn db) = []"
      "settlement_history (conn db) = []" "dispute_escalations (conn db) = []"
      using e by (simp_all add: existing_rows_def)
    have "queued_envelopes d = snap_queued_envelopes s \<and> settlement_status_table d = snap_settlement_status s \<and>
        sequence_reservations d = snap_sequence_reservations s \<and> set (conflicts d) = set (snap_conflicts s) \<and>
        set (settlement_history d) = set (snap_settlement_history s) \<and>
        set (dispute_escalations d) = set (snap_dispute_escalations s)"
      using d(1) by (auto simp: insert_snapshot_def empty split: option.splits
          dest: insert_all_rows_distinct insert_all_by_id_sorted)
    then show ?thesis using Pair Inr s e d(2) by simp
  qed
qed

text \<open>
  C12. A batch of status updates applies exactly the legal transitions, in order, each judged
  against the statuses its predecessors left, and reports exactly the others as rejected;
  statuses outside the batch are untouched, and a failing statement leaves no trace of it.
\<close>

theorem batch_refines_spec:
  "statuses_ok (conn db) \<Longrightarrow> set_settlement_status_batch db updates fault = (r, db') \<Longrightarrow>
     (case r of
        Inl _ \<Rightarrow> db' = db
      | Inr report \<Rightarrow>
          stored_status (conn db') = fst (batch_spec (stored_status (conn db)) updates) \<and>
          applied report = flagged True updates (snd (batch_spec (stored_status (conn db)) updates)) \<and>
          map fst (rejected report) = flagged False updates (snd (batch_spec (stored_status (conn db)) updates)) \<and>
          (\<forall>mid. mid \<notin> fst ` set updates \<longrightarrow> stored_status (conn db') mid = stored_status (conn db) mid))"
proof (cases r)
  case (Inl e)
  assume "set_settlement_status_batch db updates fault = (r, db')"
  then show ?thesis using Inl by (auto simp: set_settlement_status_batch_def split: if_splits option.splits)
next
  case (Inr report)
  assume ok: "statuses_ok (conn db)" and run: "set_settlement_status_batch db updates fault = (r, db')"
  then obtain d where d: "batch_loop updates (conn db) \<lparr>applied = [], rejected = []\<rparr> = Some (d, report)"
    and db': "conn db' = d"
    using Inr by (auto simp: set_settlement_status_batch_def split: if_splits option.splits)
  have frame: "fst (batch_spec m us) mid = m mid" if "mid \<notin> fst ` set us" for m us mid
    using that by (induction us arbitrary: m) (auto simp: Let_def)
  show ?thesis
    using batch_loop_spec [OF d ok] frame [of _ updates] by (auto simp: Inr db')
qed

theorem batch_refines_spec_witness:
  "stored_status (conn (snd (set_settlement_status_batch
     \<lparr>conn = empty_database\<lparr>settlement_status_table :=
        [\<lparr>ss_message_id = to_vec 1, ss_status = ''queued'', ss_updated_at = 0\<rparr>]\<rparr>, encryption_key_of = None\<rparr>
     [(1, Propagating, 5), (1, Queued, 6), (2, Failed, 7)] None))) 1 = Some Propagating"
proof -
  let ?db = "\<lparr>conn = empty_database\<lparr>settlement_status_table :=
      [\<lparr>ss_message_id = to_vec 1, ss_status = ''queued'', ss_updated_at = 0\<rparr>]\<rparr>, encryption_key_of = None\<rparr>"
  let ?us = "[(1, Propagating, 5), (1, Queued, 6), (2, Failed, 7)]"
  have ok: "statuses_ok (conn ?db)" by (simp add: statuses_ok_def exI [of _ Queued])
  have st: "stored_status (conn ?db) = [1 \<mapsto> Queued]"
    by (rule ext) (simp add: stored_status_def select_row_def status_decode_def from_str_def)
  obtain r db' where run: "set_settlement_status_batch ?db ?us None = (r, db')" by fastforce
  have "is_ok r"
    using run by (auto simp: set_settlement_status_batch_def batch_one_def select_row_def from_str_def
        can_transition_to_def insert_history_def next_id_def empty_database_def update_rows_def Let_def
        split: option.splits)
  then have "stored_status (conn db') = fst (batch_spec [1 \<mapsto> Queued] ?us)"
    using batch_refines_spec [OF ok run] st by (auto simp: is_ok_def split: sum.splits)
  then show ?thesis using run by (simp add: can_transition_to_def Let_def)
qed



section \<open>Escalations, history and keys\<close>

lemma collect_results_snoc:
  "collect_results (xs @ [Inr y]) = (case collect_results xs of Inl e \<Rightarrow> Inl e | Inr ys \<Rightarrow> Inr (ys @ [y]))"
  by (induction xs rule: collect_results.induct) (auto split: sum.splits)

lemma save_escalation_Inr:
  assumes "save_escalation S db c esc t fault = (Inr i, db')"
  obtains "next_id (escalations_counter (conn db)) = Some i"
    and "dispute_escalations (conn db') = dispute_escalations (conn db) @
      [\<lparr>dr_id = i, dr_source_account = c_source_account c, dr_sequence = c_sequence c,
        dr_envelope_a = to_vec (envelope_a c), dr_envelope_b = to_vec (envelope_b c),
        dr_initiator = initiator esc, dr_respondent = respondent esc,
        dr_tx_id = to_vec (de_tx_id esc), dr_proof_bytes = proof_to_vec S (de_proof esc),
        dr_created_at = t, dr_submitted = 0\<rparr>]"
    and "\<forall>k. stored_status (conn db') k =
      (if k \<in> {envelope_a c, envelope_b c} then Some Disputed else stored_status (conn db) k)"
proof -
  obtain j where j: "next_id (escalations_counter (conn db)) = Some j"
    using assms by (auto simp: save_escalation_def split: if_splits option.splits)
  let ?row = "\<lparr>dr_id = j, dr_source_account = c_source_account c, dr_sequence = c_sequence c,
      dr_envelope_a = to_vec (envelope_a c), dr_envelope_b = to_vec (envelope_b c),
      dr_initiator = initiator esc, dr_respondent = respondent esc,
      dr_tx_id = to_vec (de_tx_id esc), dr_proof_bytes = proof_to_vec S (de_proof esc),
      dr_created_at = t, dr_submitted = 0\<rparr>"
  let ?db1 = "db\<lparr>conn := (conn db)\<lparr>dispute_escalations := dispute_escalations (conn db) @ [?row],
      escalations_counter := j\<rparr>\<rparr>"
  obtain db2 where s2: "set_settlement_status ?db1 (envelope_a c) Disputed t
      (if fault \<in> {Some 1, Some 2, Some 3} then fault_after 1 fault else None) = (Inr (), db2)"
    and s3: "set_settlement_status db2 (envelope_b c) Disputed t (fault_after 4 fault) = (Inr (), db')"
    and i: "i = j"
    using assms j by (auto simp: save_escalation_def Let_def split: if_splits prod.splits sum.splits)
  have st: "stored_status (conn ?db1) = stored_status (conn db)" by (rule stored_status_frame) simp
  show thesis
    by (rule that)
      (use j i st set_settlement_status_Inr(1,5) [OF s2] set_settlement_status_Inr(1,5) [OF s3] in simp_all)
qed

text \<open>
  The life of an escalation: once saved it is pending, last in the list, with the data it was
  built from, and both envelopes of the conflict (and no others) are disputed; marking it
  submitted takes exactly it off the list.
\<close>

theorem escalation_lifecycle:
  "db_inv (conn db) \<Longrightarrow> proof_from_slice S (proof_to_vec S (de_proof esc)) = Some (de_proof esc) \<Longrightarrow>
   list_pending_escalations S db None = Inr pending \<Longrightarrow>
   save_escalation S db c esc t fault = (Inr i, db') \<Longrightarrow>
     list_pending_escalations S db' None =
       Inr (pending @ [\<lparr>pe_id = i, pe_source_account = c_source_account c, pe_sequence = c_sequence c,
         pe_envelope_a = envelope_a c, pe_envelope_b = envelope_b c, pe_escalation = esc, pe_created_at = t\<rparr>]) \<and>
     (\<forall>k. stored_status (conn db') k =
       (if k \<in> {envelope_a c, envelope_b c} then Some Disputed else stored_status (conn db) k)) \<and>
     list_pending_escalations S (snd (mark_escalation_submitted db' i None)) None = Inr pending"
proof -
  assume inv: "db_inv (conn db)" and pr: "proof_from_slice S (proof_to_vec S (de_proof esc)) = Some (de_proof esc)"
    and pend: "list_pending_escalations S db None = Inr pending"
    and save: "save_escalation S db c esc t fault = (Inr i, db')"
  let ?row = "\<lparr>dr_id = i, dr_source_account = c_source_account c, dr_sequence = c_sequence c,
      dr_envelope_a = to_vec (envelope_a c), dr_envelope_b = to_vec (envelope_b c),
      dr_initiator = initiator esc, dr_respondent = respondent esc,
      dr_tx_id = to_vec (de_tx_id esc), dr_proof_bytes = proof_to_vec S (de_proof esc),
      dr_created_at = t, dr_submitted = 0\<rparr>"
  from save obtain i: "next_id (escalations_counter (conn db)) = Some i"
    and rows: "dispute_escalations (conn db') = dispute_escalations (conn db) @ [?row]"
    and st: "\<forall>k. stored_status (conn db') k =
      (if k \<in> {envelope_a c, envelope_b c} then Some Disputed else stored_status (conn db) k)"
    by (rule save_escalation_Inr)
  have dec: "decode_escalation S ?row = Inr \<lparr>pe_id = i, pe_source_account = c_source_account c,
      pe_sequence = c_sequence c, pe_envelope_a = envelope_a c, pe_envelope_b = envelope_b c,
      pe_escalation = esc, pe_created_at = t\<rparr>"
    using pr by (simp add: decode_escalation_def)
  have old: "collect_results (map (decode_escalation S)
      (filter (\<lambda>r. dr_submitted r = 0) (dispute_escalations (conn db)))) = Inr pending"
    using pend by (simp add: list_pending_escalations_def)
  have "\<forall>r \<in> set (dispute_escalations (conn db)). dr_id r \<noteq> i"
  proof
    fix r
    assume "r \<in> set (dispute_escalations (conn db))"
    then have "sint (dr_id r) \<le> sint (escalations_counter (conn db))"
      using inv by (auto simp: db_inv_def ids_ok_def)
    then show "dr_id r \<noteq> i" using next_id_Some [OF i] by auto
  qed
  then have "update_rows dr_id i (\<lambda>r. r\<lparr>dr_submitted := 1\<rparr>) (dispute_escalations (conn db)) =
      dispute_escalations (conn db)"
    by (simp add: update_rows_def map_idI)
  then have "update_rows dr_id i (\<lambda>r. r\<lparr>dr_submitted := 1\<rparr>) (dispute_escalations (conn db')) =
      dispute_escalations (conn db) @ [?row\<lparr>dr_submitted := 1\<rparr>]"
    unfolding rows by (simp add: update_rows_def)
  then have "list_pending_escalations S (snd (mark_escalation_submitted db' i None)) None = Inr pending"
    using old by (simp add: list_pending_escalations_def mark_escalation_submitted_def)
  moreover have "list_pending_escalations S db' None =
      Inr (pending @ [\<lparr>pe_id = i, pe_source_account = c_source_account c, pe_sequence = c_sequence c,
         pe_envelope_a = envelope_a c, pe_envelope_b = envelope_b c, pe_escalation = esc, pe_created_at = t\<rparr>])"
    using old by (simp add: list_pending_escalations_def rows collect_results_snoc dec)
  ultimately show ?thesis using st by blast
qed

theorem escalation_lifecycle_witness:
  "\<exists>i db'. save_escalation (sample_serde (take_snapshot empty_database)) (new_db None)
       \<lparr>c_source_account = ''A'', c_sequence = 5, envelope_a = 1, envelope_b = 2\<rparr>
       \<lparr>initiator = ''G1'', respondent = ''G2'', de_tx_id = 1, de_proof = sample_proof\<rparr> 100 None = (Inr i, db') \<and>
     stored_status (conn db') 1 = Some Disputed"
proof -
  let ?S = "sample_serde (take_snapshot empty_database)"
  let ?c = "\<lparr>c_source_account = ''A'', c_sequence = 5, envelope_a = 1, envelope_b = 2\<rparr>"
  let ?e = "\<lparr>initiator = ''G1'', respondent = ''G2'', de_tx_id = 1, de_proof = sample_proof\<rparr>"
  obtain r db' where run: "save_escalation ?S (new_db None) ?c ?e 100 None = (r, db')" by fastforce
  have "is_ok r"
    using run by (auto simp: save_escalation_def set_settlement_status_def insert_history_def next_id_def
        empty_database_def Let_def split: option.splits if_splits)
  then obtain i where "r = Inr i" by (cases r) auto
  moreover have "list_pending_escalations ?S (new_db None) None = Inr []"
    by (simp add: list_pending_escalations_def empty_database_def)
  moreover have "proof_from_slice ?S (proof_to_vec ?S (de_proof ?e)) = Some (de_proof ?e)"
    by (simp add: sample_serde_def)
  ultimately show ?thesis
    using escalation_lifecycle [OF db_inv_new(1), of ?S ?e None "[]" ?c 100 None i db'] run by simp
qed

text \<open>A run of successful status updates on one database.\<close>

fun set_statuses ::
  "sync_engine_db \<Rightarrow> (bytes32 \<times> settlement_status \<times> u64) list \<Rightarrow> sync_engine_db option" where
  "set_statuses db [] = Some db"
| "set_statuses db ((mid, st, t) # us) =
     (case set_settlement_status db mid st t None of
        (Inl _, _) \<Rightarrow> None
      | (Inr _, db') \<Rightarrow> set_statuses db' us)"

definition history_rows :: "database \<Rightarrow> bytes32 \<Rightarrow> settlement_history_row list" where
  "history_rows d mid = filter (\<lambda>r. sh_message_id r = to_vec mid) (settlement_history d)"

lemma sort_key_sorted: "sorted (map f xs) \<Longrightarrow> sort_key f xs = xs"
proof (induction xs)
  case (Cons x xs)
  then have "insort_key f x xs = x # xs" by (intro insort_is_Cons) auto
  with Cons show ?case by simp
qed simp

lemma history_for_rows:
  assumes "db_inv (conn db)"
  shows "history_for db mid None = Inr (map (\<lambda>r. \<lparr>he_message_id = id_or_zero (sh_message_id r),
      he_from_status = sh_from_status r, he_to_status = sh_to_status r, he_timestamp = sh_timestamp r\<rparr>)
      (history_rows (conn db) mid))"
proof -
  have "sorted_wrt (<) (map (\<lambda>r. sint (sh_id r)) (settlement_history (conn db)))"
    using assms by (simp add: db_inv_def ids_ok_def comp_def)
  then have "sorted_wrt (<) (map (\<lambda>r. sint (sh_id r)) (history_rows (conn db) mid))"
    unfolding history_rows_def by (rule sorted_wrt_map_filter)
  then have "sorted (map (\<lambda>r. sint (sh_id r)) (history_rows (conn db) mid))"
    by (simp add: strict_sorted_iff)
  from sort_key_sorted [OF this] show ?thesis by (simp add: history_for_def history_rows_def)
qed

text \<open>The audit trail: each entry starts where the previous one ended.\<close>

fun status_chain :: "string \<Rightarrow> string list \<Rightarrow> (string \<times> string) list" where
  "status_chain from [] = []"
| "status_chain from (to # tos) = (from, to) # status_chain to tos"

definition stored_str :: "database \<Rightarrow> bytes32 \<Rightarrow> string" where
  "stored_str d mid = (case stored_status d mid of None \<Rightarrow> '''' | Some s \<Rightarrow> as_str s)"

definition history_pairs :: "database \<Rightarrow> bytes32 \<Rightarrow> (string \<times> string) list" where
  "history_pairs d mid = map (\<lambda>r. (sh_from_status r, sh_to_status r)) (history_rows d mid)"

definition statuses_for :: "bytes32 \<Rightarrow> (bytes32 \<times> settlement_status \<times> u64) list \<Rightarrow> string list" where
  "statuses_for mid us = map (\<lambda>(_, st, _). as_str st) (filter (\<lambda>(m, _). m = mid) us)"

lemma stored_str_select:
  assumes "statuses_ok d"
  shows "(case select_row ss_message_id (to_vec m) (settlement_status_table d) of
      None \<Rightarrow> '''' | Some row \<Rightarrow> ss_status row) = stored_str d m"
proof (cases "select_row ss_message_id (to_vec m) (settlement_status_table d)")
  case None
  then show ?thesis by (simp add: stored_str_def stored_status_def)
next
  case (Some row)
  then obtain s where "ss_status row = as_str s"
    using assms select_status_mem [OF Some] by (auto simp: statuses_ok_def)
  with Some show ?thesis by (simp add: stored_str_def stored_status_def status_codec.dec_enc)
qed

lemma history_pairs_step:
  assumes "set_settlement_status db m st t None = (Inr (), db1)" and "statuses_ok (conn db)"
  shows "history_pairs (conn db1) mid =
     history_pairs (conn db) mid @ (if m = mid then [(stored_str (conn db) mid, as_str st)] else [])"
  using set_settlement_status_Inr(7) [OF assms(1)] stored_str_select [OF assms(2), of m]
  by (auto simp: history_pairs_def history_rows_def)

lemma set_statuses_history:
  assumes "set_statuses db us = Some db'" and "statuses_ok (conn db)" and "db_inv (conn db)"
  shows "history_pairs (conn db') mid =
     history_pairs (conn db) mid @ status_chain (stored_str (conn db) mid) (statuses_for mid us) \<and>
     db_inv (conn db') \<and>
     stored_str (conn db') mid = last (stored_str (conn db) mid # statuses_for mid us)"
  using assms
proof (induction db us rule: set_statuses.induct)
  case (2 db m st t us)
  obtain db1 where one: "set_settlement_status db m st t None = (Inr (), db1)"
    and rest: "set_statuses db1 us = Some db'"
    using 2(2) by (auto split: prod.splits sum.splits)
  have ok: "statuses_ok (conn db1)" and inv: "db_inv (conn db1)"
    using set_settlement_status_ok [OF 2(3), of m st t None] set_settlement_status_inv [OF 2(4), of m st t None]
    by (simp_all add: one)
  have st1: "stored_str (conn db1) mid = (if m = mid then as_str st else stored_str (conn db) mid)"
    using set_settlement_status_Inr(1) [OF one, of mid] by (simp add: stored_str_def)
  have "history_pairs (conn db') mid =
     history_pairs (conn db1) mid @ status_chain (stored_str (conn db1) mid) (statuses_for mid us) \<and>
     db_inv (conn db') \<and>
     stored_str (conn db') mid = last (stored_str (conn db1) mid # statuses_for mid us)"
    using 2(1) [OF one [symmetric] refl rest ok inv] .
  then show ?case
    using history_pairs_step [OF one 2(3), of mid] st1 by (simp add: statuses_for_def)
qed (simp add: statuses_for_def)



text \<open>
  Opening an encrypted database: with the key its envelopes were written under it opens
  with that key, with a key that does not decrypt its first envelope it is refused as a key
  mismatch, and opening never changes what is stored.
\<close>

theorem init_with_encryption_checks_key:
  "select_row fst ENCRYPTION_ENABLED_KEY (encryption_metadata d) = Some (ENCRYPTION_ENABLED_KEY, ''true'') \<Longrightarrow>
   queued_envelopes d = row # rows \<Longrightarrow> path \<noteq> '':memory:'' \<Longrightarrow>
     init_with_encryption S path (Some d) key None =
       (if is_ok (decrypt_data (cipher.truncate S) (qe_envelope_bytes row) key)
        then Inr \<lparr>conn = d, encryption_key_of = Some key\<rparr> else Inl EncryptionKeyMismatch)"
  by (auto simp: init_with_encryption_def init_def check_encryption_flag_def verify_encryption_key_def
      decrypt_data_def decrypt_def Let_def split: option.splits if_splits sum.splits)

theorem init_with_encryption_checks_key_witness:
  "init_with_encryption (sample_serde (take_snapshot empty_database)) ''db''
     (Some (empty_database\<lparr>encryption_metadata := [(ENCRYPTION_ENABLED_KEY, ''true'')],
        queued_envelopes := [envelope_row (sample_envelope 1) ''A'' 5 Normal 0 (nonce_bytes 3 @ to_vec 9 @ to_vec 1)]\<rparr>))
     8 None = Inl EncryptionKeyMismatch"
  using init_with_encryption_checks_key [of "empty_database\<lparr>encryption_metadata := [(ENCRYPTION_ENABLED_KEY, ''true'')],
        queued_envelopes := [envelope_row (sample_envelope 1) ''A'' 5 Normal 0 (nonce_bytes 3 @ to_vec 9 @ to_vec 1)]\<rparr>"
      "envelope_row (sample_envelope 1) ''A'' 5 Normal 0 (nonce_bytes 3 @ to_vec 9 @ to_vec 1)" "[]" "''db''"
      "sample_serde (take_snapshot empty_database)" 8]
  by (simp add: select_row_def envelope_row_def decrypt_data_def decrypt_def sample_cipher_def)

text \<open>
  The documented mismatch errors that never occur: an encrypted database opens without any key,
  and an unencrypted one with envelopes opens with any key and is then marked encrypted.
\<close>

lemma mismatches_not_detected:
  "init path (Some d) None = Inr \<lparr>conn = (if path = '':memory:'' then empty_database else d), encryption_key_of = None\<rparr>"
  "select_row fst ENCRYPTION_ENABLED_KEY (encryption_metadata d) = None \<Longrightarrow> path \<noteq> '':memory:'' \<Longrightarrow>
   is_ok (init_with_encryption S path (Some d) key None)"
  by (simp_all add: init_def init_with_encryption_def check_encryption_flag_def set_encryption_flag_def Let_def)

end
