(* ===== verification/Engine.thy ===== *)
theory Engine
  imports Storage_Properties Envelope
begin

text \<open>
  \<open>src/engine.rs\<close>: the driver that keeps the in-memory queue, reservations and settlement
  tracker in step with the durable storage.

  The engine's database handle is the file itself, so the database after a crash is the
  database of the last state.  The second, synchronous connection used for dispatching is the
  same file, or, for the path \<open>:memory:\<close>, an isolated database in which no table was ever
  created.  The clock, the AES nonce and the faults of the database are arguments.
\<close>

datatype dispatch_connection = SameFile | IsolatedMemory

record sync_engine =
  eng_db :: sync_engine_db
  eng_queue :: outbound_tx_queue
  eng_sequences :: sequence_reservation_manager
  eng_settlement :: settlement_tracker
  dispatch_conn :: dispatch_connection

definition open_dispatch_connection :: "string \<Rightarrow> fault \<Rightarrow> dispatch_connection result" where
  "open_dispatch_connection db_path fault =
     (if fault \<noteq> None then Inl (SqliteError ''cannot open database'')
      else Inr (if db_path = '':memory:'' then IsolatedMemory else SameFile))"

text \<open>Rebuilding queue and tracker from the rows; each row reads its status with one statement.\<close>

fun rehydrate ::
  "sync_engine_db \<Rightarrow> queued_envelope_record list \<Rightarrow> fault \<Rightarrow> outbound_tx_queue \<times> settlement_tracker
     \<Rightarrow> (outbound_tx_queue \<times> settlement_tracker) result" where
  "rehydrate db [] fault acc = Inr acc"
| "rehydrate db (r # rs) fault (queue, settlement) =
     (let mid = message_id (rec_envelope r)
      in case get_settlement_status db mid (if fault = Some 0 then fault else None) of
           Inl e \<Rightarrow> Inl e
         | Inr st \<Rightarrow>
             let current = (case st of None \<Rightarrow> Queued | Some s \<Rightarrow> s);
                 settlement1 = restore settlement mid current;
                 queue1 = (if current = Queued
                   then restore_at queue (rec_envelope r) (rec_priority r) (rec_enqueued_at r) else queue)
             in rehydrate db rs (fault_after 1 fault) (queue1, settlement1))"

text \<open>
  The statements of \<open>open\<close>: creating the tables, reading the reservations, reading the envelopes,
  one status per envelope, and opening the second connection.
\<close>

definition engine_open ::
  "'z serde_scheme \<Rightarrow> string \<Rightarrow> database option \<Rightarrow> fault \<Rightarrow> sync_engine result" where
  "engine_open S db_path disk fault =
     (case init db_path disk (if fault = Some 0 then fault else None) of
        Inl e \<Rightarrow> Inl e
      | Inr db \<Rightarrow>
     (case list_all_sequence_reservations db (if fault = Some 1 then fault else None) of
        Inl e \<Rightarrow> Inl e
      | Inr known \<Rightarrow>
          let sequences = foldl (\<lambda>m (account, last_res). seed m account last_res) srm_new known
          in
     (case list_queued_envelopes S db (if fault = Some 2 then fault else None) of
        Inl e \<Rightarrow> Inl e
      | Inr records \<Rightarrow>
     (case rehydrate db records (fault_after 3 fault) (queue_new, tracker_new) of
        Inl e \<Rightarrow> Inl e
      | Inr (queue, settlement) \<Rightarrow>
     (case open_dispatch_connection db_path (fault_after (3 + length records) fault) of
        Inl e \<Rightarrow> Inl e
      | Inr c \<Rightarrow> Inr \<lparr>eng_db = db, eng_queue = queue, eng_sequences = sequences,
                      eng_settlement = settlement, dispatch_conn = c\<rparr>)))))"

definition seed_account ::
  "sync_engine \<Rightarrow> string \<Rightarrow> i64 \<Rightarrow> fault \<Rightarrow> unit result \<times> sync_engine" where
  "seed_account e account current_chain_sequence fault =
     (let e1 = e\<lparr>eng_sequences := seed (eng_sequences e) account current_chain_sequence\<rparr>
      in case save_sequence_reservation (eng_db e1) account current_chain_sequence fault of
           (Inl err, db) \<Rightarrow> (Inl err, e1\<lparr>eng_db := db\<rparr>)
         | (Inr _, db) \<Rightarrow> (Inr (), e1\<lparr>eng_db := db\<rparr>))"

definition last_reserved_sequence :: "sync_engine \<Rightarrow> string \<Rightarrow> fault \<Rightarrow> i64 option result" where
  "last_reserved_sequence e account fault = load_sequence_reservation (eng_db e) account fault"

definition engine_settlement_status :: "sync_engine \<Rightarrow> bytes32 \<Rightarrow> settlement_status option" where
  "engine_settlement_status e mid = status (eng_settlement e) mid"

definition engine_record_conflict ::
  "sync_engine \<Rightarrow> conflict \<Rightarrow> u64 \<Rightarrow> fault \<Rightarrow> unit result \<times> sync_engine" where
  "engine_record_conflict e c detected_at fault =
     (case record_conflict (eng_db e) c detected_at fault of (r, db) \<Rightarrow> (r, e\<lparr>eng_db := db\<rparr>))"

definition engine_list_unresolved_conflicts :: "sync_engine \<Rightarrow> fault \<Rightarrow> conflict list result" where
  "engine_list_unresolved_conflicts e fault = list_unresolved_conflicts (eng_db e) fault"

definition queue_payment ::
  "third_party \<Rightarrow> 'z serde_scheme \<Rightarrow> u64 \<Rightarrow> encryption_nonce \<Rightarrow> sync_engine \<Rightarrow> string \<Rightarrow> signing_key
     \<Rightarrow> string \<Rightarrow> tx_priority \<Rightarrow> u8 \<Rightarrow> fault \<Rightarrow> transaction_envelope result \<times> sync_engine" where
  "queue_payment X S now nonce e account key xdr priority ttl fault =
     (let seqs0 =
            (if last_reserved (eng_sequences e) account = None then seed (eng_sequences e) account 0
             else eng_sequences e);
          e0 = e\<lparr>eng_sequences := seqs0\<rparr>
      in case build_and_sign X now (eng_sequences e0) account key ClassicalOnly xdr ttl of
           (Inl err, seqs1) \<Rightarrow> (Inl err, e0\<lparr>eng_sequences := seqs1\<rparr>)
         | (Inr (hybrid_env, sequence), seqs1) \<Rightarrow>
             let e1 = e0\<lparr>eng_sequences := seqs1\<rparr>;
                 envelope = classical_envelope hybrid_env
             in (case enqueue_transaction S (eng_db e1) nonce envelope account sequence priority now fault of
                   (Inl err, db) \<Rightarrow>
                     (Inl err, e1\<lparr>eng_db := db, eng_sequences :=
                        (case release (eng_sequences e1) account sequence of
                           Inl _ \<Rightarrow> eng_sequences e1 | Inr m \<Rightarrow> m)\<rparr>)
                 | (Inr _, db) \<Rightarrow>
                     let e2 = e1\<lparr>eng_db := db\<rparr>
                     in (case push_at (eng_queue e2) envelope priority now of
                           (Inl err, q) \<Rightarrow> (Inl err, e2\<lparr>eng_queue := q\<rparr>)
                         | (Inr _, q) \<Rightarrow>
                             (Inr envelope, e2\<lparr>eng_queue := q,
                                eng_settlement := track (eng_settlement e2) (message_id envelope)\<rparr>))))"

text \<open>
  The marker statement on the second connection; in the isolated database the table does not
  exist, so the statement always fails there.
\<close>

definition persist_dispatch_status ::
  "sync_engine \<Rightarrow> bytes32 \<Rightarrow> u64 \<Rightarrow> fault \<Rightarrow> unit result \<times> sync_engine" where
  "persist_dispatch_status e mid updated_at fault =
     (if dispatch_conn e = IsolatedMemory then (Inl (SqliteError ''no such table: settlement_status''), e)
      else if fault \<noteq> None then (Inl (SqliteError ''statement failed''), e)
      else (Inr (), e\<lparr>eng_db := (eng_db e)\<lparr>conn := (conn (eng_db e))\<lparr>settlement_status_table :=
              replace_row ss_message_id
                \<lparr>ss_message_id = to_vec mid, ss_status = as_str Propagating, ss_updated_at = updated_at\<rparr>
                (settlement_status_table (conn (eng_db e)))\<rparr>\<rparr>\<rparr>))"

text \<open>
  The outer option is the panic of \<open>expect\<close>: \<open>None\<close> would mean that \<open>peek\<close> saw an envelope and
  \<open>pop\<close> did not.
\<close>

definition next_to_dispatch ::
  "hex_encode \<Rightarrow> u64 \<Rightarrow> sync_engine \<Rightarrow> fault \<Rightarrow> (transaction_envelope option \<times> sync_engine) option" where
  "next_to_dispatch hex now e fault =
     (case peek (eng_queue e) of
        None \<Rightarrow> Some (None, e)
      | Some first \<Rightarrow>
          (case persist_dispatch_status e (message_id first) now fault of
             (Inl _, e1) \<Rightarrow> Some (None, e1)
           | (Inr _, e1) \<Rightarrow>
               (case pop (eng_queue e1) of
                  (None, _) \<Rightarrow> None
                | (Some envelope, q) \<Rightarrow>
                    let e2 = e1\<lparr>eng_queue := q\<rparr>
                    in Some (Some envelope,
                         (case transition hex (eng_settlement e2) (message_id envelope) Propagating of
                            Inl _ \<Rightarrow> e2
                          | Inr t \<Rightarrow> e2\<lparr>eng_settlement := t\<rparr>)))))"

definition mark_settlement ::
  "hex_encode \<Rightarrow> sync_engine \<Rightarrow> bytes32 \<Rightarrow> settlement_status \<Rightarrow> u64 \<Rightarrow> fault
     \<Rightarrow> unit result \<times> sync_engine" where
  "mark_settlement hex e mid nxt updated_at fault =
     (case status (eng_settlement e) mid of
        None \<Rightarrow> (Inl (EnvelopeNotFound (hex mid)), e)
      | Some current \<Rightarrow>
          if \<not> can_transition_to current nxt
          then (Inl (InvalidStateTransition (as_str current) (as_str nxt)), e)
          else
            (case set_settlement_status (eng_db e) mid nxt updated_at fault of
               (Inl err, db) \<Rightarrow> (Inl err, e\<lparr>eng_db := db\<rparr>)
             | (Inr _, db) \<Rightarrow>
                 let e1 = e\<lparr>eng_db := db\<rparr>
                 in (case transition hex (eng_settlement e1) mid nxt of
                       Inl err \<Rightarrow> (Inl err, e1)
                     | Inr t \<Rightarrow> (Inr (), e1\<lparr>eng_settlement := t\<rparr>))))"

end
