(* ===== verification/Engine_Laws.thy ===== *)
theory Engine_Laws
  imports Engine
begin

text \<open>
  The engine's invariant: memory and storage agree.  \<open>disk_ok\<close> is what holds of the file after
  any call, failed or not; \<open>engine_inv\<close> adds what holds of the memory between calls.  The ghost
  list \<open>rs\<close> is the list of decoded envelope records, in the order of their rows.
\<close>

section \<open>Invariants\<close>

definition rec_id :: "queued_envelope_record \<Rightarrow> bytes32" where
  "rec_id r = message_id (rec_envelope r)"

definition rec_entry :: "queued_envelope_record \<Rightarrow> queued_tx" where
  "rec_entry r = \<lparr>q_priority = rec_priority r, q_enqueued_at = rec_enqueued_at r, q_envelope = rec_envelope r\<rparr>"

definition current_status :: "database \<Rightarrow> bytes32 \<Rightarrow> settlement_status" where
  "current_status d mid = (case stored_status d mid of None \<Rightarrow> Queued | Some s \<Rightarrow> s)"

definition disk_ok :: "'z serde_scheme \<Rightarrow> sync_engine_db \<Rightarrow> queued_envelope_record list \<Rightarrow> bool" where
  "disk_ok S db rs \<longleftrightarrow>
     db_inv (conn db) \<and> statuses_ok (conn db) \<and> encryption_key_of db = None \<and>
     map (decode_record S db) (queued_envelopes (conn db)) = map Inr rs \<and>
     map qe_message_id (queued_envelopes (conn db)) = map (\<lambda>r. to_vec (rec_id r)) rs"

definition tracker_agrees :: "database \<Rightarrow> queued_envelope_record list \<Rightarrow> settlement_tracker \<Rightarrow> bool" where
  "tracker_agrees d rs t \<longleftrightarrow>
     (\<forall>mid. status t mid = (if mid \<in> rec_id ` set rs then Some (current_status d mid) else None))"

definition queue_agrees :: "database \<Rightarrow> queued_envelope_record list \<Rightarrow> outbound_tx_queue \<Rightarrow> bool" where
  "queue_agrees d rs q \<longleftrightarrow>
     queue_inv q \<and> emergency_guard_of q = None \<and>
     queue_contents q = mset (map rec_entry (filter (\<lambda>r. current_status d (rec_id r) = Queued) rs))"

definition stored_reservation :: "database \<Rightarrow> string \<Rightarrow> i64 option" where
  "stored_reservation d a = map_option sr_last_reserved (select_row sr_source_account a (sequence_reservations d))"

text \<open>
  An account without a stored reservation may have a baseline of 0 in memory: that is what
  \<open>queue_payment\<close> falls back to before it has stored anything.
\<close>

definition seqs_agree :: "database \<Rightarrow> sequence_reservation_manager \<Rightarrow> bool" where
  "seqs_agree d m \<longleftrightarrow>
     (\<forall>a. last_reserved m a = stored_reservation d a \<or>
          (stored_reservation d a = None \<and> last_reserved m a = Some 0))"

definition engine_inv :: "'z serde_scheme \<Rightarrow> sync_engine \<Rightarrow> queued_envelope_record list \<Rightarrow> bool" where
  "engine_inv S e rs \<longleftrightarrow>
     disk_ok S (eng_db e) rs \<and> dispatch_conn e = SameFile \<and>
     tracker_agrees (conn (eng_db e)) rs (eng_settlement e) \<and>
     queue_agrees (conn (eng_db e)) rs (eng_queue e) \<and>
     seqs_agree (conn (eng_db e)) (eng_sequences e)"

lemma disk_ok_ids: "disk_ok S db rs \<Longrightarrow> distinct (map rec_id rs)"
proof -
  assume "disk_ok S db rs"
  then have "distinct (map (\<lambda>r. to_vec (rec_id r)) rs)" by (metis disk_ok_def db_inv_def)
  then show ?thesis by (auto simp: distinct_map inj_on_def)
qed

lemma stored_reservation_frame:
  "sequence_reservations d = sequence_reservations d' \<Longrightarrow> stored_reservation d = stored_reservation d'"
  by (rule ext) (simp add: stored_reservation_def)

lemma stored_reservation_replace:
  "stored_reservation (d\<lparr>sequence_reservations :=
     replace_row sr_source_account \<lparr>sr_source_account = a, sr_last_reserved = s\<rparr> (sequence_reservations d)\<rparr>) b =
   (if b = a then Some s else stored_reservation d b)"
  by (simp add: stored_reservation_def reservations.lookup_upsert)

section \<open>Opening\<close>

lemma seed_all:
  "last_reserved (foldl (\<lambda>m (account, s). seed m account s) m known) a =
     (case map_of (rev known) a of None \<Rightarrow> last_reserved m a | Some s \<Rightarrow> Some s)"
proof (induction known arbitrary: m)
  case (Cons k known)
  obtain b s where k: "k = (b, s)" by (cases k)
  show ?case
    using Cons.IH [of "seed m b s"] by (simp add: k last_reserved_ops map_add_def split: option.splits)
qed simp

lemma known_reservations:
  assumes "distinct (map sr_source_account rows)"
  shows "map_of (foldl (\<lambda>m r. AList.update (sr_source_account r) (sr_last_reserved r) m) acc rows) a =
     (case select_row sr_source_account a rows of None \<Rightarrow> map_of acc a | Some r \<Rightarrow> Some (sr_last_reserved r))"
    and "distinct (map fst acc) \<Longrightarrow>
      distinct (map fst (foldl (\<lambda>m r. AList.update (sr_source_account r) (sr_last_reserved r) m) acc rows))"
  using assms
proof (induction rows arbitrary: acc)
  case (Cons r rows)
  {
    case 1
    have "select_row sr_source_account a rows = None" if "a = sr_source_account r"
      using 1 that by (auto simp: select_None)
    then show ?case
      using Cons.IH(1) [of "AList.update (sr_source_account r) (sr_last_reserved r) acc"] 1
      by (auto simp: select_row_def update_conv split: option.splits)
  next
    case 2
    then show ?case
      using Cons.IH(2) [of "AList.update (sr_source_account r) (sr_last_reserved r) acc"]
      by (simp add: distinct_update)
  }
qed (simp_all add: select_row_def)

lemma map_of_rev_distinct: "distinct (map fst kvs) \<Longrightarrow> map_of (rev kvs) = map_of kvs"
  by (rule map_of_inject_set [THEN iffD2]) (simp_all add: rev_map [symmetric])

lemma rehydrate_ok:
  assumes "statuses_ok (conn db)" and "distinct (map rec_id rs)"
    and "queue_inv q" and "emergency_guard_of q = None"
  shows "\<exists>q' t'. rehydrate db rs None (q, t) = Inr (q', t') \<and>
     queue_inv q' \<and> emergency_guard_of q' = None \<and>
     queue_contents q' = queue_contents q +
       mset (map rec_entry (filter (\<lambda>r. current_status (conn db) (rec_id r) = Queued) rs)) \<and>
     (\<forall>mid. status t' mid =
       (if mid \<in> rec_id ` set rs then Some (current_status (conn db) mid) else status t mid))"
  using assms
proof (induction rs arbitrary: q t)
  case (Cons r rs)
  let ?cur = "current_status (conn db) (rec_id r)"
  let ?q = "if ?cur = Queued then restore_at q (rec_envelope r) (rec_priority r) (rec_enqueued_at r) else q"
  let ?t = "restore t (rec_id r) ?cur"
  have get: "get_settlement_status db (rec_id r) None = Inr (stored_status (conn db) (rec_id r))"
    using Cons.prems(1) by (rule get_settlement_status_stored)
  have step: "rehydrate db (r # rs) None (q, t) = rehydrate db rs None (?q, ?t)"
    using get by (simp add: rec_id_def current_status_def Let_def)
  have "queue_inv ?q" "emergency_guard_of ?q = None"
    using Cons.prems by (auto simp: restore_at_inv)
  moreover have "queue_contents ?q = queue_contents q + (if ?cur = Queued then {#rec_entry r#} else {#})"
    by (simp add: restore_at_contents rec_entry_def)
  moreover have "rec_id r \<notin> rec_id ` set rs" using Cons.prems(2) by simp
  ultimately show ?case
    using Cons.IH [of ?q ?t] Cons.prems(1,2) unfolding step by (auto simp: status_ops)
qed simp

lemma collect_decoded:
  "map (decode_record S db) rows = map Inr rs \<Longrightarrow> collect_results (map (decode_record S db) rows) = Inr rs"
  using collect_results_Inr [of "\<lambda>r. r" rs] by simp

lemma engine_open_ok:
  assumes d: "disk_ok S \<lparr>conn = d, encryption_key_of = None\<rparr> rs" and p: "path \<noteq> '':memory:''"
  shows "\<exists>e. engine_open S path (Some d) None = Inr e \<and>
     eng_db e = \<lparr>conn = d, encryption_key_of = None\<rparr> \<and> engine_inv S e rs \<and>
     (\<forall>a. last_reserved (eng_sequences e) a = stored_reservation d a)"
proof -
  let ?db = "\<lparr>conn = d, encryption_key_of = None\<rparr>"
  let ?known = "foldl (\<lambda>m r. AList.update (sr_source_account r) (sr_last_reserved r) m) [] (sequence_reservations d)"
  let ?seqs = "foldl (\<lambda>m (account, s). seed m account s) srm_new ?known"
  have inv: "db_inv d" "statuses_ok d" using d by (simp_all add: disk_ok_def)
  have dist: "distinct (map sr_source_account (sequence_reservations d))" using inv by (simp add: db_inv_def)
  have recs: "list_queued_envelopes S ?db None = Inr rs"
    using d by (simp add: list_queued_envelopes_def disk_ok_def collect_decoded)
  have new: "emergency_guard_of queue_new = None" by (simp add: queue_new_def)
  obtain q t where re: "rehydrate ?db rs None (queue_new, tracker_new) = Inr (q, t)"
    and q: "queue_inv q" "emergency_guard_of q = None"
      "queue_contents q = mset (map rec_entry (filter (\<lambda>r. current_status d (rec_id r) = Queued) rs))"
    and t: "\<forall>mid. status t mid = (if mid \<in> rec_id ` set rs then Some (current_status d mid) else None)"
    using rehydrate_ok [of ?db rs queue_new tracker_new] inv(2) disk_ok_ids [OF d] new
    by (auto simp: status_ops)
  let ?e = "\<lparr>eng_db = ?db, eng_queue = q, eng_sequences = ?seqs, eng_settlement = t, dispatch_conn = SameFile\<rparr>"
  have opened: "engine_open S path (Some d) None = Inr ?e"
    using recs re p by (simp add: engine_open_def init_def list_all_sequence_reservations_def
        open_dispatch_connection_def Let_def)
  have seqs: "last_reserved ?seqs a = stored_reservation d a" for a
    using known_reservations [OF dist, of "[]"] seed_all [of srm_new ?known a]
    by (simp add: map_of_rev_distinct stored_reservation_def last_reserved_ops split: option.splits)
  have "engine_inv S ?e rs"
    using d q t seqs by (simp add: engine_inv_def tracker_agrees_def queue_agrees_def seqs_agree_def)
  with opened seqs show ?thesis by (intro exI [of _ ?e]) simp
qed

section \<open>Queuing a payment\<close>

lemma current_status_fun:
  "current_status d' = (current_status d)(mid := st)"
  if "\<And>k. stored_status d' k = (if k = mid then Some st else stored_status d k)"
  using that by (intro ext) (simp add: current_status_def)

lemma enqueue_disk_ok:
  assumes d: "disk_ok S db rs" and codec: "envelope_codec_ok S env" and fresh: "message_id env \<notin> rec_id ` set rs"
    and enq: "enqueue_transaction S db nonce env a sq p t fault = (Inr (), db')"
    and r: "r = \<lparr>rec_envelope = env, rec_source_account = a, rec_sequence = sq, rec_priority = p, rec_enqueued_at = t\<rparr>"
  shows "disk_ok S db' (rs @ [r])"
    and "\<And>k. stored_status (conn db') k = (if k = message_id env then Some Queued else stored_status (conn db) k)"
    and "\<And>b. stored_reservation (conn db') b = (if b = a then Some sq else stored_reservation (conn db) b)"
proof -
  have nokey: "encryption_key_of db = None" and inv: "db_inv (conn db)" and ok: "statuses_ok (conn db)"
    and rows: "map (decode_record S db) (queued_envelopes (conn db)) = map Inr rs"
    and ids: "map qe_message_id (queued_envelopes (conn db)) = map (\<lambda>r. to_vec (rec_id r)) rs"
    using d by (simp_all add: disk_ok_def)
  from enq obtain bs where bs: "encrypt_if_enabled S db nonce (envelope_to_vec S env) = Inr bs"
    and q: "queued_envelopes (conn db') =
       replace_row qe_message_id (envelope_row env a sq p t bs) (queued_envelopes (conn db))"
    and sr: "sequence_reservations (conn db') =
       replace_row sr_source_account \<lparr>sr_source_account = a, sr_last_reserved = sq\<rparr> (sequence_reservations (conn db))"
    and ss: "settlement_status_table (conn db') = replace_row ss_message_id
       \<lparr>ss_message_id = to_vec (message_id env), ss_status = as_str Queued, ss_updated_at = t\<rparr>
       (settlement_status_table (conn db))"
    and key: "encryption_key_of db' = encryption_key_of db"
    by (rule enqueue_transaction_Inr)
  have rowid: "qe_message_id (envelope_row env a sq p t bs) = to_vec (message_id env)"
    by (simp add: envelope_row_def)
  have "qe_message_id x \<noteq> to_vec (message_id env)" if "x \<in> set (queued_envelopes (conn db))" for x
  proof -
    have "qe_message_id x \<in> set (map (\<lambda>r. to_vec (rec_id r)) rs)" using that ids by (metis image_eqI set_map)
    then show ?thesis using fresh by auto
  qed
  then have q': "queued_envelopes (conn db') = queued_envelopes (conn db) @ [envelope_row env a sq p t bs]"
    unfolding q replace_row_def rowid by (simp add: filter_id_conv)
  have "bs = envelope_to_vec S env" using bs nokey by (simp add: encrypt_if_enabled_def)
  then have "decode_record S db' (envelope_row env a sq p t bs) = Inr r"
    using codec nokey key
    by (simp add: decode_record_def decrypt_if_needed_def envelope_row_def envelope_codec_ok_def r)
  then have "map (decode_record S db') (queued_envelopes (conn db')) = map Inr (rs @ [r])"
    using rows decode_record_key [OF key, of S] by (simp add: q')
  moreover have "map qe_message_id (queued_envelopes (conn db')) = map (\<lambda>r. to_vec (rec_id r)) (rs @ [r])"
    using ids rowid by (simp add: q' rec_id_def r)
  moreover have "db_inv (conn db')" using enqueue_transaction_inv [OF inv, of S nonce env a sq p t fault] enq by simp
  moreover have "statuses_ok (conn db')"
    using statuses_ok_replace [OF ok, of "to_vec (message_id env)" Queued t]
    unfolding statuses_ok_def ss by simp
  ultimately show "disk_ok S db' (rs @ [r])" using nokey key by (simp add: disk_ok_def)
  show "stored_status (conn db') k = (if k = message_id env then Some Queued else stored_status (conn db) k)" for k
    by (simp add: stored_status_def ss statuses.lookup_upsert status_codec.dec_enc del: as_str.simps)
  show "stored_reservation (conn db') b = (if b = a then Some sq else stored_reservation (conn db) b)" for b
    by (simp add: stored_reservation_def sr reservations.lookup_upsert)
qed

text \<open>The three outcomes of \<open>queue_payment\<close> on an engine whose queue has no guard.\<close>

lemma queue_payment_cases:
  assumes "queue_payment X S now nonce e account key xdr priority ttl fault = (r, e')"
    and "emergency_guard_of (eng_queue e) = None"
  defines "seqs0 \<equiv> (if last_reserved (eng_sequences e) account = None then seed (eng_sequences e) account 0
             else eng_sequences e)"
  obtains (failed) err where "r = Inl err" and "e' = e\<lparr>eng_sequences := seqs0\<rparr>"
  | (queued) env sq db seqs1 where "r = Inr env" and "env = seal X now key (verifying_key X key) xdr ttl"
      and "extract_source_account_and_sequence X xdr = Inr (account, sq)"
      and "reserve_next seqs0 account = Inr (sq, seqs1)"
      and "enqueue_transaction S (eng_db e) nonce env account sq priority now fault = (Inr (), db)"
      and "e' = e\<lparr>eng_sequences := seqs1, eng_db := db,
             eng_queue := heap_insert (eng_queue e) env priority now, eng_settlement := track (eng_settlement e) (message_id env)\<rparr>"
proof (cases "build_and_sign X now seqs0 account key ClassicalOnly xdr ttl")
  case (Pair b seqs1)
  show thesis
  proof (cases b)
    case (Inl err)
    then have "seqs1 = seqs0" using Pair build_and_sign_Inl by blast
    then show thesis
      using assms(1) Pair Inl by (intro failed [of err]) (simp_all add: queue_payment_def seqs0_def Let_def)
  next
    case (Inr hs)
    obtain h sq where hs: "hs = (h, sq)" by (cases hs)
    let ?env = "seal X now key (verifying_key X key) xdr ttl"
    have ext: "extract_source_account_and_sequence X xdr = Inr (account, sq)"
      and res: "reserve_next seqs0 account = Inr (sq, seqs1)"
      and env: "classical_envelope h = ?env"
      using Pair Inr hs by (simp_all add: build_and_sign_Inr)
    obtain er db where enq: "enqueue_transaction S (eng_db e) nonce ?env account sq priority now fault = (er, db)"
      by fastforce
    show thesis
    proof (cases er)
      case (Inl err)
      then have "db = eng_db e" using enq enqueue_transaction_Inl by blast
      moreover have "release seqs1 account sq = Inr seqs0" by (rule release_reserve_next [OF res])
      ultimately show thesis
        using assms(1) Pair Inr hs env enq Inl
        by (intro failed [of err]) (simp_all add: queue_payment_def seqs0_def Let_def)
    next
      case (Inr u)
      have push: "push_at (eng_queue e) ?env priority now = (Inr (), heap_insert (eng_queue e) ?env priority now)"
        using assms(2) by (simp add: push_at_unguarded)
      show thesis
        using assms(1) Pair \<open>b = Inr hs\<close> hs env enq Inr push ext res
        by (intro queued [of ?env sq seqs1 db]) (simp_all add: queue_payment_def seqs0_def Let_def)
    qed
  qed
qed

lemma seqs_agree_seed0:
  "seqs_agree d m \<Longrightarrow> seqs_agree d (if last_reserved m a = None then seed m a 0 else m)"
  by (auto simp: seqs_agree_def last_reserved_ops) (metis option.distinct(1))+

lemma seqs_agree_step:
  "seqs_agree d m \<Longrightarrow> (\<And>b. last_reserved m' b = (if b = a then Some s else last_reserved m b)) \<Longrightarrow>
   (\<And>b. stored_reservation d' b = (if b = a then Some s else stored_reservation d b)) \<Longrightarrow> seqs_agree d' m'"
  by (simp add: seqs_agree_def)

text \<open>A new envelope goes into the queue as it goes, Queued, into the file.\<close>

lemma queue_agrees_insert:
  assumes "queue_agrees d rs q" and fr: "message_id env \<notin> rec_id ` set rs"
    and st: "current_status d' = (current_status d)(message_id env := Queued)"
  shows "queue_agrees d' (rs @ [\<lparr>rec_envelope = env, rec_source_account = account, rec_sequence = sq,
        rec_priority = priority, rec_enqueued_at = now\<rparr>]) (heap_insert q env priority now)"
proof -
  have "filter (\<lambda>r. current_status d' (rec_id r) = Queued) rs = filter (\<lambda>r. current_status d (rec_id r) = Queued) rs"
  proof (rule filter_cong [OF refl])
    fix x
    assume "x \<in> set rs"
    then have "rec_id x \<noteq> message_id env" using fr by force
    then show "(current_status d' (rec_id x) = Queued) = (current_status d (rec_id x) = Queued)" by (simp add: st)
  qed
  then show ?thesis
    using assms(1) by (simp add: queue_agrees_def heap_insert_inv heap_insert_contents st rec_id_def rec_entry_def)
qed

lemma queue_payment_inv:
  assumes inv: "engine_inv S e rs"
    and run: "queue_payment X S now nonce e account key xdr priority ttl fault = (r, e')"
    and codec: "envelope_codec_ok S (seal X now key (verifying_key X key) xdr ttl)"
    and fresh: "is_ok r \<Longrightarrow>
      status (eng_settlement e) (message_id (seal X now key (verifying_key X key) xdr ttl)) = None"
  shows "case r of
      Inl _ \<Rightarrow> engine_inv S e' rs \<and> eng_db e' = eng_db e \<and> eng_queue e' = eng_queue e \<and> eng_settlement e' = eng_settlement e
    | Inr env \<Rightarrow> \<exists>sq. engine_inv S e' (rs @ [\<lparr>rec_envelope = env, rec_source_account = account, rec_sequence = sq,
         rec_priority = priority, rec_enqueued_at = now\<rparr>]) \<and>
         env = seal X now key (verifying_key X key) xdr ttl \<and>
         extract_source_account_and_sequence X xdr = Inr (account, sq) \<and>
         (\<exists>l. (last_reserved (eng_sequences e) account = Some l \<or>
               last_reserved (eng_sequences e) account = None \<and> l = 0) \<and> sq = l + 1) \<and>
         (\<forall>b. stored_reservation (conn (eng_db e')) b =
            (if b = account then Some sq else stored_reservation (conn (eng_db e)) b)) \<and>
         current_status (conn (eng_db e')) = (current_status (conn (eng_db e)))(message_id env := Queued)"
proof -
  have guard: "emergency_guard_of (eng_queue e) = None" and d: "disk_ok S (eng_db e) rs"
    and conn: "dispatch_conn e = SameFile" and tr: "tracker_agrees (conn (eng_db e)) rs (eng_settlement e)"
    and qa: "queue_agrees (conn (eng_db e)) rs (eng_queue e)" and sa: "seqs_agree (conn (eng_db e)) (eng_sequences e)"
    using inv by (simp_all add: engine_inv_def queue_agrees_def)
  from run guard show ?thesis
  proof (cases rule: queue_payment_cases)
    case (failed err)
    then show ?thesis using inv seqs_agree_seed0 [OF sa] by (simp add: engine_inv_def)
  next
    case (queued env sq db seqs1)
    let ?r = "\<lparr>rec_envelope = env, rec_source_account = account, rec_sequence = sq,
        rec_priority = priority, rec_enqueued_at = now\<rparr>"
    have fr: "message_id env \<notin> rec_id ` set rs"
      using fresh tr queued(1,2) by (auto simp: tracker_agrees_def split: if_splits)
    note disk = enqueue_disk_ok [OF d _ fr queued(5) refl]
    have st: "current_status (conn db) = (current_status (conn (eng_db e)))(message_id env := Queued)"
      by (rule current_status_fun) (rule disk(2), use codec queued(2) in simp)
    have "tracker_agrees (conn db) (rs @ [?r]) (track (eng_settlement e) (message_id env))"
      using tr by (auto simp: tracker_agrees_def status_ops st rec_id_def)
    moreover have "queue_agrees (conn db) (rs @ [?r]) (heap_insert (eng_queue e) env priority now)"
      by (rule queue_agrees_insert [OF qa fr st])
    moreover have "seqs_agree (conn db) seqs1"
      by (rule seqs_agree_step [OF seqs_agree_seed0 [OF sa, of account]
            last_reserved_reserve_next [OF queued(4)] disk(3)])
        (use codec queued(2) in simp)
    moreover have "disk_ok S db (rs @ [?r])" by (rule disk(1)) (use codec queued(2) in simp)
    ultimately have "engine_inv S e' (rs @ [?r])"
      using queued(6) conn by (simp add: engine_inv_def)
    moreover have "\<exists>l. (last_reserved (eng_sequences e) account = Some l \<or>
        last_reserved (eng_sequences e) account = None \<and> l = 0) \<and> sq = l + 1"
      using queued(4) by (auto simp: reserve_next_Inr last_reserved_ops split: if_splits)
    moreover have "stored_reservation (conn (eng_db e')) b =
        (if b = account then Some sq else stored_reservation (conn (eng_db e)) b)" for b
      using disk(3) [of b] codec queued(2,6) by simp
    moreover have "current_status (conn (eng_db e')) = (current_status (conn (eng_db e)))(message_id env := Queued)"
      using st queued(6) by simp
    ultimately show ?thesis using queued(1-3) by auto
  qed
qed

section \<open>Dispatching\<close>

text \<open>A new status for one envelope, on disk.\<close>

lemma status_change_disk_ok:
  assumes "disk_ok S db rs"
    and "settlement_status_table (conn db') = replace_row ss_message_id
       \<lparr>ss_message_id = to_vec mid, ss_status = as_str st, ss_updated_at = t\<rparr> (settlement_status_table (conn db))"
    and "queued_envelopes (conn db') = queued_envelopes (conn db)"
    and "encryption_key_of db' = encryption_key_of db" and "db_inv (conn db')"
  shows "disk_ok S db' rs" and "current_status (conn db') = (current_status (conn db))(mid := st)"
proof -
  have "statuses_ok (conn db')"
    using assms(1) unfolding statuses_ok_def disk_ok_def assms(2) replace_row_def by auto
  then show "disk_ok S db' rs"
    using assms decode_record_key [OF assms(4), of S] by (simp add: disk_ok_def)
  show "current_status (conn db') = (current_status (conn db))(mid := st)"
    by (rule current_status_fun)
      (simp add: stored_status_def assms(2) statuses.lookup_upsert status_codec.dec_enc del: as_str.simps)
qed

lemma tracker_agrees_change:
  "tracker_agrees d rs t \<Longrightarrow> mid \<in> rec_id ` set rs \<Longrightarrow> current_status d' = (current_status d)(mid := st) \<Longrightarrow>
   tracker_agrees d' rs (restore t mid st)"
  by (auto simp: tracker_agrees_def status_ops)

lemma remove_one_entry:
  assumes "distinct (map rec_id rs)" and "r \<in> set rs" and "P r"
  shows "mset (map rec_entry (filter P rs)) =
     add_mset (rec_entry r) (mset (map rec_entry (filter (\<lambda>x. P x \<and> rec_id x \<noteq> rec_id r) rs)))"
  using assms
proof (induction rs)
  case (Cons x rs)
  show ?case
  proof (cases "x = r")
    case True
    have "filter (\<lambda>y. P y \<and> rec_id y \<noteq> rec_id r) rs = filter P rs"
    proof (rule filter_cong [OF refl])
      fix y
      assume "y \<in> set rs"
      then have "rec_id y \<noteq> rec_id r" using Cons.prems(1) True by (metis distinct.simps(2) image_eqI list.simps(9) set_map)
      then show "(P y \<and> rec_id y \<noteq> rec_id r) = P y" by simp
    qed
    then show ?thesis using True Cons.prems(3) by simp
  next
    case False
    then have "r \<in> set rs" using Cons.prems(2) by simp
    moreover have "rec_id x \<noteq> rec_id r" using Cons.prems(1) \<open>r \<in> set rs\<close> by force
    ultimately show ?thesis using Cons by (simp add: add_mset_commute)
  qed
qed simp

text \<open>Handing out the first entry leaves the queue in step with the file that says so.\<close>

lemma queue_agrees_pop:
  assumes qa: "queue_agrees d rs q0" and ids: "distinct (map rec_id rs)"
    and popq: "pop q0 = (Some env, q)"
    and cs: "current_status d' = (current_status d)(message_id env := Propagating)"
  obtains r where "r \<in> set rs" and "rec_envelope r = env" and "current_status d (rec_id r) = Queued"
    and "queue_agrees d' rs q"
    and "\<forall>r' \<in> set rs. current_status d (rec_id r') = Queued \<longrightarrow> queued_tx_le (rec_entry r') (rec_entry r)"
proof -
  let ?P = "\<lambda>r. current_status d (rec_id r) = Queued"
  have qi: "queue_inv q0" and cont: "queue_contents q0 = mset (map rec_entry (filter ?P rs))"
    using qa by (simp_all add: queue_agrees_def)
  obtain en where en: "q_envelope en = env" "queue_contents q0 = add_mset en (queue_contents q)"
    and top: "\<And>x. x \<in># queue_contents q0 \<Longrightarrow> queued_tx_le x en"
    using pop_Some [OF qi popq] by metis
  have "en \<in># queue_contents q0" using en(2) by simp
  then obtain r where r: "r \<in> set rs" "?P r" "en = rec_entry r" unfolding cont by auto
  have env: "rec_envelope r = env" using r(3) en(1) by (simp add: rec_entry_def)
  then have rid: "rec_id r = message_id env" by (simp add: rec_id_def)
  have "queue_contents q0 = add_mset en (mset (map rec_entry (filter (\<lambda>x. ?P x \<and> rec_id x \<noteq> rec_id r) rs)))"
    unfolding cont r(3) by (rule remove_one_entry [OF ids r(1), of ?P]) (rule r(2))
  moreover have "filter (\<lambda>x. ?P x \<and> rec_id x \<noteq> rec_id r) rs = filter (\<lambda>x. current_status d' (rec_id x) = Queued) rs"
    by (rule filter_cong [OF refl]) (auto simp: cs rid)
  ultimately have "queue_contents q = mset (map rec_entry (filter (\<lambda>x. current_status d' (rec_id x) = Queued) rs))"
    using en(2) by simp
  moreover have "queue_inv q" "emergency_guard_of q = None"
    using pop_inv [OF qi] pop_guard [of q0] popq qa by (auto simp: queue_agrees_def)
  ultimately have "queue_agrees d' rs q" by (simp add: queue_agrees_def)
  moreover have "queued_tx_le (rec_entry r') (rec_entry r)" if "r' \<in> set rs" "?P r'" for r'
  proof -
    have "rec_entry r' \<in># queue_contents q0" using that unfolding cont by simp
    then show ?thesis using top r(3) by simp
  qed
  ultimately show thesis using that r(1,2) env by blast
qed

lemma next_to_dispatch_inv:
  assumes inv: "engine_inv S e rs" and run: "next_to_dispatch hex now e fault = Some (out, e')"
  shows "engine_inv S e' rs \<and> eng_sequences e' = eng_sequences e \<and>
     stored_reservation (conn (eng_db e')) = stored_reservation (conn (eng_db e)) \<and>
     (case out of
        None \<Rightarrow> e' = e \<and> (queue_contents (eng_queue e) = {#} \<or> fault \<noteq> None)
      | Some env \<Rightarrow> \<exists>r \<in> set rs. env = rec_envelope r \<and>
          status (eng_settlement e) (message_id env) = Some Queued \<and>
          (\<forall>k. status (eng_settlement e') k =
             (if k = message_id env then Some Propagating else status (eng_settlement e) k)) \<and>
          (\<forall>r' \<in> set rs. status (eng_settlement e) (rec_id r') = Some Queued \<longrightarrow>
             queued_tx_le (rec_entry r') (rec_entry r)))"
proof (cases "peek (eng_queue e)")
  case None
  then have "queue_contents (eng_queue e) = {#}" by (simp add: peek_eq_pop pop_None_iff)
  then show ?thesis using run None inv by (simp add: next_to_dispatch_def)
next
  case (Some first)
  have d: "disk_ok S (eng_db e) rs" and c: "dispatch_conn e = SameFile"
    and tr: "tracker_agrees (conn (eng_db e)) rs (eng_settlement e)"
    and qa: "queue_agrees (conn (eng_db e)) rs (eng_queue e)" and sa: "seqs_agree (conn (eng_db e)) (eng_sequences e)"
    using inv by (simp_all add: engine_inv_def)
  show ?thesis
  proof (cases "fault = None")
    case False
    then have "out = None" "e' = e" using run Some c by (auto simp: next_to_dispatch_def persist_dispatch_status_def)
    then show ?thesis using inv False by simp
  next
    case True
    let ?mid = "message_id first"
    obtain db where db: "db = (eng_db e)\<lparr>conn := (conn (eng_db e))\<lparr>settlement_status_table :=
        replace_row ss_message_id \<lparr>ss_message_id = to_vec ?mid, ss_status = as_str Propagating, ss_updated_at = now\<rparr>
        (settlement_status_table (conn (eng_db e)))\<rparr>\<rparr>" by blast
    obtain q where popq: "pop (eng_queue e) = (Some first, q)"
      using Some by (cases "pop (eng_queue e)") (auto simp: peek_eq_pop)
    have "db_inv (conn db)" using d by (simp add: db disk_ok_def)
    from status_change_disk_ok [OF d _ _ _ this, of ?mid Propagating now]
    have disk: "disk_ok S db rs"
      and cs: "current_status (conn db) = (current_status (conn (eng_db e)))(?mid := Propagating)"
      by (simp_all add: db del: as_str.simps)
    obtain r where r: "r \<in> set rs" "rec_envelope r = first" "current_status (conn (eng_db e)) (rec_id r) = Queued"
      and queue: "queue_agrees (conn db) rs q"
      and top: "\<forall>r' \<in> set rs. current_status (conn (eng_db e)) (rec_id r') = Queued \<longrightarrow>
        queued_tx_le (rec_entry r') (rec_entry r)"
      by (rule queue_agrees_pop [OF qa disk_ok_ids [OF d] popq cs])
    have rid: "rec_id r = ?mid" using r(2) by (simp add: rec_id_def)
    then have mem: "?mid \<in> rec_id ` set rs" using r(1) by (metis image_eqI)
    have st: "status (eng_settlement e) ?mid = Some Queued"
      using tr r(3) rid mem by (simp add: tracker_agrees_def)
    then have trans: "transition hex (eng_settlement e) ?mid Propagating = Inr (restore (eng_settlement e) ?mid Propagating)"
      by (simp add: transition_Inr can_transition_to_def)
    have res: "out = Some first" "e' = e\<lparr>eng_db := db, eng_queue := q,
        eng_settlement := restore (eng_settlement e) ?mid Propagating\<rparr>"
      using run Some True c popq trans
      by (auto simp: db next_to_dispatch_def persist_dispatch_status_def Let_def simp del: as_str.simps)
    have sr: "stored_reservation (conn db) = stored_reservation (conn (eng_db e))"
      by (rule stored_reservation_frame) (simp add: db)
    have "engine_inv S e' rs"
      using disk c queue sa sr tracker_agrees_change [OF tr mem cs]
      by (simp add: engine_inv_def res seqs_agree_def)
    moreover have "status (eng_settlement e') k =
        (if k = ?mid then Some Propagating else status (eng_settlement e) k)" for k
      by (simp add: res status_ops)
    moreover have "queued_tx_le (rec_entry r') (rec_entry r)"
      if "r' \<in> set rs" "status (eng_settlement e) (rec_id r') = Some Queued" for r'
      using that tr top by (auto simp: tracker_agrees_def)
    ultimately show ?thesis using res r(1,2) st sr by auto
  qed
qed

lemma next_to_dispatch_total:
  "next_to_dispatch hex now e fault \<noteq> None"
proof (cases "pop (eng_queue e)")
  case (Pair o1 q)
  have "eng_queue (snd (persist_dispatch_status e mid t f)) = eng_queue e" for mid t f
    by (simp add: persist_dispatch_status_def)
  then show ?thesis
    using Pair by (auto simp: next_to_dispatch_def peek_eq_pop Let_def split: option.splits prod.splits sum.splits)
      (metis option.distinct(1) prod.inject snd_conv)+
qed

section \<open>Settlement reports\<close>

lemma set_status_disk_ok:
  assumes d: "disk_ok S db rs" and run: "set_settlement_status db mid st t fault = (r, db')"
  shows "disk_ok S db' rs" and "stored_reservation (conn db') = stored_reservation (conn db)"
    and "current_status (conn db') = current_status (conn db) \<or>
      current_status (conn db') = (current_status (conn db))(mid := st)"
    and "is_ok r \<Longrightarrow> current_status (conn db') = (current_status (conn db))(mid := st)"
proof -
  have frame: "queued_envelopes (conn db') = queued_envelopes (conn db)"
    "sequence_reservations (conn db') = sequence_reservations (conn db)"
    "encryption_key_of db' = encryption_key_of db"
    and st: "stored_status (conn db') = stored_status (conn db) \<or>
      stored_status (conn db') = (stored_status (conn db))(mid \<mapsto> st)"
    using set_settlement_status_any [OF run] by blast+
  have "db_inv (conn db')" "statuses_ok (conn db')"
    using d set_settlement_status_inv [of db mid st t fault] set_settlement_status_ok [of db mid st t fault] run
    by (simp_all add: disk_ok_def)
  then show "disk_ok S db' rs"
    using d frame decode_record_key [OF frame(3), of S] by (simp add: disk_ok_def)
  show "stored_reservation (conn db') = stored_reservation (conn db)"
    by (rule stored_reservation_frame) (rule frame(2))
  show "current_status (conn db') = current_status (conn db) \<or>
      current_status (conn db') = (current_status (conn db))(mid := st)"
    using st by (auto simp: current_status_def fun_eq_iff)
  assume "is_ok r"
  then obtain u where "set_settlement_status db mid st t fault = (Inr u, db')" using run by (cases r) auto
  then show "current_status (conn db') = (current_status (conn db))(mid := st)"
    using set_settlement_status_Inr(1) by (intro current_status_fun) simp
qed

lemma queue_agrees_change:
  assumes "queue_agrees d rs q" and "d' = (current_status d)(mid := st)"
    and "current_status d mid \<noteq> Queued" and "st \<noteq> Queued" and "current_status d1 = d'"
  shows "queue_agrees d1 rs q"
proof -
  have "filter (\<lambda>r. current_status d1 (rec_id r) = Queued) rs = filter (\<lambda>r. current_status d (rec_id r) = Queued) rs"
    using assms(2-5) by (intro filter_cong refl) auto
  then show ?thesis using assms(1) by (simp add: queue_agrees_def)
qed

text \<open>The outcomes of a settlement report: refused without a trace, stored and recorded, or interrupted.\<close>

lemma mark_settlement_cases:
  assumes "mark_settlement hex e mid nxt t fault = (r, e')"
  obtains (refused) err where "r = Inl err" and "e' = e"
  | (stored) s db where "r = Inr ()" and "status (eng_settlement e) mid = Some s" and "can_transition_to s nxt"
      and "set_settlement_status (eng_db e) mid nxt t fault = (Inr (), db)"
      and "e' = e\<lparr>eng_db := db, eng_settlement := restore (eng_settlement e) mid nxt\<rparr>"
  | (interrupted) s err db where "r = Inl err" and "status (eng_settlement e) mid = Some s" and "can_transition_to s nxt"
      and "set_settlement_status (eng_db e) mid nxt t fault = (Inl err, db)" and "e' = e\<lparr>eng_db := db\<rparr>"
proof (cases "\<exists>s. status (eng_settlement e) mid = Some s \<and> can_transition_to s nxt")
  case False
  then show thesis
    using assms refused by (auto simp: mark_settlement_def split: option.splits if_splits)
next
  case True
  then obtain s where s: "status (eng_settlement e) mid = Some s" "can_transition_to s nxt" by blast
  obtain sr db where set: "set_settlement_status (eng_db e) mid nxt t fault = (sr, db)" by fastforce
  have tr: "transition hex (eng_settlement e) mid nxt = Inr (restore (eng_settlement e) mid nxt)"
    using s by (simp add: transition_Inr)
  show thesis
  proof (cases sr)
    case (Inl err)
    then show thesis
      by (intro interrupted [of err s db]) (use assms s set in \<open>simp_all add: mark_settlement_def Let_def\<close>)
  next
    case (Inr u)
    then show thesis
      by (intro stored [of s db]) (use assms s set tr in \<open>simp_all add: mark_settlement_def Let_def\<close>)
  qed
qed

lemma mark_settlement_disk:
  assumes d: "disk_ok S (eng_db e) rs" and run: "mark_settlement hex e mid nxt t fault = (r, e')"
  shows "disk_ok S (eng_db e') rs"
    and "stored_reservation (conn (eng_db e')) = stored_reservation (conn (eng_db e))"
    and "current_status (conn (eng_db e)) k \<noteq> Queued \<Longrightarrow> current_status (conn (eng_db e')) k \<noteq> Queued"
proof -
  have "disk_ok S (eng_db e') rs \<and>
      stored_reservation (conn (eng_db e')) = stored_reservation (conn (eng_db e)) \<and>
      (current_status (conn (eng_db e)) k \<noteq> Queued \<longrightarrow> current_status (conn (eng_db e')) k \<noteq> Queued)"
    using run
  proof (cases rule: mark_settlement_cases)
    case refused
    then show ?thesis using d by simp
  next
    case (stored s db)
    then have "nxt \<noteq> Queued" by auto
    then show ?thesis using set_status_disk_ok [OF d stored(4)] stored(5) by simp
  next
    case (interrupted s err db)
    then have "nxt \<noteq> Queued" by auto
    then show ?thesis using set_status_disk_ok(1-3) [OF d interrupted(4)] interrupted(5) by (auto split: if_splits)
  qed
  then show "disk_ok S (eng_db e') rs"
    "stored_reservation (conn (eng_db e')) = stored_reservation (conn (eng_db e))"
    "current_status (conn (eng_db e)) k \<noteq> Queued \<Longrightarrow> current_status (conn (eng_db e')) k \<noteq> Queued"
    by simp_all
qed

lemma mark_settlement_inv:
  assumes inv: "engine_inv S e rs" and run: "mark_settlement hex e mid nxt t fault = (r, e')"
    and sent: "status (eng_settlement e) mid \<noteq> Some Queued" and whole: "is_ok r \<or> eng_db e' = eng_db e"
  shows "engine_inv S e' rs" and "eng_sequences e' = eng_sequences e" and "eng_queue e' = eng_queue e"
proof -
  have d: "disk_ok S (eng_db e) rs" and tr: "tracker_agrees (conn (eng_db e)) rs (eng_settlement e)"
    and qa: "queue_agrees (conn (eng_db e)) rs (eng_queue e)"
    and sa: "seqs_agree (conn (eng_db e)) (eng_sequences e)" and c: "dispatch_conn e = SameFile"
    using inv by (simp_all add: engine_inv_def)
  from run have "engine_inv S e' rs \<and> eng_sequences e' = eng_sequences e \<and> eng_queue e' = eng_queue e"
  proof (cases rule: mark_settlement_cases)
    case refused
    then show ?thesis using inv by simp
  next
    case (stored s db)
    note sd = set_status_disk_ok [OF d stored(4)]
    have cs: "current_status (conn db) = (current_status (conn (eng_db e)))(mid := nxt)" by (rule sd(4)) simp
    have mem: "mid \<in> rec_id ` set rs" and cur: "current_status (conn (eng_db e)) mid \<noteq> Queued"
      using tr stored(2) sent by (auto simp: tracker_agrees_def split: if_splits)
    have "nxt \<noteq> Queued" using stored(3) by auto
    then have "queue_agrees (conn db) rs (eng_queue e)" using queue_agrees_change [OF qa refl cur _ cs] by simp
    moreover have "seqs_agree (conn db) (eng_sequences e)" using sa sd(2) by (simp add: seqs_agree_def)
    ultimately show ?thesis
      using stored(5) c sd(1) tracker_agrees_change [OF tr mem cs] by (simp add: engine_inv_def)
  next
    case (interrupted s err db)
    then have "e' = e" using whole by simp
    then show ?thesis using inv by simp
  qed
  then show "engine_inv S e' rs" "eng_sequences e' = eng_sequences e" "eng_queue e' = eng_queue e" by simp_all
qed

section \<open>Accounts and conflicts\<close>

lemma seed_account_inv:
  assumes inv: "engine_inv S e rs" and run: "seed_account e a n fault = (Inr (), e')"
  shows "engine_inv S e' rs" and "eng_queue e' = eng_queue e" and "eng_settlement e' = eng_settlement e"
    and "stored_reservation (conn (eng_db e')) b = (if b = a then Some n else stored_reservation (conn (eng_db e)) b)"
    and "current_status (conn (eng_db e')) = current_status (conn (eng_db e))"
proof -
  have e': "e' = e\<lparr>eng_sequences := seed (eng_sequences e) a n, eng_db := (eng_db e)\<lparr>conn := (conn (eng_db e))
      \<lparr>sequence_reservations := replace_row sr_source_account \<lparr>sr_source_account = a, sr_last_reserved = n\<rparr>
        (sequence_reservations (conn (eng_db e)))\<rparr>\<rparr>\<rparr>"
    using run by (auto simp: seed_account_def save_sequence_reservation_def Let_def split: if_splits)
  have st: "stored_status (conn (eng_db e')) = stored_status (conn (eng_db e))"
    by (rule stored_status_frame) (simp add: e')
  show cs: "current_status (conn (eng_db e')) = current_status (conn (eng_db e))"
    using st by (simp add: current_status_def fun_eq_iff)
  show res: "stored_reservation (conn (eng_db e')) b = (if b = a then Some n else stored_reservation (conn (eng_db e)) b)" for b
    by (simp add: e' stored_reservation_replace)
  show "eng_queue e' = eng_queue e" "eng_settlement e' = eng_settlement e" by (simp_all add: e')
  have "disk_ok S (eng_db e') rs"
    using inv decode_record_key [of "eng_db e'" "eng_db e" S]
    by (simp add: engine_inv_def disk_ok_def e' db_inv_replace statuses_ok_def)
  moreover have "seqs_agree (conn (eng_db e')) (eng_sequences e')"
    using inv res by (auto simp: engine_inv_def seqs_agree_def e' last_reserved_ops)
  ultimately show "engine_inv S e' rs"
    using inv cs by (simp add: engine_inv_def tracker_agrees_def queue_agrees_def e')
qed

lemma engine_record_conflict_inv:
  assumes inv: "engine_inv S e rs" and run: "engine_record_conflict e c t fault = (r, e')"
  shows "engine_inv S e' rs" and "stored_reservation (conn (eng_db e')) = stored_reservation (conn (eng_db e))"
    and "current_status (conn (eng_db e')) = current_status (conn (eng_db e))"
proof -
  obtain db where rc: "record_conflict (eng_db e) c t fault = (r, db)" and e': "e' = e\<lparr>eng_db := db\<rparr>"
    using run by (auto simp: engine_record_conflict_def split: prod.splits)
  have frame: "queued_envelopes (conn db) = queued_envelopes (conn (eng_db e))"
    "settlement_status_table (conn db) = settlement_status_table (conn (eng_db e))"
    "sequence_reservations (conn db) = sequence_reservations (conn (eng_db e))"
    "encryption_key_of db = encryption_key_of (eng_db e)"
    using rc by (auto simp: record_conflict_def split: if_splits option.splits)
  have sr: "stored_reservation (conn db) = stored_reservation (conn (eng_db e))"
    by (rule stored_reservation_frame) (rule frame(3))
  have cs: "current_status (conn db) = current_status (conn (eng_db e))"
    using stored_status_frame [OF frame(2)] by (simp add: current_status_def fun_eq_iff)
  have "db_inv (conn db)"
    using inv record_conflict_inv [of "eng_db e" c t fault] rc by (simp add: engine_inv_def disk_ok_def)
  then have "disk_ok S db rs"
    using inv frame decode_record_key [OF frame(4), of S] by (simp add: engine_inv_def disk_ok_def statuses_ok_def)
  then show "engine_inv S e' rs"
    using inv sr cs by (simp add: engine_inv_def tracker_agrees_def queue_agrees_def seqs_agree_def e')
  show "stored_reservation (conn (eng_db e')) = stored_reservation (conn (eng_db e))"
    "current_status (conn (eng_db e')) = current_status (conn (eng_db e))"
    using sr cs by (simp_all add: e')
qed

lemma queue_payment_tracked:
  "queue_payment X S now nonce e account key xdr priority ttl fault = (Inr env, e') \<Longrightarrow>
   engine_settlement_status e' (message_id env) = Some Queued"
  by (auto simp: queue_payment_def Let_def engine_settlement_status_def status_ops split: sum.splits prod.splits)


end
