(* ===== verification/Engine_Runs.thy ===== *)
theory Engine_Runs
  imports Engine_Laws
begin

text \<open>
  Runs of the engine: any sequence of calls, with failing database statements, crashes and
  restarts, from a new database.  Two ghost logs record what the outside has seen: the ids of the
  envelopes handed to the mesh, and the (account, sequence number) pairs of the queued payments.
\<close>

section \<open>The step relation\<close>

type_synonym payment = "u64 \<times> signing_key \<times> string \<times> u8"

definition sealed :: "third_party \<Rightarrow> payment \<Rightarrow> transaction_envelope" where
  "sealed X p = (case p of (now, key, xdr, ttl) \<Rightarrow> seal X now key (verifying_key X key) xdr ttl)"

definition xdr_of :: "payment \<Rightarrow> string" where
  "xdr_of p = (case p of (now, key, xdr, ttl) \<Rightarrow> xdr)"

definition assigned :: "third_party \<Rightarrow> string \<Rightarrow> 'a result \<Rightarrow> (string \<times> i64) list" where
  "assigned X xdr r =
     (case r of
        Inl _ \<Rightarrow> []
      | Inr _ \<Rightarrow> (case extract_source_account_and_sequence X xdr of Inl _ \<Rightarrow> [] | Inr acc_seq \<Rightarrow> [acc_seq]))"

definition handed_out :: "transaction_envelope option \<Rightarrow> bytes32 list" where
  "handed_out out = (case out of None \<Rightarrow> [] | Some env \<Rightarrow> [message_id env])"

text \<open>
  What is asked of the callers: settlement is reported for envelopes that have been dispatched,
  an account is not seeded below a number already used, and the numbers of an account do not run
  past the largest \<open>i64\<close>.  A report whose write fails half-way is followed by a restart (the
  engine's memory and its database would otherwise disagree).
\<close>

inductive engine_run ::
  "third_party \<Rightarrow> 'z serde_scheme \<Rightarrow> hex_encode \<Rightarrow> string \<Rightarrow> payment set
     \<Rightarrow> sync_engine \<Rightarrow> bytes32 list \<Rightarrow> (string \<times> i64) list \<Rightarrow> bool"
  for X S hex path P where
  run_start: "engine_open S path None None = Inr e \<Longrightarrow> engine_run X S hex path P e [] []"
| run_pay: "engine_run X S hex path P e D A \<Longrightarrow> (now, key, xdr, ttl) \<in> P \<Longrightarrow>
    (\<forall>l. last_reserved (eng_sequences e) account = Some l \<longrightarrow> sint l < i64_max) \<Longrightarrow>
    queue_payment X S now nonce e account key xdr priority ttl fault = (r, e') \<Longrightarrow>
    engine_run X S hex path P e' D (A @ assigned X xdr r)"
| run_dispatch: "engine_run X S hex path P e D A \<Longrightarrow>
    next_to_dispatch hex now e fault = Some (out, e') \<Longrightarrow>
    engine_run X S hex path P e' (D @ handed_out out) A"
| run_dispatch_crash: "engine_run X S hex path P e D A \<Longrightarrow> peek (eng_queue e) = Some first \<Longrightarrow>
    persist_dispatch_status e (message_id first) now None = (Inr (), e1) \<Longrightarrow>
    engine_open S path (Some (conn (eng_db e1))) None = Inr e' \<Longrightarrow>
    engine_run X S hex path P e' D A"
| run_settle: "engine_run X S hex path P e D A \<Longrightarrow>
    mark_settlement hex e mid nxt now fault = (r, e') \<Longrightarrow>
    engine_settlement_status e mid \<noteq> Some Queued \<Longrightarrow> is_ok r \<or> eng_db e' = eng_db e \<Longrightarrow>
    engine_run X S hex path P e' D A"
| run_settle_crash: "engine_run X S hex path P e D A \<Longrightarrow>
    mark_settlement hex e mid nxt now fault = (r, e1) \<Longrightarrow>
    engine_open S path (Some (conn (eng_db e1))) None = Inr e' \<Longrightarrow>
    engine_run X S hex path P e' D A"
| run_seed: "engine_run X S hex path P e D A \<Longrightarrow>
    seed_account e account n fault = (Inr (), e') \<Longrightarrow>
    (\<And>l. last_reserved_sequence e account None = Inr (Some l) \<Longrightarrow> sint l \<le> sint n) \<Longrightarrow>
    engine_run X S hex path P e' D A"
| run_conflict: "engine_run X S hex path P e D A \<Longrightarrow>
    engine_record_conflict e c now fault = (r, e') \<Longrightarrow>
    engine_run X S hex path P e' D A"
| run_restart: "engine_run X S hex path P e D A \<Longrightarrow>
    engine_open S path (Some (conn (eng_db e))) None = Inr e' \<Longrightarrow>
    engine_run X S hex path P e' D A"

text \<open>
  The third-party facts a run relies on: MessagePack decodes what it encoded, and message ids do
  not collide on the payments of the run.
\<close>

definition payments_ok :: "third_party \<Rightarrow> 'z serde_scheme \<Rightarrow> payment set \<Rightarrow> bool" where
  "payments_ok X S P \<longleftrightarrow>
     (\<forall>p \<in> P. envelope_codec_ok S (sealed X p)) \<and>
     (\<forall>p \<in> P. \<forall>q \<in> P. message_id (sealed X p) = message_id (sealed X q) \<longrightarrow> xdr_of p = xdr_of q)"

section \<open>The invariant of a run\<close>

definition rec_number :: "queued_envelope_record \<Rightarrow> string \<times> i64" where
  "rec_number r = (rec_source_account r, rec_sequence r)"

definition logs_inv ::
  "third_party \<Rightarrow> payment set \<Rightarrow> database \<Rightarrow> queued_envelope_record list \<Rightarrow> bytes32 list
     \<Rightarrow> (string \<times> i64) list \<Rightarrow> bool" where
  "logs_inv X P d rs D A \<longleftrightarrow>
     (\<forall>r \<in> set rs. \<exists>p \<in> P. rec_envelope r = sealed X p \<and>
        extract_source_account_and_sequence X (xdr_of p) = Inr (rec_number r)) \<and>
     A = map rec_number rs \<and> distinct A \<and>
     (\<forall>a x. (a, x) \<in> set A \<longrightarrow> (\<exists>l. stored_reservation d a = Some l \<and> sint x \<le> sint l)) \<and>
     distinct D \<and> (\<forall>mid \<in> set D. mid \<in> rec_id ` set rs \<and> current_status d mid \<noteq> Queued)"

lemma logs_inv_distinct: "logs_inv X P d rs D A \<Longrightarrow> distinct A"
  unfolding logs_inv_def by blast

lemma logs_inv_mono:
  assumes "logs_inv X P d rs D A"
    and "\<And>a l. stored_reservation d a = Some l \<Longrightarrow> \<exists>l'. stored_reservation d' a = Some l' \<and> sint l \<le> sint l'"
    and "\<And>k. current_status d k \<noteq> Queued \<Longrightarrow> current_status d' k \<noteq> Queued"
  shows "logs_inv X P d' rs D A"
proof -
  have "\<exists>l'. stored_reservation d' a = Some l' \<and> sint x \<le> sint l'" if "(a, x) \<in> set A" for a x
  proof -
    from that assms(1) obtain l where l: "stored_reservation d a = Some l" "sint x \<le> sint l"
      unfolding logs_inv_def by blast
    from assms(2) [OF l(1)] l(2) show ?thesis by (meson order_trans)
  qed
  then show ?thesis using assms(1,3) unfolding logs_inv_def by blast
qed

lemma logs_inv_reservations:
  "logs_inv X P d rs D A \<Longrightarrow> stored_reservation d' = stored_reservation d \<Longrightarrow>
   (\<And>k. current_status d k \<noteq> Queued \<Longrightarrow> current_status d' k \<noteq> Queued) \<Longrightarrow> logs_inv X P d' rs D A"
  by (rule logs_inv_mono [where d = d]) auto

text \<open>The number a payment gets has not been used: it is one past the stored reservation.\<close>

lemma next_number_fresh:
  assumes "logs_inv X P d rs D A" and "seqs_agree d m"
    and "last_reserved m a = Some l \<or> last_reserved m a = None \<and> l = 0"
    and "\<forall>l. last_reserved m a = Some l \<longrightarrow> sint l < i64_max"
    and "stored_reservation d a = Some k" 
  shows "sint k < sint (l + 1)" and "(a, l + 1) \<notin> set A"
proof -
  have "last_reserved m a = Some k" using assms(2,5) by (metis option.distinct(1) seqs_agree_def)
  then have "l = k" and "sint k < i64_max" using assms(3,4) by auto
  then show *: "sint k < sint (l + 1)" by (simp add: sint_i64_succ)
  show "(a, l + 1) \<notin> set A"
  proof
    assume "(a, l + 1) \<in> set A"
    with assms(1,5) have "sint (l + 1) \<le> sint k" unfolding logs_inv_def by fastforce
    with * show False by simp
  qed
qed

lemma logs_inv_number_fresh:
  assumes "logs_inv X P d rs D A" and "seqs_agree d m"
    and "last_reserved m a = Some l \<or> last_reserved m a = None \<and> l = 0"
    and "\<forall>l. last_reserved m a = Some l \<longrightarrow> sint l < i64_max"
  shows "(a, l + 1) \<notin> set A"
proof (cases "stored_reservation d a")
  case None
  then show ?thesis using assms(1) unfolding logs_inv_def by (metis option.distinct(1))
next
  case (Some k)
  then show ?thesis using next_number_fresh(2) [OF assms] by blast
qed

lemma payment_id_fresh:
  assumes "logs_inv X P d rs D A" and "payments_ok X S P" and "p \<in> P"
    and "extract_source_account_and_sequence X (xdr_of p) = Inr n" and "n \<notin> set A"
  shows "message_id (sealed X p) \<notin> rec_id ` set rs"
proof
  assume "message_id (sealed X p) \<in> rec_id ` set rs"
  then obtain r where r: "r \<in> set rs" "rec_id r = message_id (sealed X p)" by auto
  with assms(1) obtain q where q: "q \<in> P" "rec_envelope r = sealed X q"
    "extract_source_account_and_sequence X (xdr_of q) = Inr (rec_number r)" unfolding logs_inv_def by blast
  then have "xdr_of q = xdr_of p" using assms(2,3) r(2) unfolding payments_ok_def rec_id_def by metis
  then have "n = rec_number r" using assms(4) q(3) by simp
  then show False using assms(1,5) r(1) by (simp add: logs_inv_def)
qed

section \<open>Every step preserves the invariant\<close>

definition run_inv ::
  "third_party \<Rightarrow> 'z serde_scheme \<Rightarrow> payment set \<Rightarrow> sync_engine \<Rightarrow> bytes32 list \<Rightarrow> (string \<times> i64) list \<Rightarrow> bool" where
  "run_inv X S P e D A \<longleftrightarrow> (\<exists>rs. engine_inv S e rs \<and> logs_inv X P (conn (eng_db e)) rs D A)"

lemma db_without_key: "disk_ok S db rs \<Longrightarrow> db = \<lparr>conn = conn db, encryption_key_of = None\<rparr>"
  by (simp add: disk_ok_def)

lemma reopen_inv:
  assumes d: "disk_ok S db rs" and l: "logs_inv X P (conn db) rs D A" and p: "path \<noteq> '':memory:''"
    and run: "engine_open S path (Some (conn db)) None = Inr e'"
  shows "run_inv X S P e' D A"
proof -
  have "disk_ok S \<lparr>conn = conn db, encryption_key_of = None\<rparr> rs" using d db_without_key [OF d] by simp
  from engine_open_ok [OF this p] run
  have "engine_inv S e' rs" "conn (eng_db e') = conn db" by auto
  then show ?thesis using l by (auto simp: run_inv_def)
qed

lemma open_new_file:
  assumes "path \<noteq> '':memory:''"
  shows "engine_open S path None None = engine_open S path (Some empty_database) None"
proof -
  have "init path None f = init path (Some empty_database) f" for f
    using assms by (simp add: init_def)
  then show ?thesis by (simp add: engine_open_def)
qed

lemma start_inv:
  assumes "path \<noteq> '':memory:''" and "engine_open S path None None = Inr e'"
  shows "run_inv X S P e' [] []"
proof (rule reopen_inv)
  show "disk_ok S \<lparr>conn = empty_database, encryption_key_of = None\<rparr> []"
    using db_inv_empty db_inv_new(2) [of None] by (simp add: disk_ok_def) (simp add: empty_database_def)
  show "logs_inv X P (conn \<lparr>conn = empty_database, encryption_key_of = None\<rparr>) [] [] []"
    by (simp add: logs_inv_def)
  show "engine_open S path (Some (conn \<lparr>conn = empty_database, encryption_key_of = None\<rparr>)) None = Inr e'"
    using assms(2) open_new_file [OF assms(1), of S] by simp
qed (rule assms(1))

lemma pay_fresh:
  assumes inv: "engine_inv S e rs" and logs: "logs_inv X P (conn (eng_db e)) rs D A"
    and P: "payments_ok X S P" "(now, key, xdr, ttl) \<in> P"
    and room: "\<forall>l. last_reserved (eng_sequences e) account = Some l \<longrightarrow> sint l < i64_max"
    and run: "queue_payment X S now nonce e account key xdr priority ttl fault = (r, e')" and ok: "is_ok r"
  shows "message_id (sealed X (now, key, xdr, ttl)) \<notin> rec_id ` set rs"
proof -
  have guard: "emergency_guard_of (eng_queue e) = None" using inv by (simp add: engine_inv_def queue_agrees_def)
  have sa: "seqs_agree (conn (eng_db e)) (eng_sequences e)" using inv by (simp add: engine_inv_def)
  from run guard show ?thesis
  proof (cases rule: queue_payment_cases)
    case (failed err)
    then show ?thesis using ok by simp
  next
    case (queued env' sq db seqs1)
    obtain l where "last_reserved (eng_sequences e) account = Some l \<or>
        last_reserved (eng_sequences e) account = None \<and> l = 0" and "sq = l + 1"
      using queued(4) by (auto simp: reserve_next_Inr last_reserved_ops split: if_splits)
    then have "(account, sq) \<notin> set A" using logs_inv_number_fresh [OF logs sa _ room] by blast
    then show ?thesis using payment_id_fresh [OF logs P] queued(3) by (simp add: xdr_of_def)
  qed
qed

lemma pay_step:
  assumes inv: "engine_inv S e rs" and logs: "logs_inv X P (conn (eng_db e)) rs D A"
    and P: "payments_ok X S P" "(now, key, xdr, ttl) \<in> P"
    and room: "\<forall>l. last_reserved (eng_sequences e) account = Some l \<longrightarrow> sint l < i64_max"
    and run: "queue_payment X S now nonce e account key xdr priority ttl fault = (r, e')"
  obtains (failed) err where "r = Inl err" and "engine_inv S e' rs" and "eng_db e' = eng_db e"
      and "eng_queue e' = eng_queue e" and "eng_settlement e' = eng_settlement e"
  | (queued) sq l where "r = Inr (sealed X (now, key, xdr, ttl))"
      and "engine_inv S e' (rs @ [\<lparr>rec_envelope = sealed X (now, key, xdr, ttl), rec_source_account = account,
        rec_sequence = sq, rec_priority = priority, rec_enqueued_at = now\<rparr>])"
      and "message_id (sealed X (now, key, xdr, ttl)) \<notin> rec_id ` set rs"
      and "extract_source_account_and_sequence X xdr = Inr (account, sq)"
      and "last_reserved (eng_sequences e) account = Some l \<or> last_reserved (eng_sequences e) account = None \<and> l = 0"
      and "sq = l + 1"
      and "\<And>b. stored_reservation (conn (eng_db e')) b =
        (if b = account then Some sq else stored_reservation (conn (eng_db e)) b)"
      and "current_status (conn (eng_db e')) =
        (current_status (conn (eng_db e)))(message_id (sealed X (now, key, xdr, ttl)) := Queued)"
proof -
  let ?p = "(now, key, xdr, ttl)"
  have env: "sealed X ?p = seal X now key (verifying_key X key) xdr ttl" by (simp add: sealed_def)
  have codec: "envelope_codec_ok S (seal X now key (verifying_key X key) xdr ttl)"
    using P unfolding payments_ok_def env [symmetric] by blast
  have "status (eng_settlement e) (message_id (seal X now key (verifying_key X key) xdr ttl)) = None" if "is_ok r"
    using pay_fresh [OF inv logs P room run that] inv by (simp add: env engine_inv_def tracker_agrees_def)
  note step = queue_payment_inv [OF inv run codec this]
  show thesis
  proof (cases r)
    case (Inl err)
    then show thesis using step failed by simp
  next
    case (Inr env')
    then have "is_ok r" by simp
    note fr = pay_fresh [OF inv logs P room run this]
    from step Inr env have "env' = sealed X ?p" by auto
    with step Inr env fr show thesis by (auto intro: queued)
  qed
qed

text \<open>One more payment in the logs.\<close>

lemma logs_inv_pay:
  assumes logs: "logs_inv X P d rs D A" and p: "p \<in> P" "rec_envelope r = sealed X p"
    and ext: "extract_source_account_and_sequence X (xdr_of p) = Inr (rec_number r)"
    and new: "rec_number r = (account, sq)" "(account, sq) \<notin> set A" "rec_id r \<notin> rec_id ` set rs"
    and res: "\<And>b. stored_reservation d' b = (if b = account then Some sq else stored_reservation d b)"
    and grows: "\<And>k. stored_reservation d account = Some k \<Longrightarrow> sint k < sint sq"
    and cs: "current_status d' = (current_status d)(rec_id r := Queued)"
  shows "logs_inv X P d' (rs @ [r]) D (A @ [(account, sq)])"
  unfolding logs_inv_def
proof (intro conjI)
  show "\<forall>r' \<in> set (rs @ [r]). \<exists>p \<in> P. rec_envelope r' = sealed X p \<and>
      extract_source_account_and_sequence X (xdr_of p) = Inr (rec_number r')"
    using logs p ext by (auto simp: logs_inv_def)
  show "A @ [(account, sq)] = map rec_number (rs @ [r])" using logs new(1) by (simp add: logs_inv_def)
  show "distinct (A @ [(account, sq)])" using logs_inv_distinct [OF logs] new(2) by simp
  show "distinct D" using logs by (simp add: logs_inv_def)
  show "\<forall>mid \<in> set D. mid \<in> rec_id ` set (rs @ [r]) \<and> current_status d' mid \<noteq> Queued"
    using logs new(3) by (auto simp: logs_inv_def cs)
  show "\<forall>a x. (a, x) \<in> set (A @ [(account, sq)]) \<longrightarrow> (\<exists>l. stored_reservation d' a = Some l \<and> sint x \<le> sint l)"
  proof (intro allI impI)
    fix a x
    assume ax: "(a, x) \<in> set (A @ [(account, sq)])"
    show "\<exists>l. stored_reservation d' a = Some l \<and> sint x \<le> sint l"
    proof (cases "(a, x) \<in> set A")
      case True
      then obtain k where "stored_reservation d a = Some k" "sint x \<le> sint k"
        using logs unfolding logs_inv_def by blast
      then show ?thesis using res grows [of k] by (cases "a = account") simp_all
    qed (use ax res in simp)
  qed
qed

lemma pay_inv:
  assumes ri: "run_inv X S P e D A" and P: "payments_ok X S P" "(now, key, xdr, ttl) \<in> P"
    and room: "\<forall>l. last_reserved (eng_sequences e) account = Some l \<longrightarrow> sint l < i64_max"
    and run: "queue_payment X S now nonce e account key xdr priority ttl fault = (r, e')"
  shows "run_inv X S P e' D (A @ assigned X xdr r)"
proof -
  obtain rs where inv: "engine_inv S e rs" and logs: "logs_inv X P (conn (eng_db e)) rs D A"
    using ri unfolding run_inv_def by blast
  have sa: "seqs_agree (conn (eng_db e)) (eng_sequences e)" using inv by (simp add: engine_inv_def)
  show ?thesis
  proof (cases rule: pay_step [OF inv logs P room run, case_names failed queued])
    case (failed err)
    then show ?thesis using logs by (auto simp: run_inv_def assigned_def)
  next
    case (queued sq l)
    let ?p = "(now, key, xdr, ttl)"
    let ?r = "\<lparr>rec_envelope = sealed X ?p, rec_source_account = account, rec_sequence = sq,
        rec_priority = priority, rec_enqueued_at = now\<rparr>"
    note ext = queued(4) and l = queued(5) and sq = queued(6)
    have "logs_inv X P (conn (eng_db e')) (rs @ [?r]) D (A @ [(account, sq)])"
    proof (rule logs_inv_pay [OF logs P(2) _ _ _ _ _ queued(7)])
      show "(account, sq) \<notin> set A" using logs_inv_number_fresh [OF logs sa l room] sq by simp
      show "rec_id ?r \<notin> rec_id ` set rs" using queued(3) by (simp add: rec_id_def)
      show "sint k < sint sq" if "stored_reservation (conn (eng_db e)) account = Some k" for k
        unfolding sq by (rule next_number_fresh(1) [OF logs sa l room that])
      show "current_status (conn (eng_db e')) = (current_status (conn (eng_db e)))(rec_id ?r := Queued)"
        using queued(8) by (simp add: rec_id_def)
    qed (simp_all add: rec_number_def xdr_of_def ext)
    then show ?thesis using queued(1,2) ext by (auto simp: run_inv_def assigned_def)
  qed
qed

lemma dispatch_inv:
  assumes ri: "run_inv X S P e D A" and run: "next_to_dispatch hex now e fault = Some (out, e')"
  shows "run_inv X S P e' (D @ handed_out out) A"
proof -
  obtain rs where inv: "engine_inv S e rs" and logs: "logs_inv X P (conn (eng_db e)) rs D A"
    using ri unfolding run_inv_def by blast
  note step = next_to_dispatch_inv [OF inv run]
  show ?thesis
  proof (cases out)
    case None
    then show ?thesis using step logs by (auto simp: run_inv_def handed_out_def)
  next
    case (Some env)
    let ?d = "conn (eng_db e)" and ?d' = "conn (eng_db e')"
    obtain r where r: "r \<in> set rs" "env = rec_envelope r"
      and was: "status (eng_settlement e) (message_id env) = Some Queued"
      and st: "\<And>k. status (eng_settlement e') k =
        (if k = message_id env then Some Propagating else status (eng_settlement e) k)"
      and inv': "engine_inv S e' rs" and es: "eng_sequences e' = eng_sequences e"
      and sr: "stored_reservation ?d' = stored_reservation ?d"
      using step Some by auto
    have tr: "tracker_agrees ?d rs (eng_settlement e)" "tracker_agrees ?d' rs (eng_settlement e')"
      using inv inv' by (simp_all add: engine_inv_def)
    have mem: "message_id env \<in> rec_id ` set rs" using r by (auto simp: rec_id_def)
    have cs: "current_status ?d' k = (if k = message_id env then Propagating else current_status ?d k)"
      if "k \<in> rec_id ` set rs" for k
      using tr st [of k] that by (auto simp: tracker_agrees_def split: if_splits)
    have "message_id env \<notin> set D"
      using was tr(1) mem logs by (auto simp: tracker_agrees_def logs_inv_def)
    then have "logs_inv X P ?d' rs (D @ [message_id env]) A"
      using logs mem cs unfolding logs_inv_def sr by auto
    then show ?thesis using inv' Some by (auto simp: run_inv_def handed_out_def)
  qed
qed

section \<open>The invariant of every run\<close>

lemma engine_inv_parts:
  assumes "engine_inv S e rs"
  shows "disk_ok S (eng_db e) rs" and "tracker_agrees (conn (eng_db e)) rs (eng_settlement e)"
    and "queue_agrees (conn (eng_db e)) rs (eng_queue e)" and "seqs_agree (conn (eng_db e)) (eng_sequences e)"
    and "dispatch_conn e = SameFile"
  using assms by (simp_all add: engine_inv_def)

lemma dispatch_crash_inv:
  assumes ri: "run_inv X S P e D A" and path: "path \<noteq> '':memory:''"
    and run: "persist_dispatch_status e mid now None = (Inr (), e1)"
    and reopen: "engine_open S path (Some (conn (eng_db e1))) None = Inr e'"
  shows "run_inv X S P e' D A"
proof -
  obtain rs where inv: "engine_inv S e rs" and logs: "logs_inv X P (conn (eng_db e)) rs D A"
    using ri unfolding run_inv_def by blast
  note inv = engine_inv_parts [OF inv]
  obtain db where e1: "e1 = e\<lparr>eng_db := db\<rparr>" and db: "db = (eng_db e)\<lparr>conn := (conn (eng_db e))
      \<lparr>settlement_status_table := replace_row ss_message_id
        \<lparr>ss_message_id = to_vec mid, ss_status = as_str Propagating, ss_updated_at = now\<rparr>
        (settlement_status_table (conn (eng_db e)))\<rparr>\<rparr>"
    using run inv(5) by (simp add: persist_dispatch_status_def del: as_str.simps)
  have "db_inv (conn db)" using inv(1) by (simp add: db disk_ok_def)
  from status_change_disk_ok [OF inv(1) _ _ _ this, of mid Propagating now]
  have disk: "disk_ok S db rs" and cs: "current_status (conn db) = (current_status (conn (eng_db e)))(mid := Propagating)"
    by (simp_all add: db del: as_str.simps)
  have "logs_inv X P (conn db) rs D A"
  proof (rule logs_inv_reservations [OF logs])
    show "stored_reservation (conn db) = stored_reservation (conn (eng_db e))"
      by (rule stored_reservation_frame) (simp add: db)
  qed (simp add: cs)
  then show ?thesis using reopen_inv [OF disk _ path] reopen e1 by simp
qed

lemma settle_crash_inv:
  assumes ri: "run_inv X S P e D A" and path: "path \<noteq> '':memory:''"
    and run: "mark_settlement hex e mid nxt now fault = (r, e1)"
    and reopen: "engine_open S path (Some (conn (eng_db e1))) None = Inr e'"
  shows "run_inv X S P e' D A"
proof -
  obtain rs where inv: "engine_inv S e rs" and logs: "logs_inv X P (conn (eng_db e)) rs D A"
    using ri unfolding run_inv_def by blast
  note d = mark_settlement_disk [OF engine_inv_parts(1) [OF inv] run]
  show ?thesis by (rule reopen_inv [OF d(1) logs_inv_reservations [OF logs d(2)] path reopen]) (rule d(3))
qed

lemma settle_inv:
  assumes ri: "run_inv X S P e D A"
    and run: "mark_settlement hex e mid nxt now fault = (r, e')"
    and sent: "engine_settlement_status e mid \<noteq> Some Queued" and whole: "is_ok r \<or> eng_db e' = eng_db e"
  shows "run_inv X S P e' D A"
proof -
  obtain rs where inv: "engine_inv S e rs" and logs: "logs_inv X P (conn (eng_db e)) rs D A"
    using ri unfolding run_inv_def by blast
  note d = mark_settlement_disk [OF engine_inv_parts(1) [OF inv] run]
  have "engine_inv S e' rs"
    using mark_settlement_inv(1) [OF inv run _ whole] sent by (simp add: engine_settlement_status_def)
  moreover have "logs_inv X P (conn (eng_db e')) rs D A"
    by (rule logs_inv_reservations [OF logs d(2)]) (rule d(3))
  ultimately show ?thesis by (auto simp: run_inv_def)
qed

lemma seed_inv:
  assumes ri: "run_inv X S P e D A" and run: "seed_account e account n fault = (Inr (), e')"
    and above: "\<And>l. last_reserved_sequence e account None = Inr (Some l) \<Longrightarrow> sint l \<le> sint n"
  shows "run_inv X S P e' D A"
proof -
  obtain rs where inv: "engine_inv S e rs" and logs: "logs_inv X P (conn (eng_db e)) rs D A"
    using ri unfolding run_inv_def by blast
  note s = seed_account_inv [OF inv run]
  have "last_reserved_sequence e account None = Inr (stored_reservation (conn (eng_db e)) account)"
    by (simp add: last_reserved_sequence_def load_sequence_reservation_def stored_reservation_def)
  then have "logs_inv X P (conn (eng_db e')) rs D A"
    by (intro logs_inv_mono [OF logs]) (use above s(4,5) in \<open>auto split: if_splits\<close>)
  then show ?thesis using s(1) by (auto simp: run_inv_def)
qed

lemma conflict_inv:
  assumes ri: "run_inv X S P e D A" and run: "engine_record_conflict e c now fault = (r, e')"
  shows "run_inv X S P e' D A"
proof -
  obtain rs where inv: "engine_inv S e rs" and logs: "logs_inv X P (conn (eng_db e)) rs D A"
    using ri unfolding run_inv_def by blast
  note s = engine_record_conflict_inv [OF inv run]
  have "logs_inv X P (conn (eng_db e')) rs D A"
    by (rule logs_inv_reservations [OF logs s(2)]) (simp add: s(3))
  then show ?thesis using s(1) by (auto simp: run_inv_def)
qed

lemma restart_inv:
  assumes ri: "run_inv X S P e D A" and path: "path \<noteq> '':memory:''"
    and reopen: "engine_open S path (Some (conn (eng_db e))) None = Inr e'"
  shows "run_inv X S P e' D A"
proof -
  obtain rs where inv: "engine_inv S e rs" and logs: "logs_inv X P (conn (eng_db e)) rs D A"
    using ri unfolding run_inv_def by blast
  show ?thesis by (rule reopen_inv [OF engine_inv_parts(1) [OF inv] logs path reopen])
qed

lemma engine_run_inv:
  assumes "engine_run X S hex path P e D A" and "path \<noteq> '':memory:''" and "payments_ok X S P"
  shows "run_inv X S P e D A"
  using assms(1)
proof induction
  case run_start
  then show ?case by (rule start_inv [OF assms(2)])
next
  case run_pay
  then show ?case using pay_inv [OF _ assms(3)] by blast
next
  case run_dispatch
  then show ?case using dispatch_inv by blast
next
  case run_dispatch_crash
  then show ?case using dispatch_crash_inv [OF _ assms(2)] by blast
next
  case run_settle
  then show ?case using settle_inv by blast
next
  case run_settle_crash
  then show ?case using settle_crash_inv [OF _ assms(2)] by blast
next
  case run_seed
  then show ?case using seed_inv by blast
next
  case run_conflict
  then show ?case using conflict_inv by blast
next
  case run_restart
  then show ?case using restart_inv [OF _ assms(2)] by blast
qed

lemma engine_run_state:
  assumes "engine_run X S hex path P e D A" and "path \<noteq> '':memory:''" and "payments_ok X S P"
  obtains rs where "engine_inv S e rs" and "logs_inv X P (conn (eng_db e)) rs D A"
  using engine_run_inv [OF assms] unfolding run_inv_def by blast

end
