(* ===== verification/Engine_Properties.thy ===== *)
theory Engine_Properties
  imports Engine_Runs
begin

text \<open>
  What the runs of the engine promise to its users: memory and storage agree, nothing queued is
  lost in a crash, no envelope is handed to the mesh twice, no sequence number is used twice, and
  everything queued is eventually handed out, in the order of the queue.
\<close>

section \<open>Draining the queue\<close>

fun dispatch_many ::
  "hex_encode \<Rightarrow> u64 \<Rightarrow> nat \<Rightarrow> sync_engine \<Rightarrow> transaction_envelope list \<times> sync_engine" where
  "dispatch_many hex now 0 e = ([], e)"
| "dispatch_many hex now (Suc n) e =
     (case next_to_dispatch hex now e None of
        Some (Some env, e1) \<Rightarrow> (case dispatch_many hex now n e1 of (envs, e2) \<Rightarrow> (env # envs, e2))
      | _ \<Rightarrow> ([], e))"

definition waiting :: "sync_engine \<Rightarrow> queued_envelope_record \<Rightarrow> bool" where
  "waiting e r \<longleftrightarrow> engine_settlement_status e (rec_id r) = Some Queued"

lemma waiting_current:
  "engine_inv S e rs \<Longrightarrow> r \<in> set rs \<Longrightarrow> waiting e r \<longleftrightarrow> current_status (conn (eng_db e)) (rec_id r) = Queued"
  by (auto simp: waiting_def engine_settlement_status_def engine_inv_def tracker_agrees_def)

lemma queue_contents_waiting:
  assumes "engine_inv S e rs"
  shows "queue_contents (eng_queue e) = mset (map rec_entry (filter (waiting e) rs))"
proof -
  have "filter (waiting e) rs = filter (\<lambda>r. current_status (conn (eng_db e)) (rec_id r) = Queued) rs"
    using waiting_current [OF assms] by (intro filter_cong refl)
  then show ?thesis using assms by (simp add: engine_inv_def queue_agrees_def)
qed

lemma remove_one_record:
  assumes "distinct (map rec_id rs)" and "r \<in> set rs" and "P r"
    and "\<And>x. x \<in> set rs \<Longrightarrow> Q x \<longleftrightarrow> P x \<and> rec_id x \<noteq> rec_id r"
  shows "mset (filter P rs) = add_mset r (mset (filter Q rs))"
proof -
  have r: "r \<in># mset (filter P rs)" using assms(2,3) by simp
  have d: "distinct rs" using assms(1) by (simp add: distinct_map)
  have inj: "rec_id x = rec_id r \<longleftrightarrow> x = r" if "x \<in> set rs" for x
    using assms(1,2) that by (auto simp: distinct_map inj_on_def)
  have "filter Q rs = filter (\<lambda>x. x \<noteq> r) (filter P rs)"
    unfolding filter_filter using assms(4) inj by (intro filter_cong refl) auto
  also have "\<dots> = remove1 r (filter P rs)"
    using d by (simp add: distinct_remove1_removeAll removeAll_filter_not_eq) metis
  finally show ?thesis using r by simp
qed

lemma dispatch_many_spec:
  assumes "engine_inv S e rs" and "length (filter (waiting e) rs) \<le> n"
    and "dispatch_many hex now n e = (envs, e')"
  shows "\<exists>sent. envs = map rec_envelope sent \<and> mset sent = mset (filter (waiting e) rs) \<and>
     sorted_wrt (\<lambda>x y. queued_tx_le (rec_entry y) (rec_entry x)) sent \<and>
     engine_inv S e' rs \<and> (\<forall>r \<in> set rs. \<not> waiting e' r)"
  using assms
proof (induction n arbitrary: e envs)
  case 0
  then have "filter (waiting e) rs = []" by simp
  then show ?case using 0 by (auto simp: filter_empty_conv)
next
  case (Suc n)
  obtain out e1 where nx: "next_to_dispatch hex now e None = Some (out, e1)"
    using next_to_dispatch_total by (metis not_None_eq surj_pair)
  note step = next_to_dispatch_inv [OF Suc.prems(1) nx]
  show ?case
  proof (cases out)
    case None
    then have "queue_contents (eng_queue e) = {#}" "e1 = e" using step by auto
    then have "filter (waiting e) rs = []" using queue_contents_waiting [OF Suc.prems(1)] by simp
    then show ?thesis using Suc.prems None nx by (auto simp: filter_empty_conv)
  next
    case (Some env)
    obtain envs1 where many: "dispatch_many hex now n e1 = (envs1, e')" and envs: "envs = env # envs1"
      using Suc.prems(3) nx Some by (auto split: prod.splits)
    obtain r where r: "r \<in> set rs" "env = rec_envelope r" and w: "waiting e r"
      and st: "\<And>k. engine_settlement_status e1 k =
        (if k = rec_id r then Some Propagating else engine_settlement_status e k)"
      and top: "\<And>x. x \<in> set rs \<Longrightarrow> waiting e x \<Longrightarrow> queued_tx_le (rec_entry x) (rec_entry r)"
      and inv1: "engine_inv S e1 rs"
      using step Some by (auto simp: waiting_def engine_settlement_status_def rec_id_def)
    have ids: "distinct (map rec_id rs)" using Suc.prems(1) disk_ok_ids by (auto simp: engine_inv_def)
    have "mset (filter (waiting e) rs) = add_mset r (mset (filter (waiting e1) rs))"
      by (rule remove_one_record [where P = "waiting e", OF ids r(1) w]) (simp add: waiting_def st)
    note rest = this
    then have "length (filter (waiting e) rs) = Suc (length (filter (waiting e1) rs))"
      by (metis size_mset size_add_mset)
    then have "length (filter (waiting e1) rs) \<le> n" using Suc.prems(2) by simp
    from Suc.IH [OF inv1 this many] obtain sent where sent: "envs1 = map rec_envelope sent"
      "mset sent = mset (filter (waiting e1) rs)"
      "sorted_wrt (\<lambda>x y. queued_tx_le (rec_entry y) (rec_entry x)) sent"
      "engine_inv S e' rs" "\<forall>r \<in> set rs. \<not> waiting e' r" by blast
    have "set sent = set (filter (waiting e1) rs)" using sent(2) by (metis set_mset_mset)
    then have "\<forall>x \<in> set sent. queued_tx_le (rec_entry x) (rec_entry r)"
      using top by (auto simp: waiting_def st split: if_splits)
    then show ?thesis
      using sent envs r(2) rest by (intro exI [of _ "r # sent"]) simp
  qed
qed

section \<open>An example run\<close>

definition sample_payments :: "payment set" where
  "sample_payments = {(10, 7, ''a'', 3), (20, 7, ''b'', 3)}"

definition sample_party :: third_party where
  "sample_party = sample_crypto\<lparr>seal := (\<lambda>now key pk xdr ttl.
     \<lparr>message_id = (if xdr = ''a'' then 1 else 2), origin_pubkey = pk, tx_xdr = xdr, ttl_hops = ttl,
      env_timestamp = now, env_signature = 0\<rparr>)\<rparr>"

definition sample_codec :: serde where
  "sample_codec = (sample_serde (take_snapshot empty_database))\<lparr>envelope_from_slice := (\<lambda>bs.
     map_option (\<lambda>m. sealed sample_party (if m = 1 then (10, 7, ''a'', 3) else (20, 7, ''b'', 3))) (try_into32 bs))\<rparr>"

lemma sample_payments_ok: "payments_ok sample_party sample_codec sample_payments"
  by (simp add: payments_ok_def sample_payments_def envelope_codec_ok_def sample_codec_def sample_serde_def
      sealed_def xdr_of_def sample_party_def sample_crypto_def)

lemma sample_party_extract [simp]:
  "extract_source_account_and_sequence sample_party ''a'' = Inr (''G1'', 5)"
  by (simp add: extract_source_account_and_sequence_def sample_party_def sample_crypto_def sample_tx_def
      ed25519_to_strkey_def)

definition sample_start :: sync_engine where
  "sample_start = \<lparr>eng_db = new_db None, eng_queue = queue_new, eng_sequences = srm_new,
     eng_settlement = tracker_new, dispatch_conn = SameFile\<rparr>"

definition sample_seeded :: sync_engine where
  "sample_seeded = snd (seed_account sample_start ''G1'' 4 None)"

definition sample_queued :: sync_engine where
  "sample_queued = snd (queue_payment sample_party sample_codec 10 0 sample_seeded ''G1'' 7 ''a'' Normal 3 None)"

definition sample_dispatched :: sync_engine where
  "sample_dispatched = snd (the (next_to_dispatch (\<lambda>_. []) 11 sample_queued None))"

lemma sample_open: "engine_open sample_codec ''db'' None None = Inr sample_start"
  by (simp add: engine_open_def init_def list_all_sequence_reservations_def list_queued_envelopes_def
      open_dispatch_connection_def sample_start_def empty_database_def Let_def)

lemma sample_seed: "seed_account sample_start ''G1'' 4 None = (Inr (), sample_seeded)"
  by (simp add: sample_seeded_def seed_account_def save_sequence_reservation_def Let_def)

lemma sample_seeded_state:
  "last_reserved (eng_sequences sample_seeded) ''G1'' = Some 4"
  "eng_queue sample_seeded = queue_new" "encryption_key_of (eng_db sample_seeded) = None"
  "dispatch_conn sample_seeded = SameFile"
  by (simp_all add: sample_seeded_def seed_account_def save_sequence_reservation_def Let_def sample_start_def
      last_reserved_ops)

lemma sample_pay_state:
  "fst (queue_payment sample_party sample_codec 10 0 sample_seeded ''G1'' 7 ''a'' Normal 3 None) =
     Inr (sealed sample_party (10, 7, ''a'', 3))"
  "eng_queue sample_queued = heap_insert queue_new (sealed sample_party (10, 7, ''a'', 3)) Normal 10"
  "dispatch_conn sample_queued = SameFile"
  using sample_seeded_state by (simp_all add: sample_queued_def queue_payment_def build_and_sign_def reserve_next_def
      last_reserved_def enqueue_transaction_def encrypt_if_enabled_def sign_hybrid_def sealed_def push_at_unguarded
      queue_new_def Let_def)

lemma sample_pay:
  "queue_payment sample_party sample_codec 10 0 sample_seeded ''G1'' 7 ''a'' Normal 3 None =
     (Inr (sealed sample_party (10, 7, ''a'', 3)), sample_queued)"
  using sample_pay_state(1) by (simp add: sample_queued_def prod_eq_iff)

lemma sample_seeded_run:
  "engine_run sample_party sample_codec (\<lambda>_. []) ''db'' sample_payments sample_seeded [] []"
proof -
  note run_start [OF sample_open]
  from run_seed [OF this sample_seed] show ?thesis
    by (simp add: last_reserved_sequence_def load_sequence_reservation_def sample_start_def empty_database_def
        select_row_def)
qed

lemma sample_engine_run:
  "engine_run sample_party sample_codec (\<lambda>_. []) ''db'' sample_payments sample_queued [] [(''G1'', 5)]"
proof -
  note sample_seeded_run
  from run_pay [OF this _ _ sample_pay]
  show ?thesis
    by (simp add: sample_payments_def assigned_def sample_seeded_state)
qed

lemma sample_queue_len: "queue_len (eng_queue sample_queued) = 1"
  by (simp add: sample_pay_state(2) heap_insert_def queue_new_def heap_push_def sift_up.simps queue_len_def)

lemma sample_dispatch:
  "next_to_dispatch (\<lambda>_. []) 11 sample_queued None =
     Some (Some (sealed sample_party (10, 7, ''a'', 3)), sample_dispatched)"
proof -
  have q: "eng_queue sample_queued = \<lparr>heap = [entry_of (sealed sample_party (10, 7, ''a'', 3)) Normal 10],
      emergency_guard_of = None\<rparr>"
    by (simp add: sample_pay_state(2) heap_insert_def queue_new_def heap_push_def sift_up.simps)
  have "map_option fst (next_to_dispatch (\<lambda>_. []) 11 sample_queued None) =
      Some (Some (sealed sample_party (10, 7, ''a'', 3)))"
    using sample_pay_state(3) by (simp add: next_to_dispatch_def persist_dispatch_status_def peek_def pop_def q
        heap_peek_def heap_pop_def Let_def del: as_str.simps)
  then show ?thesis by (auto simp: sample_dispatched_def)
qed

lemma sample_dispatched_run:
  "engine_run sample_party sample_codec (\<lambda>_. []) ''db'' sample_payments sample_dispatched [1] [(''G1'', 5)]"
  using run_dispatch [OF sample_engine_run sample_dispatch]
  by (simp add: handed_out_def sealed_def sample_party_def)

section \<open>Reading the state of a run\<close>

lemma last_reserved_sequence_stored:
  "last_reserved_sequence e a None = Inr (stored_reservation (conn (eng_db e)) a)"
  by (simp add: last_reserved_sequence_def load_sequence_reservation_def stored_reservation_def)

lemma seqs_agree_stored:
  "engine_inv S e rs \<Longrightarrow> stored_reservation (conn (eng_db e)) a = Some l \<Longrightarrow>
     last_reserved (eng_sequences e) a = Some l"
  unfolding engine_inv_def seqs_agree_def by (metis option.distinct(1))

lemma statuses_current:
  "engine_inv S e rs \<Longrightarrow> engine_settlement_status e =
     (\<lambda>mid. if mid \<in> rec_id ` set rs then Some (current_status (conn (eng_db e)) mid) else None)"
  by (rule ext) (simp add: engine_settlement_status_def engine_inv_def tracker_agrees_def)

lemma stored_records: "disk_ok S db rs \<Longrightarrow> list_queued_envelopes S db None = Inr rs"
  by (simp add: list_queued_envelopes_def disk_ok_def collect_decoded)

text \<open>Reopening the file of any database that is in order.\<close>

lemma reopen:
  assumes inv: "engine_inv S e rs" and path: "path \<noteq> '':memory:''"
  obtains e' where "engine_open S path (Some (conn (eng_db e))) None = Inr e'" and "engine_inv S e' rs"
    and "eng_db e' = eng_db e" and "engine_settlement_status e' = engine_settlement_status e"
    and "queue_contents (eng_queue e') = queue_contents (eng_queue e)"
    and "\<And>a. last_reserved (eng_sequences e') a = stored_reservation (conn (eng_db e)) a"
proof -
  have d: "disk_ok S (eng_db e) rs" by (rule engine_inv_parts(1) [OF inv])
  have db: "eng_db e = \<lparr>conn = conn (eng_db e), encryption_key_of = None\<rparr>" by (rule db_without_key [OF d])
  with d have "disk_ok S \<lparr>conn = conn (eng_db e), encryption_key_of = None\<rparr> rs" by simp
  from engine_open_ok [OF this path] obtain e' where
    o: "engine_open S path (Some (conn (eng_db e))) None = Inr e'"
    and e': "eng_db e' = \<lparr>conn = conn (eng_db e), encryption_key_of = None\<rparr>" "engine_inv S e' rs"
    and sr: "\<forall>a. last_reserved (eng_sequences e') a = stored_reservation (conn (eng_db e)) a" by blast
  have same: "eng_db e' = eng_db e" using e'(1) db by simp
  moreover have "engine_settlement_status e' = engine_settlement_status e"
    unfolding statuses_current [OF inv] statuses_current [OF e'(2)] same by (rule refl)
  moreover from this have "queue_contents (eng_queue e') = queue_contents (eng_queue e)"
    using queue_contents_waiting [OF inv] queue_contents_waiting [OF e'(2)] by (simp add: waiting_def)
  ultimately show thesis using that o e'(2) sr by blast
qed

section \<open>Properties\<close>

text \<open>
  C1. No double dispatch: over any run, with failed statements, crashes and restarts, no envelope
  is handed to the mesh twice; whatever was handed out is never Queued again, and the next call
  hands out an envelope that is still Queued, or nothing; it never panics.
\<close>

theorem no_double_dispatch:
  "engine_run X S hex path P e D A \<Longrightarrow> path \<noteq> '':memory:'' \<Longrightarrow> payments_ok X S P \<Longrightarrow>
     distinct D \<and> (\<forall>mid \<in> set D. engine_settlement_status e mid \<notin> {None, Some Queued}) \<and>
     (\<exists>out e'. next_to_dispatch hex now e fault = Some (out, e') \<and>
        (case out of
           None \<Rightarrow> e' = e
         | Some env \<Rightarrow> message_id env \<notin> set D \<and>
             engine_settlement_status e (message_id env) = Some Queued \<and>
             engine_settlement_status e' = (engine_settlement_status e)(message_id env \<mapsto> Propagating)))"
proof -
  assume "engine_run X S hex path P e D A" "path \<noteq> '':memory:''" "payments_ok X S P"
  then obtain rs where inv: "engine_inv S e rs" and logs: "logs_inv X P (conn (eng_db e)) rs D A"
    by (rule engine_run_state)
  have D: "distinct D" and sent: "engine_settlement_status e mid \<notin> {None, Some Queued}" if "mid \<in> set D" for mid
    using logs that statuses_current [OF inv] unfolding logs_inv_def by auto
  have dist: "distinct D" using logs unfolding logs_inv_def by blast
  obtain out e' where nx: "next_to_dispatch hex now e fault = Some (out, e')"
    using next_to_dispatch_total by (metis not_None_eq surj_pair)
  have "case out of
           None \<Rightarrow> e' = e
         | Some env \<Rightarrow> message_id env \<notin> set D \<and>
             engine_settlement_status e (message_id env) = Some Queued \<and>
             engine_settlement_status e' = (engine_settlement_status e)(message_id env \<mapsto> Propagating)"
    using next_to_dispatch_inv [OF inv nx] sent
    by (auto simp: engine_settlement_status_def fun_eq_iff split: option.splits)
  then show ?thesis using dist sent nx by blast
qed

theorem no_double_dispatch_witness:
  "engine_settlement_status sample_dispatched 1 \<notin> {None, Some Queued}"
  using no_double_dispatch [OF sample_dispatched_run _ sample_payments_ok] by simp



text \<open>
  C3. A queued payment survives a crash: \<open>queue_payment\<close> with any failing statement either
  reports an error and leaves the storage as it was, or its payment is there after reopening:
  Queued, in the queue with its priority and age, under the sequence number its transaction
  carries, and nothing else has changed.
\<close>

theorem queued_payment_survives_crash:
  "engine_run X S hex path P e D A \<Longrightarrow> path \<noteq> '':memory:'' \<Longrightarrow> payments_ok X S P \<Longrightarrow>
   (now, key, xdr, ttl) \<in> P \<Longrightarrow> \<forall>l. last_reserved (eng_sequences e) account = Some l \<longrightarrow> sint l < i64_max \<Longrightarrow>
   queue_payment X S now nonce e account key xdr priority ttl fault = (r, e1) \<Longrightarrow>
     \<exists>e2. engine_open S path (Some (conn (eng_db e1))) None = Inr e2 \<and>
       (case r of
          Inl _ \<Rightarrow> eng_db e1 = eng_db e \<and> engine_settlement_status e2 = engine_settlement_status e \<and>
            queue_contents (eng_queue e2) = queue_contents (eng_queue e)
        | Inr env \<Rightarrow> env = sealed X (now, key, xdr, ttl) \<and>
            engine_settlement_status e2 = (engine_settlement_status e)(message_id env \<mapsto> Queued) \<and>
            queue_contents (eng_queue e2) = add_mset
              \<lparr>q_priority = priority, q_enqueued_at = now, q_envelope = env\<rparr> (queue_contents (eng_queue e)) \<and>
            (\<exists>sq. extract_source_account_and_sequence X xdr = Inr (account, sq) \<and> (account, sq) \<notin> set A \<and>
              last_reserved (eng_sequences e2) account = Some sq))"
proof -
  assume "engine_run X S hex path P e D A" and path: "path \<noteq> '':memory:''" and P: "payments_ok X S P"
    and p: "(now, key, xdr, ttl) \<in> P" and room: "\<forall>l. last_reserved (eng_sequences e) account = Some l \<longrightarrow> sint l < i64_max"
    and run: "queue_payment X S now nonce e account key xdr priority ttl fault = (r, e1)"
  then obtain rs where inv: "engine_inv S e rs" and logs: "logs_inv X P (conn (eng_db e)) rs D A"
    by (meson engine_run_state)
  show ?thesis
  proof (cases rule: pay_step [OF inv logs P p room run, case_names failed queued])
    case (failed err)
    obtain e2 where "engine_open S path (Some (conn (eng_db e1))) None = Inr e2"
      and "engine_settlement_status e2 = engine_settlement_status e1"
      and "queue_contents (eng_queue e2) = queue_contents (eng_queue e1)"
      using reopen [OF failed(2) path] by blast
    moreover have "engine_settlement_status e1 = engine_settlement_status e"
      by (rule ext) (simp add: engine_settlement_status_def failed)
    ultimately show ?thesis using failed by simp
  next
    case (queued sq l)
    obtain e2 where o: "engine_open S path (Some (conn (eng_db e1))) None = Inr e2"
      and st: "engine_settlement_status e2 = engine_settlement_status e1"
      and q: "queue_contents (eng_queue e2) = queue_contents (eng_queue e1)"
      and sr: "last_reserved (eng_sequences e2) account = stored_reservation (conn (eng_db e1)) account"
      using reopen [OF queued(2) path] by blast
    let ?env = "sealed X (now, key, xdr, ttl)"
    have st1: "engine_settlement_status e1 = (engine_settlement_status e)(message_id ?env \<mapsto> Queued)"
      unfolding statuses_current [OF inv] statuses_current [OF queued(2)] queued(8)
      by (auto simp: fun_eq_iff rec_id_def)
    have "filter (waiting e1) rs = filter (waiting e) rs"
      using queued(3) by (intro filter_cong refl) (auto simp: waiting_def st1 image_iff)
    then have "queue_contents (eng_queue e1) = add_mset
        \<lparr>q_priority = priority, q_enqueued_at = now, q_envelope = ?env\<rparr> (queue_contents (eng_queue e))"
      unfolding queue_contents_waiting [OF inv] queue_contents_waiting [OF queued(2)]
      by (simp add: waiting_def st1 rec_id_def rec_entry_def)
    moreover have "(account, sq) \<notin> set A"
      using logs_inv_number_fresh [OF logs engine_inv_parts(4) [OF inv] queued(5) room] queued(6) by simp
    ultimately show ?thesis using o st q sr st1 queued(1,4,7) by simp
  qed
qed

theorem queued_payment_survives_crash_witness:
  "\<exists>e2. engine_open sample_codec ''db'' (Some (conn (eng_db sample_queued))) None = Inr e2 \<and>
     queue_contents (eng_queue e2) = {#entry_of (sealed sample_party (10, 7, ''a'', 3)) Normal 10#}"
  using queued_payment_survives_crash [OF sample_seeded_run _ sample_payments_ok _ _ sample_pay]
  by (auto simp: sample_payments_def sample_seeded_state)



text \<open>
  C5. Nothing queued is lost, and the queue is served in order: as many dispatch calls as there
  are envelopes in the queue hand out exactly the stored payments whose status is Queued, each
  once, higher priority first and older first within a priority; afterwards none is Queued.
\<close>

theorem all_payments_dispatched:
  "engine_run X S hex path P e D A \<Longrightarrow> path \<noteq> '':memory:'' \<Longrightarrow> payments_ok X S P \<Longrightarrow>
   queue_len (eng_queue e) \<le> n \<Longrightarrow> dispatch_many hex now n e = (envs, e') \<Longrightarrow>
     \<exists>rs sent. list_queued_envelopes S (eng_db e) None = Inr rs \<and> envs = map rec_envelope sent \<and>
       mset sent = mset (filter (waiting e) rs) \<and>
       sorted_wrt (\<lambda>x y. queued_tx_le (rec_entry y) (rec_entry x)) sent \<and>
       (\<forall>r \<in> set rs. \<not> waiting e' r) \<and> next_to_dispatch hex now e' None = Some (None, e')"
proof -
  assume "engine_run X S hex path P e D A" and path: "path \<noteq> '':memory:''" and "payments_ok X S P"
    and n: "queue_len (eng_queue e) \<le> n" and many: "dispatch_many hex now n e = (envs, e')"
  then obtain rs where inv: "engine_inv S e rs" and logs: "logs_inv X P (conn (eng_db e)) rs D A"
    by (meson engine_run_state)
  have "length (filter (waiting e) rs) \<le> n"
    using n unfolding queue_len_contents queue_contents_waiting [OF inv] by (metis length_map size_mset)
  from dispatch_many_spec [OF inv this many] obtain sent where sent: "envs = map rec_envelope sent"
    "mset sent = mset (filter (waiting e) rs)"
    "sorted_wrt (\<lambda>x y. queued_tx_le (rec_entry y) (rec_entry x)) sent"
    and inv': "engine_inv S e' rs" and none: "\<forall>r \<in> set rs. \<not> waiting e' r" by blast
  obtain out e2 where nx: "next_to_dispatch hex now e' None = Some (out, e2)"
    using next_to_dispatch_total by (metis not_None_eq surj_pair)
  then have "next_to_dispatch hex now e' None = Some (None, e')"
    using next_to_dispatch_inv [OF inv' nx] none
    by (auto simp: waiting_def engine_settlement_status_def rec_id_def split: option.splits)
  with stored_records [OF engine_inv_parts(1) [OF inv]] sent none show ?thesis by blast
qed

theorem all_payments_dispatched_witness:
  "\<exists>rs sent. list_queued_envelopes sample_codec (eng_db sample_queued) None = Inr rs \<and>
     fst (dispatch_many (\<lambda>_. []) 11 1 sample_queued) = map rec_envelope sent \<and>
     mset sent = mset (filter (waiting sample_queued) rs)"
  using all_payments_dispatched [OF sample_engine_run _ sample_payments_ok, of 1 11
      "fst (dispatch_many (\<lambda>_. []) 11 1 sample_queued)" "snd (dispatch_many (\<lambda>_. []) 11 1 sample_queued)"]
    sample_queue_len by auto


end
