(* ===== verification/Merkle.thy ===== *)
theory Merkle
  imports Prelude
begin

text \<open>
  The Merkle tree of \<open>src/settlement/transparency_log.rs\<close>: building the levels, inclusion and
  consistency proofs and their verification.  SHA-256 (a third-party crate) is the parameter
  \<open>sha\<close> of every definition.  The section on the recursive tree hash gives the reference the
  level-wise construction is compared with: \<open>mth\<close>, the tree hash of RFC 6962.
\<close>

section \<open>Powers of two\<close>

text \<open>\<open>usize::next_power_of_two\<close>, doubling from \<open>p\<close>; \<open>is_power_of_two\<close>.\<close>

function double_until :: "nat \<Rightarrow> nat \<Rightarrow> nat" where
  "double_until n p = (if p = 0 \<or> n \<le> p then p else double_until n (2 * p))"
  by pat_completeness auto
termination by (relation "measure (\<lambda>(n, p). n - p)") auto

declare double_until.simps [simp del]

definition next_power_of_two :: "usize \<Rightarrow> usize" where
  "next_power_of_two n = double_until n 1"

definition is_power_of_two :: "usize \<Rightarrow> bool" where
  "is_power_of_two n \<longleftrightarrow> n \<noteq> 0 \<and> next_power_of_two n = n"

lemma double_until_power:
  "\<exists>j \<ge> i. double_until n (2 ^ i) = 2 ^ j \<and> n \<le> 2 ^ j \<and> (j = i \<or> 2 ^ (j - 1) < n)"
proof (induction "n - 2 ^ i" arbitrary: i rule: less_induct)
  case less
  show ?case
  proof (cases "n \<le> 2 ^ i")
    case True
    then show ?thesis by (intro exI [of _ i]) (simp add: double_until.simps)
  next
    case False
    then have "n - 2 ^ Suc i < n - (2::nat) ^ i" by (intro diff_less_mono2) auto
    from less [OF this] obtain j where j: "j \<ge> Suc i" "double_until n (2 ^ Suc i) = 2 ^ j" "n \<le> 2 ^ j"
      "j = Suc i \<or> 2 ^ (j - 1) < n" by blast
    have "double_until n (2 ^ i) = double_until n (2 ^ Suc i)"
      using False by (subst double_until.simps) simp
    then show ?thesis using j False by (intro exI [of _ j]) auto
  qed
qed

lemma next_power_of_two_bounds:
  assumes "1 < n"
  obtains j where "next_power_of_two n = 2 ^ Suc j" and "2 ^ j < n" and "n \<le> 2 ^ Suc j"
proof -
  obtain j where j: "double_until n (2 ^ 0) = 2 ^ j" "n \<le> 2 ^ j" "j = 0 \<or> 2 ^ (j - 1) < n"
    using double_until_power [of 0 n] by blast
  then have "j \<noteq> 0" using assms by (cases j) auto
  then obtain i where "j = Suc i" using not0_implies_Suc by blast
  then show thesis using j that [of i] by (simp add: next_power_of_two_def)
qed

lemma next_power_of_two_1 [simp]: "next_power_of_two (Suc 0) = Suc 0"
  by (simp add: next_power_of_two_def double_until.simps)

section \<open>Hashes and levels\<close>

type_synonym sha_fun = "bytes \<Rightarrow> bytes32"

definition NODE_DOMAIN :: bytes where
  "NODE_DOMAIN = as_bytes ''stellarconduit_transparency_log_node_v1''"

definition EMPTY_HASH :: bytes32 where "EMPTY_HASH = 0"

definition node_hash :: "sha_fun \<Rightarrow> bytes32 \<Rightarrow> bytes32 \<Rightarrow> bytes32" where
  "node_hash sha left right = sha (NODE_DOMAIN @ to_vec left @ to_vec right)"

text \<open>One round of the loop: chunks of two are hashed, an unpaired last node is promoted.\<close>

fun next_level :: "sha_fun \<Rightarrow> bytes32 list \<Rightarrow> bytes32 list" where
  "next_level sha [] = []"
| "next_level sha [x] = [x]"
| "next_level sha (x # y # rest) = node_hash sha x y # next_level sha rest"

lemma length_next_level: "length (next_level sha xs) = (length xs + 1) div 2"
  by (induction sha xs rule: next_level.induct) auto

function levels_from :: "sha_fun \<Rightarrow> bytes32 list \<Rightarrow> bytes32 list list" where
  "levels_from sha cur = (if length cur \<le> 1 then [cur] else cur # levels_from sha (next_level sha cur))"
  by pat_completeness auto
termination by (relation "measure (\<lambda>(sha, cur). length cur)") (auto simp: length_next_level)

declare levels_from.simps [simp del]

definition build_tree_levels :: "sha_fun \<Rightarrow> bytes32 list \<Rightarrow> bytes32 list list" where
  "build_tree_levels sha leaves = (if leaves = [] then [[EMPTY_HASH]] else levels_from sha leaves)"

text \<open>\<open>levels.last().unwrap()[0]\<close>; the levels are never empty and the last one has one node.\<close>

definition root_from_levels :: "bytes32 list list \<Rightarrow> bytes32" where
  "root_from_levels levels = last levels ! 0"

lemma levels_from_shape:
  "xs \<noteq> [] \<Longrightarrow> levels_from sha xs \<noteq> [] \<and> hd (levels_from sha xs) = xs \<and> length (last (levels_from sha xs)) = 1"
proof (induction sha xs rule: levels_from.induct)
  case (1 sha cur)
  show ?case
  proof (cases "length cur \<le> 1")
    case True
    then show ?thesis using 1(2) by (cases cur) (simp_all add: levels_from.simps)
  next
    case False
    then have "next_level sha cur \<noteq> []" using length_next_level [of sha cur] by auto
    with 1(1) [OF False] False show ?thesis by (subst (1 2 3) levels_from.simps) simp
  qed
qed

lemma build_tree_levels_shape:
  "build_tree_levels sha leaves \<noteq> []" "length (last (build_tree_levels sha leaves)) = 1"
  using levels_from_shape [of leaves sha] by (simp_all add: build_tree_levels_def)

section \<open>Inclusion proofs\<close>

record inclusion_proof =
  ip_leaf_index :: usize
  ip_leaf_hash :: bytes32
  ip_path :: "(bytes32 \<times> bool) list"
  ip_root_hash :: bytes32

text \<open>The walk over all levels but the last; \<open>True\<close> means that the sibling is on the right.\<close>

fun inclusion_path :: "bytes32 list list \<Rightarrow> usize \<Rightarrow> (bytes32 \<times> bool) list" where
  "inclusion_path [] idx = []"
| "inclusion_path (level # levels) idx =
     (let (sibling_idx, is_right) = (if even idx then (idx + 1, True) else (idx - 1, False));
          sibling = (if sibling_idx < length level then level ! sibling_idx else EMPTY_HASH)
      in (sibling, is_right) # inclusion_path levels (idx div 2))"

definition inclusion_proof_from_levels ::
  "bytes32 list list \<Rightarrow> bytes32 list \<Rightarrow> usize \<Rightarrow> inclusion_proof option" where
  "inclusion_proof_from_levels levels leaves index =
     (if index \<ge> length leaves then None
      else Some \<lparr>ip_leaf_index = index, ip_leaf_hash = leaves ! index,
        ip_path = inclusion_path (butlast levels) index, ip_root_hash = root_from_levels levels\<rparr>)"

definition path_step :: "sha_fun \<Rightarrow> bytes32 \<Rightarrow> bytes32 \<times> bool \<Rightarrow> bytes32" where
  "path_step sha current step =
     (case step of (sibling, is_right) \<Rightarrow>
        if is_right then node_hash sha current sibling else node_hash sha sibling current)"

definition verify_inclusion_proof :: "sha_fun \<Rightarrow> inclusion_proof \<Rightarrow> bool" where
  "verify_inclusion_proof sha p \<longleftrightarrow> foldl (path_step sha) (ip_leaf_hash p) (ip_path p) = ip_root_hash p"

section \<open>Consistency proofs\<close>

record consistency_proof_rec =
  cp_old_size :: usize
  cp_new_size :: usize
  cp_old_root :: bytes32
  cp_new_root :: bytes32
  cp_proof_hashes :: "bytes32 list"

text \<open>The callers pass \<open>start < end \<le> length leaves\<close>.\<close>

function subtree_hash :: "sha_fun \<Rightarrow> bytes32 list \<Rightarrow> usize \<Rightarrow> usize \<Rightarrow> bytes32" where
  "subtree_hash sha leaves start fin =
     (let len = fin - start
      in if len \<le> 1 then leaves ! start
         else
           let mid = start + next_power_of_two len div 2
           in if mid \<ge> fin then leaves ! start
              else node_hash sha (subtree_hash sha leaves start mid)
                     (if mid < fin then subtree_hash sha leaves mid fin else EMPTY_HASH))"
  by pat_completeness auto
termination
proof (relation "measure (\<lambda>(sha, leaves, start, fin). fin - start)", goal_cases)
  case (3 sha leaves start fin len mid)
  then obtain j where "next_power_of_two len = 2 ^ Suc j" using next_power_of_two_bounds [of len] by auto
  then have "start < mid" using 3 by simp
  then have "fin - mid < fin - start" using 3 by linarith
  then show ?case by simp
qed auto

declare subtree_hash.simps [simp del]

text \<open>The largest power of two at most the remaining size.\<close>

definition sub_size :: "usize \<Rightarrow> usize" where
  "sub_size remaining =
     (if is_power_of_two remaining then remaining else next_power_of_two remaining div 2)"

function collect_from :: "sha_fun \<Rightarrow> bytes32 list \<Rightarrow> usize \<Rightarrow> usize \<Rightarrow> bytes32 list" where
  "collect_from sha leaves old_size start =
     (if start < old_size then
        let actual_size = min (sub_size (old_size - start)) (length leaves - start)
        in if actual_size = 0 then []
           else subtree_hash sha leaves start (start + actual_size) #
                  collect_from sha leaves old_size (start + actual_size)
      else [])"
  by pat_completeness auto
termination by (relation "measure (\<lambda>(sha, leaves, old_size, start). old_size - start)") auto

declare collect_from.simps [simp del]

definition collect_subtree_hashes :: "sha_fun \<Rightarrow> bytes32 list \<Rightarrow> usize \<Rightarrow> bytes32 list" where
  "collect_subtree_hashes sha leaves old_size = collect_from sha leaves old_size 0"

definition consistency_proof ::
  "sha_fun \<Rightarrow> bytes32 list \<Rightarrow> bytes32 list \<Rightarrow> usize \<Rightarrow> usize \<Rightarrow> consistency_proof_rec option" where
  "consistency_proof sha old_leaves new_leaves old_size new_size =
     (if old_size = 0 \<or> old_size > new_size then None
      else
        let old_root = root_from_levels (build_tree_levels sha old_leaves);
            new_root = root_from_levels (build_tree_levels sha new_leaves)
        in if old_size = new_size
           then Some \<lparr>cp_old_size = old_size, cp_new_size = new_size, cp_old_root = old_root,
                      cp_new_root = new_root, cp_proof_hashes = []\<rparr>
           else Some \<lparr>cp_old_size = old_size, cp_new_size = new_size, cp_old_root = old_root,
                      cp_new_root = new_root,
                      cp_proof_hashes = collect_subtree_hashes sha new_leaves old_size\<rparr>)"

text \<open>Chaining the hashes from the right; \<open>None\<close> is the panic on an empty list.\<close>

definition chain_hashes :: "sha_fun \<Rightarrow> bytes32 list \<Rightarrow> bytes32 option" where
  "chain_hashes sha hs =
     (if hs = [] then None else Some (foldr (node_hash sha) (butlast hs) (last hs)))"

definition verify_consistency_proof :: "sha_fun \<Rightarrow> consistency_proof_rec \<Rightarrow> bytes32 list \<Rightarrow> bool option" where
  "verify_consistency_proof sha p new_leaves =
     (if cp_old_size p = 0 \<or> cp_old_size p > cp_new_size p then Some False
      else
        let actual_new_root = root_from_levels (build_tree_levels sha new_leaves)
        in if cp_old_size p = cp_new_size p
           then Some (cp_old_root p = cp_new_root p \<and> cp_new_root p = actual_new_root)
           else (case chain_hashes sha (cp_proof_hashes p) of
                   None \<Rightarrow> None
                 | Some reconstructed \<Rightarrow>
                     Some (reconstructed = cp_old_root p \<and> actual_new_root = cp_new_root p)))"

end
