(* ===== verification/Merkle_Laws.thy ===== *)
theory Merkle_Laws
  imports Merkle
begin

text \<open>
  The level-wise Merkle tree computes the recursive tree hash of RFC 6962; on a set of inputs on
  which the hash does not collide, the root determines the leaves, and a verifying path consists
  of hashes of the tree.
\<close>

section \<open>The recursive tree hash\<close>

abbreviation split_at :: "nat \<Rightarrow> nat" where
  "split_at n \<equiv> next_power_of_two n div 2"

lemma split_at_bounds:
  assumes "1 < n"
  obtains j where "split_at n = 2 ^ j" and "2 ^ j < n" and "n - 2 ^ j \<le> 2 ^ j"
proof -
  obtain j where "next_power_of_two n = 2 ^ Suc j" "2 ^ j < n" "n \<le> 2 ^ Suc j"
    using next_power_of_two_bounds [OF assms] by blast
  then show thesis by (intro that [of j]) simp_all
qed

lemma split_at_less: "1 < n \<Longrightarrow> 0 < split_at n \<and> split_at n < n"
  by (rule split_at_bounds [of n]) auto

function mth :: "sha_fun \<Rightarrow> bytes32 list \<Rightarrow> bytes32" where
  "mth sha xs =
     (if length xs \<le> 1 then xs ! 0
      else node_hash sha (mth sha (take (split_at (length xs)) xs)) (mth sha (drop (split_at (length xs)) xs)))"
  by pat_completeness auto
termination
proof (relation "measure (\<lambda>(sha, xs). length xs)", goal_cases)
  case (2 sha xs)
  then show ?case using split_at_less [of "length xs"] by simp
next
  case (3 sha xs)
  then have "length xs - split_at (length xs) < length xs" using split_at_less [of "length xs"] by linarith
  then show ?case by simp
qed simp

declare mth.simps [simp del]

lemma mth_single [simp]: "mth sha [x] = x"
  by (simp add: mth.simps)

lemma mth_step:
  "1 < length xs \<Longrightarrow> mth sha xs =
     node_hash sha (mth sha (take (split_at (length xs)) xs)) (mth sha (drop (split_at (length xs)) xs))"
  by (subst mth.simps) simp

lemma next_level_append: "even (length xs) \<Longrightarrow> next_level sha (xs @ ys) = next_level sha xs @ next_level sha ys"
  by (induction sha xs rule: next_level.induct) auto

lemma next_level_nonempty: "xs \<noteq> [] \<Longrightarrow> next_level sha xs \<noteq> []"
  by (cases "(sha, xs)" rule: next_level.cases) auto

abbreviation level_root :: "sha_fun \<Rightarrow> bytes32 list \<Rightarrow> bytes32" where
  "level_root sha xs \<equiv> root_from_levels (levels_from sha xs)"

lemma level_root_single [simp]: "level_root sha [x] = x"
  by (simp add: levels_from.simps root_from_levels_def)

lemma level_root_step:
  assumes "1 < length xs"
  shows "level_root sha xs = level_root sha (next_level sha xs)"
proof -
  have "xs \<noteq> []" using assms by auto
  then have "levels_from sha (next_level sha xs) \<noteq> []"
    using levels_from_shape next_level_nonempty by blast
  then show ?thesis using assms by (subst levels_from.simps) (simp add: root_from_levels_def)
qed

lemma level_root_append:
  assumes "length xs = 2 ^ j" and "ys \<noteq> []" and "length ys \<le> 2 ^ j"
  shows "level_root sha (xs @ ys) = node_hash sha (level_root sha xs) (level_root sha ys)"
  using assms
proof (induction j arbitrary: xs ys)
  case 0
  then obtain x y where "xs = [x]" "ys = [y]"
    by (metis One_nat_def Suc_length_conv le_Suc_eq length_0_conv power_0 le_zero_eq)
  then show ?case using level_root_step [of "[x, y]" sha] by simp
next
  case (Suc j)
  have len: "length (next_level sha xs) = 2 ^ j" "length (next_level sha ys) \<le> 2 ^ j"
    "next_level sha ys \<noteq> []"
    using Suc.prems length_next_level [of sha xs] length_next_level [of sha ys] next_level_nonempty [of ys sha]
    by auto
  have ys: "level_root sha ys = level_root sha (next_level sha ys)"
  proof (cases "length ys = 1")
    case True
    then obtain y where "ys = [y]" by (metis One_nat_def length_0_conv length_Suc_conv)
    then show ?thesis by simp
  next
    case False
    then show ?thesis using Suc.prems(2) by (intro level_root_step) (simp add: nat_less_le Suc_le_eq)
  qed
  have one: "(1::nat) < 2 ^ Suc j" by (rule one_less_power) simp_all
  have "level_root sha (xs @ ys) = level_root sha (next_level sha xs @ next_level sha ys)"
    using level_root_step [of "xs @ ys" sha] Suc.prems(1) one
    by (simp add: next_level_append)
  also have "\<dots> = node_hash sha (level_root sha (next_level sha xs)) (level_root sha (next_level sha ys))"
    by (rule Suc.IH) (use len in simp_all)
  finally show ?case using level_root_step [of xs sha] Suc.prems(1) one ys by simp
qed

lemma level_root_mth: "xs \<noteq> [] \<Longrightarrow> level_root sha xs = mth sha xs"
proof (induction sha xs rule: mth.induct)
  case (1 sha xs)
  show ?case
  proof (cases "length xs \<le> 1")
    case True
    then obtain x where "xs = [x]"
      using 1(3) by (cases xs) auto
    then show ?thesis by simp
  next
    case False
    let ?k = "split_at (length xs)"
    obtain j where j: "?k = 2 ^ j" "2 ^ j < length xs" "length xs - 2 ^ j \<le> 2 ^ j"
      using split_at_bounds [of "length xs"] False by auto
    have "level_root sha (take ?k xs @ drop ?k xs) =
        node_hash sha (level_root sha (take ?k xs)) (level_root sha (drop ?k xs))"
      by (rule level_root_append [of _ j]) (use j in simp_all)
    moreover have "take ?k xs \<noteq> []" "drop ?k xs \<noteq> []" using j 1(3) by auto
    ultimately show ?thesis using 1(1,2) False mth_step [of xs sha] by simp
  qed
qed

lemma root_mth: "leaves \<noteq> [] \<Longrightarrow> root_from_levels (build_tree_levels sha leaves) = mth sha leaves"
  by (simp add: build_tree_levels_def level_root_mth)

section \<open>Subtrees and the consistency chain\<close>

lemma subtree_hash_mth:
  "start < fin \<Longrightarrow> fin \<le> length leaves \<Longrightarrow>
     subtree_hash sha leaves start fin = mth sha (take (fin - start) (drop start leaves))"
proof (induction sha leaves start fin rule: subtree_hash.induct)
  case (1 sha leaves start fin)
  let ?xs = "take (fin - start) (drop start leaves)"
  have len: "length ?xs = fin - start" using 1(4) by simp
  show ?case
  proof (cases "fin - start \<le> 1")
    case True
    then have "?xs ! 0 = leaves ! start" using 1(3,4) by simp
    then show ?thesis using True len by (subst subtree_hash.simps, subst mth.simps) (simp add: Let_def)
  next
    case False
    let ?k = "split_at (fin - start)" and ?mid = "start + split_at (fin - start)"
    have k: "0 < ?k" "?mid < fin" using split_at_less [of "fin - start"] False by auto
    have "take ?k ?xs = take (?mid - start) (drop start leaves)" using k by (simp add: min_def)
    moreover have "drop ?k ?xs = take (fin - ?mid) (drop ?mid leaves)"
      by (simp add: drop_take ac_simps)
    ultimately show ?thesis
      using 1(1) [of "fin - start" ?mid] 1(2) [of "fin - start" ?mid] 1(4) False k mth_step [of ?xs sha] len
      by (subst subtree_hash.simps) (simp add: Let_def)
  qed
qed

lemma chain_hashes_Cons:
  "hs \<noteq> [] \<Longrightarrow> chain_hashes sha (h # hs) = map_option (node_hash sha h) (chain_hashes sha hs)"
  by (simp add: chain_hashes_def)

lemma collect_chain:
  "start < old_size \<Longrightarrow> old_size \<le> length leaves \<Longrightarrow>
     collect_from sha leaves old_size start \<noteq> [] \<and>
     chain_hashes sha (collect_from sha leaves old_size start) =
       Some (mth sha (take (old_size - start) (drop start leaves)))"
proof (induction sha leaves old_size start rule: collect_from.induct)
  case (1 sha leaves old_size start)
  let ?r = "old_size - start" and ?xs = "take (old_size - start) (drop start leaves)"
  have len: "length ?xs = ?r" using 1(3) by simp
  show ?case
  proof (cases "is_power_of_two ?r")
    case True
    then have "min (sub_size ?r) (length leaves - start) = ?r" using 1(2,3) by (simp add: sub_size_def)
    moreover have "collect_from sha leaves old_size old_size = []" by (simp add: collect_from.simps)
    ultimately have "collect_from sha leaves old_size start = [subtree_hash sha leaves start old_size]"
      using 1(2) by (subst collect_from.simps) (simp add: Let_def)
    then show ?thesis using subtree_hash_mth [OF 1(2,3)] by (simp add: chain_hashes_def)
  next
    case False
    let ?k = "split_at ?r"
    have "?r \<noteq> 1" using False by (auto simp: is_power_of_two_def)
    then have k: "0 < ?k" "?k < ?r" using split_at_less [of ?r] 1(2) by auto
    have m: "min (sub_size ?r) (length leaves - start) = ?k"
      using False k(2) 1(3) by (simp add: sub_size_def)
    have c: "collect_from sha leaves old_size start =
        subtree_hash sha leaves start (start + ?k) # collect_from sha leaves old_size (start + ?k)"
      using 1(2) k(1) by (subst collect_from.simps) (simp add: m Let_def)
    have IH: "collect_from sha leaves old_size (start + ?k) \<noteq> [] \<and>
        chain_hashes sha (collect_from sha leaves old_size (start + ?k)) =
          Some (mth sha (take (old_size - (start + ?k)) (drop (start + ?k) leaves)))"
      using 1(1) [OF 1(2) m [symmetric]] k 1(3) by simp
    have "subtree_hash sha leaves start (start + ?k) = mth sha (take ?k (drop start leaves))"
      using subtree_hash_mth [of start "start + ?k" leaves sha] k 1(2,3) by simp
    moreover have "take ?k ?xs = take ?k (drop start leaves)" using k by (simp add: min_def)
    moreover have "drop ?k ?xs = take (old_size - (start + ?k)) (drop (start + ?k) leaves)"
      by (simp add: drop_take ac_simps)
    moreover have "mth sha ?xs = node_hash sha (mth sha (take ?k ?xs)) (mth sha (drop ?k ?xs))"
    proof -
      have "1 < length ?xs" unfolding len using k by linarith
      from mth_step [OF this, of sha] show ?thesis unfolding len .
    qed
    ultimately show ?thesis using IH by (simp add: c chain_hashes_Cons)
  qed
qed

section \<open>What a tree and a path hash\<close>

definition node_input :: "bytes32 \<Rightarrow> bytes32 \<Rightarrow> bytes" where
  "node_input l r = NODE_DOMAIN @ to_vec l @ to_vec r"

lemma node_hash_input: "node_hash sha l r = sha (node_input l r)"
  by (simp add: node_hash_def node_input_def)

lemma node_input_inj: "node_input l r = node_input l' r' \<longleftrightarrow> l = l' \<and> r = r'"
  by (auto simp: node_input_def)

definition is_node_input :: "bytes \<Rightarrow> bool" where
  "is_node_input bs \<longleftrightarrow> take (length NODE_DOMAIN) bs = NODE_DOMAIN"

lemma is_node_input_node [simp]: "is_node_input (node_input l r)"
  by (simp add: is_node_input_def node_input_def)

text \<open>The inputs and the hashes of the inner nodes of the tree over \<open>xs\<close>, and of a path.\<close>

function node_pairs :: "sha_fun \<Rightarrow> bytes32 list \<Rightarrow> (bytes32 \<times> bytes32) list" where
  "node_pairs sha xs =
     (if length xs \<le> 1 then []
      else (mth sha (take (split_at (length xs)) xs), mth sha (drop (split_at (length xs)) xs)) #
        node_pairs sha (take (split_at (length xs)) xs) @ node_pairs sha (drop (split_at (length xs)) xs))"
  by pat_completeness auto
termination
proof (relation "measure (\<lambda>(sha, xs). length xs)", goal_cases)
  case (2 sha xs)
  then show ?case using split_at_less [of "length xs"] by simp
next
  case (3 sha xs)
  then have "length xs - split_at (length xs) < length xs" using split_at_less [of "length xs"] by linarith
  then show ?case by simp
qed simp

declare node_pairs.simps [simp del]

definition tree_inputs :: "sha_fun \<Rightarrow> bytes32 list \<Rightarrow> bytes set" where
  "tree_inputs sha xs = (\<lambda>(l, r). node_input l r) ` set (node_pairs sha xs)"

definition tree_hashes :: "sha_fun \<Rightarrow> bytes32 list \<Rightarrow> bytes32 set" where
  "tree_hashes sha xs = set xs \<union> sha ` tree_inputs sha xs"

definition step_input :: "bytes32 \<Rightarrow> bytes32 \<times> bool \<Rightarrow> bytes" where
  "step_input c step = (case step of (s, right) \<Rightarrow> if right then node_input c s else node_input s c)"

lemma path_step_input: "path_step sha c step = sha (step_input c step)"
  by (cases step) (simp add: path_step_def step_input_def node_hash_input)

fun path_inputs :: "sha_fun \<Rightarrow> bytes32 \<Rightarrow> (bytes32 \<times> bool) list \<Rightarrow> bytes set" where
  "path_inputs sha c [] = {}"
| "path_inputs sha c (step # steps) = insert (step_input c step) (path_inputs sha (path_step sha c step) steps)"

lemma path_inputs_snoc:
  "path_inputs sha c (steps @ [step]) =
     insert (step_input (foldl (path_step sha) c steps) step) (path_inputs sha c steps)"
  by (induction steps arbitrary: c) auto

lemma mth_in_tree: "xs \<noteq> [] \<Longrightarrow> mth sha xs \<in> tree_hashes sha xs"
proof (cases "length xs \<le> 1")
  case True
  assume "xs \<noteq> []"
  with True obtain x where "xs = [x]" by (cases xs) auto
  then show ?thesis by (simp add: tree_hashes_def)
next
  case False
  then show ?thesis
    by (subst mth.simps) (simp add: tree_hashes_def tree_inputs_def node_pairs.simps [of sha xs] node_hash_input)
qed

lemma tree_halves:
  assumes "1 < length xs" and "xs = ys @ zs" and "length ys = split_at (length xs)"
  shows "tree_inputs sha xs = insert (node_input (mth sha ys) (mth sha zs)) (tree_inputs sha ys \<union> tree_inputs sha zs)"
    and "tree_hashes sha ys \<subseteq> tree_hashes sha xs" and "tree_hashes sha zs \<subseteq> tree_hashes sha xs"
proof -
  have "take (split_at (length xs)) xs = ys" "drop (split_at (length xs)) xs = zs"
    using assms(2,3) by simp_all
  then show *: "tree_inputs sha xs = insert (node_input (mth sha ys) (mth sha zs)) (tree_inputs sha ys \<union> tree_inputs sha zs)"
    using assms(1) by (simp add: tree_inputs_def node_pairs.simps [of sha xs] image_Un)
  show "tree_hashes sha ys \<subseteq> tree_hashes sha xs" "tree_hashes sha zs \<subseteq> tree_hashes sha xs"
    using assms(2) unfolding tree_hashes_def * by auto
qed

text \<open>
  The leaves \<open>sha ` ps\<close> of a log are hashes of inputs outside the node domain; \<open>B\<close> is a set of
  inputs on which the hash does not collide.
\<close>

definition leaf_inputs_ok :: "bytes set \<Rightarrow> bytes list \<Rightarrow> bool" where
  "leaf_inputs_ok B ps \<longleftrightarrow> set ps \<subseteq> B \<and> (\<forall>p \<in> set ps. \<not> is_node_input p)"

lemma split_cases:
  assumes "xs \<noteq> []"
  obtains (leaf) x where "xs = [x]"
  | (node) ys zs where "1 < length xs" and "xs = ys @ zs" and "length ys = split_at (length xs)"
      and "ys \<noteq> []" and "zs \<noteq> []" and "\<And>sha. mth sha xs = node_hash sha (mth sha ys) (mth sha zs)"
proof (cases "length xs \<le> 1")
  case True
  then show thesis using assms leaf by (cases xs) auto
next
  case False
  let ?k = "split_at (length xs)"
  have k: "0 < ?k" "?k < length xs" using split_at_less [of "length xs"] False by auto
  show thesis
  proof (rule node [of "take ?k xs" "drop ?k xs"])
    show "mth sha xs = node_hash sha (mth sha (take ?k xs)) (mth sha (drop ?k xs))" for sha
      using mth_step [of xs sha] False by simp
  qed (use k False in auto)
qed

lemma map_append_split:
  assumes "map f ps = ys @ zs"
  obtains qs rs where "ps = qs @ rs" and "map f qs = ys" and "map f rs = zs"
  using assms that by (auto simp: map_eq_append_conv)

text \<open>The hash of a leaf is not the root of a larger tree.\<close>

lemma lone_leaf_not_tree:
  assumes inj: "inj_on sha B" and leaf: "leaf_inputs_ok B [p]" and node: "xs = ys @ zs" "ys \<noteq> []" "zs \<noteq> []"
    and split: "\<And>f. mth f xs = node_hash f (mth f ys) (mth f zs)"
    and inputs: "node_input (mth sha ys) (mth sha zs) \<in> B" and root: "sha p = mth sha xs"
  shows False
proof -
  have "sha p = sha (node_input (mth sha ys) (mth sha zs))"
    using root split [of sha] by (simp add: node_hash_input)
  then have "p = node_input (mth sha ys) (mth sha zs)"
    using inj inputs leaf by (auto simp: leaf_inputs_ok_def dest: inj_onD)
  then show False using leaf by (simp add: leaf_inputs_ok_def)
qed

text \<open>The root determines the leaves.\<close>

lemma mth_binding:
  assumes "inj_on sha B" and "ps \<noteq> []" and "qs \<noteq> []"
    and "leaf_inputs_ok B ps" and "leaf_inputs_ok B qs"
    and "tree_inputs sha (map sha ps) \<subseteq> B" and "tree_inputs sha (map sha qs) \<subseteq> B"
    and "mth sha (map sha ps) = mth sha (map sha qs)"
  shows "ps = qs"
  using assms(2-)
proof (induction "length ps" arbitrary: ps qs rule: less_induct)
  case less
  have same: "p = q" if "sha p = sha q" "p \<in> B" "q \<in> B" for p q
    using assms(1) that by (simp add: inj_on_def)
  have ne: "map sha ps \<noteq> []" "map sha qs \<noteq> []" using less.prems by simp_all
  from ne(1) show ?case
  proof (cases rule: split_cases)
    case (leaf x)
    then obtain p where p: "ps = [p]" by auto
    from ne(2) show ?thesis
    proof (cases rule: split_cases)
      case (leaf y)
      then obtain q where "qs = [q]" by auto
      with p show ?thesis using less.prems same by (simp add: leaf_inputs_ok_def)
    next
      case (node ys zs)
      have "node_input (mth sha ys) (mth sha zs) \<in> B"
        using less.prems(6) tree_halves(1) [OF node(1-3), of sha] by blast
      then show ?thesis
        using lone_leaf_not_tree [OF assms(1) _ node(2,4,5,6)] less.prems(3,7) p by fastforce
    qed
  next
    case (node ys zs)
    note left = node and lt = tree_halves(1) [OF node(1-3), of sha]
    have lin: "node_input (mth sha ys) (mth sha zs) \<in> B" using less.prems(5) lt by blast
    from ne(2) show ?thesis
    proof (cases rule: split_cases)
      case (leaf y)
      then obtain q where "qs = [q]" by auto
      then show ?thesis
        using lone_leaf_not_tree [OF assms(1) _ left(2,4,5,6) lin] less.prems(4,7) by fastforce
    next
      case (node ys' zs')
      note rt = tree_halves(1) [OF node(1-3), of sha]
      have "sha (node_input (mth sha ys) (mth sha zs)) = sha (node_input (mth sha ys') (mth sha zs'))"
        using less.prems(7) left(6) [of sha] node(6) [of sha] by (simp add: node_hash_input)
      moreover have "node_input (mth sha ys') (mth sha zs') \<in> B" using less.prems(6) rt by blast
      ultimately have eq: "mth sha ys = mth sha ys'" "mth sha zs = mth sha zs'"
        using same lin node_input_inj by blast+
      obtain p1 p2 where p: "ps = p1 @ p2" "map sha p1 = ys" "map sha p2 = zs"
        using map_append_split [OF left(2)] by blast
      obtain q1 q2 where q: "qs = q1 @ q2" "map sha q1 = ys'" "map sha q2 = zs'"
        using map_append_split [OF node(2)] by blast
      have ne': "p1 \<noteq> []" "p2 \<noteq> []" "q1 \<noteq> []" "q2 \<noteq> []" using p q left(4,5) node(4,5) by auto
      have "p1 = q1"
        by (rule less.hyps) (use p q ne' eq(1) less.prems lt rt in \<open>auto simp: leaf_inputs_ok_def\<close>)
      moreover have "p2 = q2"
        by (rule less.hyps) (use p q ne' eq(2) less.prems lt rt in \<open>auto simp: leaf_inputs_ok_def\<close>)
      ultimately show ?thesis using p q by simp
    qed
  qed
qed

text \<open>A path that reaches the root starts in the tree and uses only hashes of the tree.\<close>

lemma path_sound:
  assumes "inj_on sha B" and "ps \<noteq> []" and "leaf_inputs_ok B ps"
    and "tree_inputs sha (map sha ps) \<subseteq> B" and "path_inputs sha c path \<subseteq> B"
    and "foldl (path_step sha) c path = mth sha (map sha ps)"
  shows "c \<in> tree_hashes sha (map sha ps) \<and> fst ` set path \<subseteq> tree_hashes sha (map sha ps)"
  using assms(2-)
proof (induction path arbitrary: ps rule: rev_induct)
  case Nil
  then show ?case using mth_in_tree [of "map sha ps" sha] by simp
next
  case (snoc step path)
  have same: "p = q" if "sha p = sha q" "p \<in> B" "q \<in> B" for p q
    using assms(1) that by (simp add: inj_on_def)
  obtain s right where step: "step = (s, right)" by (cases step)
  let ?v = "foldl (path_step sha) c path"
  have pi: "path_inputs sha c path \<subseteq> B" "step_input ?v step \<in> B"
    using snoc.prems(4) by (simp_all add: path_inputs_snoc)
  have root: "sha (step_input ?v step) = mth sha (map sha ps)"
    using snoc.prems(5) by (simp flip: path_step_input)
  have "map sha ps \<noteq> []" using snoc.prems(1) by simp
  then show ?case
  proof (cases rule: split_cases)
    case (leaf x)
    then obtain p where p: "ps = [p]" by auto
    then have "step_input ?v step = p"
      using root same pi(2) snoc.prems(2) by (simp add: leaf_inputs_ok_def)
    then have False using p snoc.prems(2) step by (auto simp: leaf_inputs_ok_def step_input_def split: if_splits)
    then show ?thesis ..
  next
    case (node ys zs)
    note th = tree_halves [OF node(1-3), of sha]
    obtain p1 p2 where p: "ps = p1 @ p2" "map sha p1 = ys" "map sha p2 = zs"
      using map_append_split [OF node(2)] by blast
    have ne: "p1 \<noteq> []" "p2 \<noteq> []" using p node(4,5) by auto
    have ok: "leaf_inputs_ok B p1" "leaf_inputs_ok B p2" using snoc.prems(2) p(1) by (auto simp: leaf_inputs_ok_def)
    have sub: "tree_inputs sha ys \<subseteq> B" "tree_inputs sha zs \<subseteq> B" "node_input (mth sha ys) (mth sha zs) \<in> B"
      using snoc.prems(3) th(1) by blast+
    have "step_input ?v step = node_input (mth sha ys) (mth sha zs)"
      using root node(6) [of sha] same pi(2) sub(3) by (simp add: node_hash_input)
    then have "?v = mth sha ys \<and> s = mth sha zs \<or> ?v = mth sha zs \<and> s = mth sha ys"
      using step node_input_inj by (auto simp: step_input_def split: if_splits)
    moreover have "mth sha ys \<in> tree_hashes sha ys" "mth sha zs \<in> tree_hashes sha zs"
      using mth_in_tree node(4,5) by blast+
    moreover have "c \<in> tree_hashes sha ys \<and> fst ` set path \<subseteq> tree_hashes sha ys" if "?v = mth sha ys"
      using snoc.IH [OF ne(1) ok(1)] that pi(1) sub(1) p(2) by simp
    moreover have "c \<in> tree_hashes sha zs \<and> fst ` set path \<subseteq> tree_hashes sha zs" if "?v = mth sha zs"
      using snoc.IH [OF ne(2) ok(2)] that pi(1) sub(2) p(3) by simp
    ultimately show ?thesis using th(2,3) step by auto
  qed
qed

section \<open>Inclusion paths\<close>

lemma next_level_nth:
  "2 * k + 1 < length xs \<Longrightarrow> next_level sha xs ! k = node_hash sha (xs ! (2 * k)) (xs ! (2 * k + 1))"
  "2 * k + 1 = length xs \<Longrightarrow> next_level sha xs ! k = xs ! (2 * k)"
proof (induction sha xs arbitrary: k rule: next_level.induct)
  case (3 sha x y rest)
  {
    case 1
    then show ?case using 3(1) [of "k - 1"] by (cases k) auto
  next
    case 2
    then show ?case using 3(2) [of "k - 1"] by (cases k) (auto, metis nth_Cons_Suc)
  }
qed auto

lemma path_step_simps [simp]:
  "path_step sha c (s, True) = node_hash sha c s" "path_step sha c (s, False) = node_hash sha s c"
  by (simp_all add: path_step_def)

lemma inclusion_path_tail:
  "fst ` set (inclusion_path levels (idx div 2)) \<subseteq> fst ` set (inclusion_path (level # levels) idx)"
  by (cases "even idx") (auto simp: Let_def)

text \<open>\<open>all_paired n i\<close>: on its way up from leaf \<open>i\<close> of \<open>n\<close>, no node is the unpaired last one.\<close>

function all_paired :: "nat \<Rightarrow> nat \<Rightarrow> bool" where
  "all_paired n i \<longleftrightarrow> (if n \<le> 1 then True else (odd i \<or> i + 1 < n) \<and> all_paired ((n + 1) div 2) (i div 2))"
  by pat_completeness auto
termination by (relation "measure fst") auto

declare all_paired.simps [simp del]

lemma butlast_levels:
  assumes "1 < length xs"
  shows "butlast (levels_from sha xs) = xs # butlast (levels_from sha (next_level sha xs))"
proof -
  have "xs \<noteq> []" using assms by auto
  then have "levels_from sha (next_level sha xs) \<noteq> []" using levels_from_shape next_level_nonempty by blast
  then show ?thesis using assms by (subst levels_from.simps) simp
qed

lemma inclusion_path_complete:
  "i < length xs \<Longrightarrow> all_paired (length xs) i \<Longrightarrow>
     foldl (path_step sha) (xs ! i) (inclusion_path (butlast (levels_from sha xs)) i) = level_root sha xs"
proof (induction sha xs arbitrary: i rule: levels_from.induct)
  case (1 sha xs)
  show ?case
  proof (cases "length xs \<le> 1")
    case True
    then obtain x where "xs = [x]" using 1(2) by (cases xs) auto
    then show ?thesis using 1(2) by (simp add: levels_from.simps root_from_levels_def)
  next
    case False
    then have p: "odd i \<or> i + 1 < length xs" "all_paired ((length xs + 1) div 2) (i div 2)"
      using 1(3) by (simp_all add: all_paired.simps [of "length xs" i])
    have bl: "butlast (levels_from sha xs) = xs # butlast (levels_from sha (next_level sha xs))"
      by (rule butlast_levels) (use False in simp)
    have "i div 2 < length (next_level sha xs)" using 1(2) by (simp add: length_next_level)
    moreover have "all_paired (length (next_level sha xs)) (i div 2)" using p(2) by (simp add: length_next_level)
    ultimately have IH: "foldl (path_step sha) (next_level sha xs ! (i div 2))
        (inclusion_path (butlast (levels_from sha (next_level sha xs))) (i div 2)) = level_root sha xs"
      using 1(1) [OF False] level_root_step [of xs sha] False by simp
    have "next_level sha xs ! (i div 2) =
        (if even i then node_hash sha (xs ! i) (xs ! (i + 1)) else node_hash sha (xs ! (i - 1)) (xs ! i))"
    proof (cases "even i")
      case True
      then show ?thesis using next_level_nth(1) [of "i div 2" xs sha] p(1) by auto
    next
      case False
      then obtain j where "i = 2 * j + 1" by (blast elim: oddE)
      then show ?thesis using next_level_nth(1) [of j xs sha] 1(2) by simp
    qed
    moreover have "inclusion_path (butlast (levels_from sha xs)) i =
        (if even i then xs ! (i + 1) else xs ! (i - 1), even i) #
          inclusion_path (butlast (levels_from sha (next_level sha xs))) (i div 2)"
      unfolding bl using p(1) 1(2) by auto
    ultimately show ?thesis using IH by (cases "even i") simp_all
  qed
qed

lemma unpaired_path:
  "i < length xs \<Longrightarrow> \<not> all_paired (length xs) i \<Longrightarrow>
     EMPTY_HASH \<in> fst ` set (inclusion_path (butlast (levels_from sha xs)) i)"
proof (induction sha xs arbitrary: i rule: levels_from.induct)
  case (1 sha xs)
  have "\<not> length xs \<le> 1" using 1(3) by (subst (asm) all_paired.simps) (auto split: if_splits)
  note big = this
  have bl: "butlast (levels_from sha xs) = xs # butlast (levels_from sha (next_level sha xs))"
    by (rule butlast_levels) (use big in simp)
  show ?case
  proof (cases "odd i \<or> i + 1 < length xs")
    case True
    then have "\<not> all_paired (length (next_level sha xs)) (i div 2)"
      using 1(3) big by (subst (asm) all_paired.simps) (simp add: length_next_level)
    moreover have "i div 2 < length (next_level sha xs)" using 1(2) by (simp add: length_next_level)
    ultimately have "EMPTY_HASH \<in> fst ` set (inclusion_path (butlast (levels_from sha (next_level sha xs))) (i div 2))"
      by (intro 1(1) [OF big])
    then show ?thesis unfolding bl by (rule subsetD [OF inclusion_path_tail])
  next
    case False
    then show ?thesis unfolding bl by (simp add: Let_def)
  qed
qed

end
