(* ===== verification/Transparency_Log.thy ===== *)
theory Transparency_Log
  imports Merkle_Laws Settlement
begin

text \<open>
  \<open>src/settlement/transparency_log.rs\<close>: the append-only log of settlement transitions over the
  Merkle tree of theory \<open>Merkle\<close>.  The properties are stated for sets of hash inputs on which
  SHA-256 does not collide.
\<close>

section \<open>The log\<close>

record log_entry =
  le_index :: u64
  le_message_id :: bytes32
  le_from_status :: string
  le_to_status :: string
  le_timestamp :: u64

definition to_hash_bytes :: "log_entry \<Rightarrow> bytes" where
  "to_hash_bytes e =
     u64_le_bytes (le_index e) @ to_vec (le_message_id e) @ as_bytes (le_from_status e) @
     as_bytes (le_to_status e) @ u64_le_bytes (le_timestamp e)"

definition LEAF_DOMAIN :: bytes where
  "LEAF_DOMAIN = as_bytes ''stellarconduit_transparency_log_leaf_v1''"

definition leaf_hash :: "sha_fun \<Rightarrow> log_entry \<Rightarrow> bytes32" where
  "leaf_hash sha entry = sha (LEAF_DOMAIN @ to_hash_bytes entry)"

record transparency_log =
  tl_entries :: "log_entry list"
  tl_leaves :: "bytes32 list"
  tl_root :: bytes32

definition log_new :: transparency_log where
  "log_new = \<lparr>tl_entries = [], tl_leaves = [], tl_root = EMPTY_HASH\<rparr>"

definition log_append :: "sha_fun \<Rightarrow> transparency_log \<Rightarrow> log_entry \<Rightarrow> transparency_log" where
  "log_append sha L entry =
     (let entry1 = entry\<lparr>le_index := word_of_nat (length (tl_entries L))\<rparr>;
          h = leaf_hash sha entry1;
          leaves = tl_leaves L @ [h]
      in \<lparr>tl_entries = tl_entries L @ [entry1], tl_leaves = leaves,
          tl_root = root_from_levels (build_tree_levels sha leaves)\<rparr>)"

definition log_len :: "transparency_log \<Rightarrow> usize" where
  "log_len L = length (tl_entries L)"

definition log_is_empty :: "transparency_log \<Rightarrow> bool" where
  "log_is_empty L \<longleftrightarrow> tl_entries L = []"

definition log_get :: "transparency_log \<Rightarrow> usize \<Rightarrow> log_entry option" where
  "log_get L i = (if i < length (tl_entries L) then Some (tl_entries L ! i) else None)"

definition log_inclusion_proof :: "sha_fun \<Rightarrow> transparency_log \<Rightarrow> usize \<Rightarrow> inclusion_proof option" where
  "log_inclusion_proof sha L index =
     inclusion_proof_from_levels (build_tree_levels sha (tl_leaves L)) (tl_leaves L) index"

text \<open>\<open>&self.leaves[..old_size]\<close>: the two vectors have the same length in every log built by appending.\<close>

definition consistency_proof_for :: "sha_fun \<Rightarrow> transparency_log \<Rightarrow> usize \<Rightarrow> consistency_proof_rec option" where
  "consistency_proof_for sha L old_size =
     (if old_size = 0 \<or> old_size > log_len L then None
      else consistency_proof sha (take old_size (tl_leaves L)) (tl_leaves L) old_size (log_len L))"

definition verify_root :: "sha_fun \<Rightarrow> transparency_log \<Rightarrow> bool" where
  "verify_root sha L \<longleftrightarrow> root_from_levels (build_tree_levels sha (tl_leaves L)) = tl_root L"

definition verify_entries :: "sha_fun \<Rightarrow> transparency_log \<Rightarrow> bool" where
  "verify_entries sha L \<longleftrightarrow>
     list_all (\<lambda>(entry, expected). leaf_hash sha entry = expected) (zip (tl_entries L) (tl_leaves L))"

definition verify_integrity :: "sha_fun \<Rightarrow> transparency_log \<Rightarrow> bool" where
  "verify_integrity sha L \<longleftrightarrow> verify_root sha L \<and> verify_entries sha L"

definition from_entries :: "sha_fun \<Rightarrow> log_entry list \<Rightarrow> transparency_log" where
  "from_entries sha entries = foldl (log_append sha) log_new entries"

section \<open>Logs built by appending\<close>

definition indexed :: "log_entry list \<Rightarrow> log_entry list" where
  "indexed es = map (\<lambda>(i, e). e\<lparr>le_index := word_of_nat i\<rparr>) (enumerate 0 es)"

lemma length_indexed [simp]: "length (indexed es) = length es"
  by (simp add: indexed_def)

lemma indexed_Nil [simp]: "indexed es = [] \<longleftrightarrow> es = []" "indexed [] = []"
  by (simp_all add: indexed_def enumerate_eq_zip)

lemma indexed_snoc: "indexed (es @ [e]) = indexed es @ [e\<lparr>le_index := word_of_nat (length es)\<rparr>]"
  by (simp add: indexed_def enumerate_append_eq)

lemma from_entries_snoc: "from_entries sha (es @ [e]) = log_append sha (from_entries sha es) e"
  by (simp add: from_entries_def)

lemma from_entries_fields:
  "tl_entries (from_entries sha es) = indexed es"
  "tl_leaves (from_entries sha es) = map (leaf_hash sha) (indexed es)"
  "tl_root (from_entries sha es) =
     root_from_levels (build_tree_levels sha (map (leaf_hash sha) (indexed es)))"
proof (induction es rule: rev_induct)
  case Nil
  {
    case 1 show ?case by (simp add: from_entries_def log_new_def)
  next
    case 2 show ?case by (simp add: from_entries_def log_new_def)
  next
    case 3 show ?case by (simp add: from_entries_def log_new_def build_tree_levels_def root_from_levels_def)
  }
next
  case (snoc e es)
  {
    case 1 show ?case using snoc by (simp add: from_entries_snoc log_append_def Let_def indexed_snoc)
  next
    case 2 show ?case using snoc by (simp add: from_entries_snoc log_append_def Let_def indexed_snoc)
  next
    case 3 show ?case using snoc by (simp add: from_entries_snoc log_append_def Let_def indexed_snoc)
  }
qed

definition leaf_input :: "log_entry \<Rightarrow> bytes" where
  "leaf_input e = LEAF_DOMAIN @ to_hash_bytes e"

lemma leaf_hash_input: "leaf_hash sha e = sha (leaf_input e)"
  by (simp add: leaf_hash_def leaf_input_def)

lemma map_leaf_hash: "map (leaf_hash sha) es = map sha (map leaf_input es)"
  by (simp add: leaf_hash_input)

lemma leaf_not_node [simp]: "\<not> is_node_input (leaf_input e)"
proof -
  have "as_bytes ''stellarconduit_transparency_log_leaf_v1'' \<noteq> as_bytes ''stellarconduit_transparency_log_node_v1''"
    unfolding as_bytes_inj by simp
  then show ?thesis by (simp add: is_node_input_def leaf_input_def LEAF_DOMAIN_def NODE_DOMAIN_def)
qed

lemma leaf_inputs_ok: "leaf_input ` set es \<subseteq> B \<Longrightarrow> leaf_inputs_ok B (map leaf_input es)"
  by (auto simp: leaf_inputs_ok_def)

text \<open>The statuses of a settlement transition: the old one is empty for the first transition.\<close>

definition legal_entry :: "log_entry \<Rightarrow> bool" where
  "legal_entry e \<longleftrightarrow> (le_from_status e = '''' \<or> le_from_status e \<in> range as_str) \<and> le_to_status e \<in> range as_str"

lemma status_prefix_free: "as_str s @ x = as_str t @ y \<Longrightarrow> s = t \<and> x = y"
  by (cases s; cases t) simp_all

lemma status_pair_unique:
  assumes "a = '''' \<or> a \<in> range as_str" and "b \<in> range as_str"
    and "c = '''' \<or> c \<in> range as_str" and "d \<in> range as_str" and "a @ b = c @ d"
  shows "a = c \<and> b = d"
proof -
  have nonempty: "as_str s \<noteq> ''''" for s by (cases s) simp_all
  obtain t where t: "b = as_str t" using assms(2) by blast
  obtain u where u: "d = as_str u" using assms(4) by blast
  show ?thesis
  proof (cases "a = ''''"; cases "c = ''''")
    assume "a = ''''" "c \<noteq> ''''"
    then obtain v where "c = as_str v" using assms(3) by blast
    then have "as_str t @ '''' = as_str v @ as_str u" using assms(5) t u \<open>a = ''''\<close> by simp
    then show ?thesis using status_prefix_free nonempty by metis
  next
    assume "a \<noteq> ''''" "c = ''''"
    then obtain v where "a = as_str v" using assms(1) by blast
    then have "as_str v @ as_str t = as_str u @ ''''" using assms(5) t u \<open>c = ''''\<close> by simp
    then show ?thesis using status_prefix_free nonempty by metis
  next
    assume "a \<noteq> ''''" "c \<noteq> ''''"
    then obtain v w where "a = as_str v" "c = as_str w" using assms(1,3) by blast
    then show ?thesis using status_prefix_free assms(5) by blast
  qed (use assms(5) in simp)
qed

lemma append_ends:
  assumes "length xs = length xs'" and "length zs = length zs'" and "xs @ ys @ zs = xs' @ ys' @ zs'"
  shows "xs = xs' \<and> ys = ys' \<and> zs = zs'"
  using assms by (metis append_eq_append_conv)

lemma hash_bytes_inj:
  assumes "legal_entry e" and "legal_entry f" and "to_hash_bytes e = to_hash_bytes f"
  shows "e = f"
proof -
  have "(u64_le_bytes (le_index e) @ to_vec (le_message_id e)) @
        as_bytes (le_from_status e @ le_to_status e) @ u64_le_bytes (le_timestamp e) =
      (u64_le_bytes (le_index f) @ to_vec (le_message_id f)) @
        as_bytes (le_from_status f @ le_to_status f) @ u64_le_bytes (le_timestamp f)"
    using assms(3) by (simp add: to_hash_bytes_def)
  from append_ends [OF _ _ this]
  have *: "u64_le_bytes (le_index e) @ to_vec (le_message_id e) = u64_le_bytes (le_index f) @ to_vec (le_message_id f)"
    "le_from_status e @ le_to_status e = le_from_status f @ le_to_status f"
    "le_timestamp e = le_timestamp f" by (auto simp: u64_le_bytes_inj simp del: as_bytes_append)
  then have "le_index e = le_index f" "le_message_id e = le_message_id f" by (simp_all add: u64_le_bytes_inj)
  moreover have "le_from_status e = le_from_status f \<and> le_to_status e = le_to_status f"
    using assms(1,2) *(2) by (intro status_pair_unique) (simp_all add: legal_entry_def)
  ultimately show ?thesis using *(3) by simp
qed

lemma leaf_inputs_inj:
  assumes "list_all legal_entry es" and "list_all legal_entry fs" and "map leaf_input es = map leaf_input fs"
  shows "es = fs"
proof -
  have "inj_on leaf_input (set es \<union> set fs)"
  proof (rule inj_onI)
    fix e f
    assume "e \<in> set es \<union> set fs" "f \<in> set es \<union> set fs" "leaf_input e = leaf_input f"
    then show "e = f"
      using assms(1,2) hash_bytes_inj [of e f] by (auto simp: list_all_iff leaf_input_def)
  qed
  then show ?thesis using assms(3) inj_on_map_eq_map by blast
qed

lemma indexed_legal: "list_all legal_entry (indexed es) \<longleftrightarrow> list_all legal_entry es"
proof (induction es rule: rev_induct)
  case (snoc e es)
  have "legal_entry (e\<lparr>le_index := i\<rparr>) \<longleftrightarrow> legal_entry e" for i by (simp add: legal_entry_def)
  with snoc show ?case by (simp add: indexed_snoc)
qed simp

section \<open>Properties\<close>

text \<open>All inputs the hash is applied to while a log of the entries \<open>es\<close> is built.\<close>

definition log_inputs :: "sha_fun \<Rightarrow> log_entry list \<Rightarrow> bytes set" where
  "log_inputs sha es = leaf_input ` set (indexed es) \<union> tree_inputs sha (map (leaf_hash sha) (indexed es))"

lemma log_root:
  "es \<noteq> [] \<Longrightarrow> tl_root (from_entries sha es) = mth sha (map sha (map leaf_input (indexed es)))"
  by (simp add: from_entries_fields root_mth map_leaf_hash del: map_map)

lemma log_inputs_ok:
  assumes "log_inputs sha es \<subseteq> B"
  shows "leaf_inputs_ok B (map leaf_input (indexed es))"
    and "tree_inputs sha (map sha (map leaf_input (indexed es))) \<subseteq> B"
  using assms leaf_inputs_ok [of "indexed es" B] by (simp_all add: log_inputs_def map_leaf_hash del: map_map)

lemma all_paired_power: "all_paired (2 ^ j) i \<or> i \<ge> 2 ^ j"
proof (induction j arbitrary: i)
  case 0
  show ?case by (simp add: all_paired.simps)
next
  case (Suc j)
  have "all_paired (2 ^ Suc j) i" if "i < 2 ^ Suc j"
  proof -
    have "i div 2 < 2 ^ j" using that by auto
    then have "all_paired ((2 ^ Suc j + 1) div 2) (i div 2)" using Suc.IH [of "i div 2"] by auto
    moreover have "odd i \<or> i + 1 < 2 ^ Suc j" using that by (auto simp: Suc_lessI elim!: evenE)
    ultimately show ?thesis by (subst all_paired.simps) simp
  qed
  then show ?case by linarith
qed

lemma last_unpaired: "odd n \<Longrightarrow> 1 < n \<Longrightarrow> \<not> all_paired n (n - 1)"
  by (subst all_paired.simps) auto

text \<open>
  C28. The root of a log is the Merkle tree hash of RFC 6962: appending entries one by one and
  rebuilding the levels with promotion of unpaired nodes gives the recursive hash over the leaf
  hashes, where each entry carries its position as index; the log passes its own integrity check.
\<close>

theorem log_root_recursive:
  "tl_root (from_entries sha es) =
     (if es = [] then EMPTY_HASH else mth sha (map (leaf_hash sha) (indexed es))) \<and>
   tl_entries (from_entries sha es) = indexed es \<and> verify_integrity sha (from_entries sha es)"
proof -
  have "list_all (\<lambda>(e, h). leaf_hash sha e = h) (zip xs (map (leaf_hash sha) xs))" for xs
    by (induction xs) auto
  then have "verify_integrity sha (from_entries sha es)"
    by (simp add: verify_integrity_def verify_root_def verify_entries_def from_entries_fields)
  moreover have "root_from_levels (build_tree_levels sha []) = EMPTY_HASH"
    by (simp add: build_tree_levels_def root_from_levels_def)
  ultimately show ?thesis by (simp add: from_entries_fields root_mth)
qed

text \<open>
  C27. The log is tamper-evident: if the hash does not collide on what the two logs hash, then two
  logs (of any lengths) with the same root contain the same entries, provided their statuses are
  those of the settlement state machine.
\<close>

theorem log_tamper_evident:
  "es \<noteq> [] \<Longrightarrow> fs \<noteq> [] \<Longrightarrow> list_all legal_entry es \<Longrightarrow> list_all legal_entry fs \<Longrightarrow>
   inj_on sha (log_inputs sha es \<union> log_inputs sha fs) \<Longrightarrow>
   tl_root (from_entries sha es) = tl_root (from_entries sha fs) \<Longrightarrow>
     tl_entries (from_entries sha es) = tl_entries (from_entries sha fs)"
proof -
  assume ne: "es \<noteq> []" "fs \<noteq> []" and legal: "list_all legal_entry es" "list_all legal_entry fs"
    and inj: "inj_on sha (log_inputs sha es \<union> log_inputs sha fs)"
    and root: "tl_root (from_entries sha es) = tl_root (from_entries sha fs)"
  let ?B = "log_inputs sha es \<union> log_inputs sha fs"
  have "map leaf_input (indexed es) = map leaf_input (indexed fs)"
    by (rule mth_binding [OF inj]) (use ne log_inputs_ok [of sha es ?B] log_inputs_ok [of sha fs ?B]
        root log_root [of es sha] log_root [of fs sha] in \<open>simp_all del: map_map\<close>)
  then show ?thesis using leaf_inputs_inj legal by (simp add: from_entries_fields indexed_legal)
qed

text \<open>
  What the integrity check of a stored log detects: with entries \<open>fs\<close> in place of its own,
  the log passes exactly if \<open>fs\<close> agrees with them as far as both reach.  So every edit and every
  swap is detected, but entries cut off at the end (or added there) are not.
\<close>

theorem log_integrity_exact:
  "list_all legal_entry es \<Longrightarrow> list_all legal_entry fs \<Longrightarrow>
   inj_on sha (leaf_input ` (set (indexed es) \<union> set fs)) \<Longrightarrow>
     verify_integrity sha ((from_entries sha es)\<lparr>tl_entries := fs\<rparr>) \<longleftrightarrow>
       (\<forall>i. i < length es \<and> i < length fs \<longrightarrow> fs ! i = tl_entries (from_entries sha es) ! i)"
proof -
  assume legal: "list_all legal_entry es" "list_all legal_entry fs"
    and inj: "inj_on sha (leaf_input ` (set (indexed es) \<union> set fs))"
  have same: "leaf_hash sha (fs ! i) = leaf_hash sha (indexed es ! i) \<longleftrightarrow> fs ! i = indexed es ! i"
    if "i < length es" "i < length fs" for i
  proof -
    have mem: "fs ! i \<in> set fs" "indexed es ! i \<in> set (indexed es)" using that by simp_all
    then have "legal_entry (fs ! i)" "legal_entry (indexed es ! i)"
      using legal indexed_legal [of es] unfolding list_all_iff by blast+
    then have "leaf_input (fs ! i) = leaf_input (indexed es ! i) \<longleftrightarrow> fs ! i = indexed es ! i"
      using hash_bytes_inj by (auto simp: leaf_input_def)
    moreover have "leaf_input (fs ! i) \<in> leaf_input ` (set (indexed es) \<union> set fs)"
      "leaf_input (indexed es ! i) \<in> leaf_input ` (set (indexed es) \<union> set fs)"
      using mem by (simp_all add: image_Un)
    ultimately show ?thesis using inj_on_eq_iff [OF inj] unfolding leaf_hash_input by simp
  qed
  have "verify_integrity sha ((from_entries sha es)\<lparr>tl_entries := fs\<rparr>) \<longleftrightarrow>
      list_all (\<lambda>(f, h). leaf_hash sha f = h) (zip fs (map (leaf_hash sha) (indexed es)))"
    by (simp add: verify_integrity_def verify_root_def verify_entries_def from_entries_fields)
  also have "\<dots> \<longleftrightarrow>
      (\<forall>i. i < length es \<and> i < length fs \<longrightarrow> leaf_hash sha (fs ! i) = leaf_hash sha (indexed es ! i))"
    unfolding list_all_length by (simp add: conj_commute)
  also have "\<dots> \<longleftrightarrow> (\<forall>i. i < length es \<and> i < length fs \<longrightarrow> fs ! i = indexed es ! i)"
    using same by metis
  finally show ?thesis by (simp add: from_entries_fields)
qed

text \<open>
  C30. Inclusion proofs, completeness: the proof for an entry carries its leaf hash and the root
  of the log; it verifies if no node on the way up is an unpaired last node, and (as long as the
  hash does not collide and no hash of the tree is all zeroes) only then.
\<close>

theorem inclusion_proof_exact:
  "i < length es \<Longrightarrow>
     \<exists>p. log_inclusion_proof sha (from_entries sha es) i = Some p \<and>
       ip_leaf_hash p = leaf_hash sha (tl_entries (from_entries sha es) ! i) \<and>
       ip_root_hash p = tl_root (from_entries sha es) \<and>
       (all_paired (length es) i \<longrightarrow> verify_inclusion_proof sha p) \<and>
       (\<not> all_paired (length es) i \<and>
          inj_on sha (log_inputs sha es \<union> path_inputs sha (ip_leaf_hash p) (ip_path p)) \<and>
          EMPTY_HASH \<notin> tree_hashes sha (map (leaf_hash sha) (indexed es)) \<longrightarrow>
        \<not> verify_inclusion_proof sha p)"
proof -
  assume i: "i < length es"
  then have ne: "es \<noteq> []" by auto
  let ?leaves = "map (leaf_hash sha) (indexed es)"
  let ?path = "inclusion_path (butlast (levels_from sha ?leaves)) i"
  let ?p = "\<lparr>ip_leaf_index = i, ip_leaf_hash = ?leaves ! i, ip_path = ?path,
      ip_root_hash = root_from_levels (build_tree_levels sha ?leaves)\<rparr>"
  have p: "log_inclusion_proof sha (from_entries sha es) i = Some ?p"
    using i ne by (simp add: log_inclusion_proof_def inclusion_proof_from_levels_def from_entries_fields
        build_tree_levels_def)
  have root: "root_from_levels (build_tree_levels sha ?leaves) = level_root sha ?leaves"
    using ne by (simp add: build_tree_levels_def)
  have good: "verify_inclusion_proof sha ?p" if "all_paired (length es) i"
    using inclusion_path_complete [of i ?leaves sha] i that by (simp add: verify_inclusion_proof_def root)
  have bad: "\<not> verify_inclusion_proof sha ?p"
    if unp: "\<not> all_paired (length es) i" and inj: "inj_on sha (log_inputs sha es \<union> path_inputs sha (?leaves ! i) ?path)"
      and no0: "EMPTY_HASH \<notin> tree_hashes sha ?leaves"
  proof
    assume "verify_inclusion_proof sha ?p"
    then have fold: "foldl (path_step sha) (?leaves ! i) ?path = mth sha (map sha (map leaf_input (indexed es)))"
      using ne by (simp add: verify_inclusion_proof_def root_mth map_leaf_hash del: map_map)
    have "EMPTY_HASH \<in> fst ` set ?path" using unpaired_path [of i ?leaves sha] i unp by simp
    moreover have "fst ` set ?path \<subseteq> tree_hashes sha (map sha (map leaf_input (indexed es)))"
      using path_sound [OF inj _ log_inputs_ok [of sha es] _ fold] ne by (simp del: map_map)
    ultimately show False using no0 by (auto simp: map_leaf_hash simp del: map_map)
  qed
  show ?thesis
    by (intro exI [of _ ?p] conjI p) (use good bad i in \<open>simp_all add: from_entries_fields\<close>)
qed

text \<open>
  C29. Inclusion proofs, soundness: a proof that verifies against the root of a log and whose leaf
  is the hash of an entry proves that the entry is in the log, whoever made the proof.
\<close>

theorem inclusion_proof_sound:
  "es \<noteq> [] \<Longrightarrow> list_all legal_entry es \<Longrightarrow> legal_entry e \<Longrightarrow>
   inj_on sha (log_inputs sha es \<union> {leaf_input e} \<union> path_inputs sha (ip_leaf_hash p) (ip_path p)) \<Longrightarrow>
   ip_root_hash p = tl_root (from_entries sha es) \<Longrightarrow> ip_leaf_hash p = leaf_hash sha e \<Longrightarrow>
   verify_inclusion_proof sha p \<Longrightarrow> e \<in> set (tl_entries (from_entries sha es))"
proof -
  assume ne: "es \<noteq> []" and legal: "list_all legal_entry es" "legal_entry e"
    and inj: "inj_on sha (log_inputs sha es \<union> {leaf_input e} \<union> path_inputs sha (ip_leaf_hash p) (ip_path p))"
    and root: "ip_root_hash p = tl_root (from_entries sha es)" and leaf: "ip_leaf_hash p = leaf_hash sha e"
    and ok: "verify_inclusion_proof sha p"
  let ?B = "log_inputs sha es \<union> {leaf_input e} \<union> path_inputs sha (ip_leaf_hash p) (ip_path p)"
  let ?xs = "map sha (map leaf_input (indexed es))"
  have li: "leaf_inputs_ok ?B (map leaf_input (indexed es))" "tree_inputs sha ?xs \<subseteq> ?B"
    by (rule log_inputs_ok; blast)+
  have fold: "foldl (path_step sha) (ip_leaf_hash p) (ip_path p) = mth sha ?xs"
    using ok root log_root [OF ne, of sha] by (simp add: verify_inclusion_proof_def del: map_map)
  have "path_inputs sha (ip_leaf_hash p) (ip_path p) \<subseteq> ?B" by blast
  from path_sound [OF inj _ li this fold] ne
  have "leaf_hash sha e \<in> tree_hashes sha ?xs" by (simp add: leaf del: map_map)
  then consider f where "f \<in> set (indexed es)" "sha (leaf_input e) = sha (leaf_input f)"
    | n where "n \<in> tree_inputs sha ?xs" "sha (leaf_input e) = sha n"
    by (auto simp: tree_hashes_def leaf_hash_input)
  then show ?thesis
  proof cases
    case (1 f)
    moreover from this have "leaf_input f \<in> ?B" by (auto simp: log_inputs_def)
    ultimately have "leaf_input e = leaf_input f" using inj by (auto simp: inj_on_def)
    moreover have "legal_entry f" using 1(1) legal(1) indexed_legal [of es] by (auto simp: list_all_iff)
    ultimately have "e = f" using legal(2) hash_bytes_inj by (simp add: leaf_input_def)
    then show ?thesis using 1(1) by (simp add: from_entries_fields)
  next
    case (2 n)
    then have "leaf_input e = n" using inj li(2) unfolding inj_on_def by blast
    moreover have "is_node_input n" using 2(1) by (auto simp: tree_inputs_def)
    ultimately show ?thesis by (metis leaf_not_node)
  qed
qed

section \<open>Consistency proofs\<close>

lemma nth_indexed: "i < length es \<Longrightarrow> indexed es ! i = (es ! i)\<lparr>le_index := word_of_nat i\<rparr>"
  by (simp add: indexed_def nth_enumerate_eq)

lemma indexed_take: "indexed (take k es) = take k (indexed es)"
  by (rule nth_equalityI) (simp_all add: nth_indexed)

text \<open>
  Consistency proofs, completeness: for every earlier size of a log there is a proof; its
  roots are those of the log of the first entries and of the whole log, and it verifies against
  the leaves of the whole log.
\<close>

theorem consistency_proof_complete:
  "0 < k \<Longrightarrow> k \<le> length es \<Longrightarrow>
     \<exists>p. consistency_proof_for sha (from_entries sha es) k = Some p \<and>
       cp_old_root p = tl_root (from_entries sha (take k es)) \<and>
       cp_new_root p = tl_root (from_entries sha es) \<and>
       verify_consistency_proof sha p (tl_leaves (from_entries sha es)) = Some True"
proof -
  assume k: "0 < k" "k \<le> length es"
  let ?leaves = "map (leaf_hash sha) (indexed es)"
  have old: "tl_root (from_entries sha (take k es)) = root_from_levels (build_tree_levels sha (take k ?leaves))"
    by (simp add: from_entries_fields indexed_take take_map)
  show ?thesis
  proof (cases "k = length es")
    case True
    then show ?thesis using k old
      by (auto simp: consistency_proof_for_def log_len_def from_entries_fields consistency_proof_def
          verify_consistency_proof_def Let_def)
  next
    case False
    have "take k ?leaves \<noteq> []" using k by auto
    then have "chain_hashes sha (collect_subtree_hashes sha ?leaves k) =
        Some (root_from_levels (build_tree_levels sha (take k ?leaves)))"
      using collect_chain [of 0 k ?leaves sha] k by (simp add: collect_subtree_hashes_def root_mth)
    then show ?thesis using k False old
      by (simp add: consistency_proof_for_def log_len_def from_entries_fields consistency_proof_def
          verify_consistency_proof_def Let_def)
  qed
qed

text \<open>
  Consistency proofs are not sound: whatever a log contains, any hash at all passes as the root
  of an earlier, shorter log if the proof lists just that hash; and a proof that lists no hash
  makes the verifier panic.
\<close>

theorem consistency_proof_forgeable:
  "0 < k \<Longrightarrow> k < n \<Longrightarrow> p = \<lparr>cp_old_size = k, cp_new_size = n, cp_old_root = forged,
     cp_new_root = tl_root (from_entries sha es), cp_proof_hashes = [forged]\<rparr> \<Longrightarrow>
     verify_consistency_proof sha p (tl_leaves (from_entries sha es)) = Some True \<and>
     verify_consistency_proof sha (p\<lparr>cp_proof_hashes := []\<rparr>) (tl_leaves (from_entries sha es)) = None"
  by (simp add: verify_consistency_proof_def chain_hashes_def from_entries_fields)

section \<open>Examples\<close>

definition sample_entry :: "u64 \<Rightarrow> log_entry" where
  "sample_entry t = \<lparr>le_index = 0, le_message_id = 7, le_from_status = '''', le_to_status = ''queued'', le_timestamp = t\<rparr>"

definition sample_sha :: sha_fun where
  "sample_sha bs =
     (if bs = leaf_input (sample_entry 1) then 1
      else if bs = leaf_input ((sample_entry 2)\<lparr>le_index := 1\<rparr>) then 2
      else if bs = node_input 1 2 then 3 else 4)"

lemma sample_legal [simp]: "legal_entry (sample_entry t)" "legal_entry ((sample_entry t)\<lparr>le_index := i\<rparr>)"
proof -
  have "as_str Queued = ''queued''" by simp
  then have "''queued'' \<in> range as_str" by (metis rangeI)
  then show "legal_entry (sample_entry t)" "legal_entry ((sample_entry t)\<lparr>le_index := i\<rparr>)"
    by (simp_all add: legal_entry_def sample_entry_def)
qed

lemma sample_inputs_differ [simp]:
  "leaf_input (sample_entry s) = leaf_input (sample_entry t) \<longleftrightarrow> s = t"
  "leaf_input ((sample_entry s)\<lparr>le_index := 1\<rparr>) \<noteq> leaf_input (sample_entry t)"
  "leaf_input e \<noteq> node_input l r" "node_input l r \<noteq> leaf_input e"
proof -
  have "(sample_entry s)\<lparr>le_index := 1\<rparr> \<noteq> sample_entry t" by (simp add: sample_entry_def)
  then show "leaf_input ((sample_entry s)\<lparr>le_index := 1\<rparr>) \<noteq> leaf_input (sample_entry t)"
    using hash_bytes_inj [of "(sample_entry s)\<lparr>le_index := 1\<rparr>" "sample_entry t"] by (auto simp: leaf_input_def)
  show "leaf_input (sample_entry s) = leaf_input (sample_entry t) \<longleftrightarrow> s = t"
    using hash_bytes_inj [OF sample_legal(1) sample_legal(1), of s t] by (auto simp: leaf_input_def) (simp add: sample_entry_def)
  show "leaf_input e \<noteq> node_input l r" "node_input l r \<noteq> leaf_input e"
    using leaf_not_node is_node_input_node by metis+
qed

lemma sample_indexed: "indexed [sample_entry 1, sample_entry 2] = [sample_entry 1, (sample_entry 2)\<lparr>le_index := 1\<rparr>]"
  by (simp add: indexed_def enumerate_eq_zip sample_entry_def)

lemma sample_leaves:
  "map (leaf_hash sample_sha) (indexed [sample_entry 1, sample_entry 2]) = [1, 2]"
  by (simp add: sample_indexed leaf_hash_input sample_sha_def)

lemma node_pairs_two: "node_pairs sha [x, y] = [(x, y)]"
  by (simp add: node_pairs.simps next_power_of_two_def double_until.simps)

lemma mth_two: "mth sha [x, y] = node_hash sha x y"
  by (simp add: mth.simps next_power_of_two_def double_until.simps)

lemma sample_log_inputs:
  "log_inputs sample_sha [sample_entry 1, sample_entry 2] =
     {leaf_input (sample_entry 1), leaf_input ((sample_entry 2)\<lparr>le_index := 1\<rparr>), node_input 1 2}"
proof -
  have "tree_inputs sample_sha (map (leaf_hash sample_sha) (indexed [sample_entry 1, sample_entry 2])) = {node_input 1 2}"
    unfolding sample_leaves by (simp add: tree_inputs_def node_pairs_two)
  then show ?thesis by (simp add: log_inputs_def sample_indexed insert_commute)
qed

lemma sample_inj: "inj_on sample_sha (log_inputs sample_sha [sample_entry 1, sample_entry 2])"
  unfolding sample_log_inputs by (simp add: sample_sha_def sample_inputs_differ [symmetric])


definition sample_log :: transparency_log where
  "sample_log = from_entries sample_sha [sample_entry 1, sample_entry 2]"

theorem log_tamper_evident_witness:
  "tl_entries (from_entries sample_sha [sample_entry 1, sample_entry 2]) =
     tl_entries (from_entries sample_sha [(sample_entry 1)\<lparr>le_index := 9\<rparr>, sample_entry 2])"
proof (rule log_tamper_evident)
  have *: "indexed [(sample_entry 1)\<lparr>le_index := 9\<rparr>, sample_entry 2] = indexed [sample_entry 1, sample_entry 2]"
    by (simp add: indexed_def enumerate_eq_zip)
  show "inj_on sample_sha (log_inputs sample_sha [sample_entry 1, sample_entry 2] \<union>
      log_inputs sample_sha [(sample_entry 1)\<lparr>le_index := 9\<rparr>, sample_entry 2])"
    using sample_inj unfolding log_inputs_def * by simp
  show "tl_root (from_entries sample_sha [sample_entry 1, sample_entry 2]) =
      tl_root (from_entries sample_sha [(sample_entry 1)\<lparr>le_index := 9\<rparr>, sample_entry 2])"
    by (simp only: from_entries_fields *)
qed simp_all

theorem log_integrity_exact_witness:
  "\<not> verify_integrity sample_sha (sample_log\<lparr>tl_entries := [(sample_entry 2)\<lparr>le_index := 1\<rparr>, sample_entry 1]\<rparr>)"
proof -
  have "inj_on sample_sha (leaf_input ` (set (indexed [sample_entry 1, sample_entry 2]) \<union>
      set [(sample_entry 2)\<lparr>le_index := 1\<rparr>, sample_entry 1]))"
    by (rule inj_on_subset [OF sample_inj]) (auto simp: sample_log_inputs sample_indexed)
  then have "verify_integrity sample_sha (sample_log\<lparr>tl_entries := [(sample_entry 2)\<lparr>le_index := 1\<rparr>, sample_entry 1]\<rparr>) \<longleftrightarrow>
      (\<forall>i. i < 2 \<longrightarrow> [(sample_entry 2)\<lparr>le_index := 1\<rparr>, sample_entry 1] ! i =
        indexed [sample_entry 1, sample_entry 2] ! i)"
    unfolding sample_log_def
    using log_integrity_exact [of "[sample_entry 1, sample_entry 2]" "[(sample_entry 2)\<lparr>le_index := 1\<rparr>, sample_entry 1]" sample_sha]
    by (simp add: from_entries_fields numeral_2_eq_2)
  then show ?thesis unfolding sample_indexed by (auto simp: sample_entry_def dest: spec [of _ 0])
qed

theorem inclusion_proof_exact_witness:
  "\<exists>p. log_inclusion_proof sample_sha sample_log 1 = Some p \<and> verify_inclusion_proof sample_sha p"
  using inclusion_proof_exact [of 1 "[sample_entry 1, sample_entry 2]" sample_sha] all_paired_power [of 1 1]
  by (auto simp: sample_log_def numeral_2_eq_2)

theorem inclusion_proof_sound_witness:
  "(sample_entry 2)\<lparr>le_index := 1\<rparr> \<in> set (tl_entries sample_log)"
proof -
  let ?p = "\<lparr>ip_leaf_index = 1, ip_leaf_hash = 2, ip_path = [(1, False)], ip_root_hash = 3\<rparr>"
  have *: "log_inputs sample_sha [sample_entry 1, sample_entry 2] \<union> {leaf_input ((sample_entry 2)\<lparr>le_index := 1\<rparr>)} \<union>
      path_inputs sample_sha (ip_leaf_hash ?p) (ip_path ?p) = log_inputs sample_sha [sample_entry 1, sample_entry 2]"
    by (auto simp: sample_log_inputs step_input_def)
  have "tl_root (from_entries sample_sha [sample_entry 1, sample_entry 2]) = mth sample_sha [1, 2]"
    by (simp add: from_entries_fields root_mth sample_leaves [simplified])
  then show ?thesis
    unfolding sample_log_def
    using inclusion_proof_sound [of "[sample_entry 1, sample_entry 2]" "(sample_entry 2)\<lparr>le_index := 1\<rparr>" sample_sha ?p]
      sample_inj unfolding *
    by (simp add: mth_two node_hash_input verify_inclusion_proof_def leaf_hash_input sample_sha_def)
qed

theorem consistency_proof_complete_witness:
  "\<exists>p. consistency_proof_for sample_sha sample_log 1 = Some p \<and>
     verify_consistency_proof sample_sha p (tl_leaves sample_log) = Some True"
  using consistency_proof_complete [of 1 "[sample_entry 1, sample_entry 2]" sample_sha]
  by (auto simp: sample_log_def)

theorem consistency_proof_forgeable_witness:
  "verify_consistency_proof sample_sha \<lparr>cp_old_size = 1, cp_new_size = 2, cp_old_root = 99,
     cp_new_root = tl_root sample_log, cp_proof_hashes = [99]\<rparr> (tl_leaves sample_log) = Some True"
  using consistency_proof_forgeable [of 1 2 "\<lparr>cp_old_size = 1, cp_new_size = 2, cp_old_root = 99,
     cp_new_root = tl_root sample_log, cp_proof_hashes = [99]\<rparr>" 99 sample_sha "[sample_entry 1, sample_entry 2]"]
  by (simp add: sample_log_def)

end
