(* ===== verification/Vdf.thy ===== *)
theory Vdf
  imports Priority "HOL-Library.Product_Lexorder"
begin

text \<open>
  \<open>src/queue/vdf_ordering.rs\<close>: Wesolowski's verifiable delay function over a modulus, the
  deterministic prime derivation it needs, and the dispatch order that prefers envelopes with a
  valid proof.  \<open>BigUint\<close> is \<open>nat\<close>, with \<open>modpow\<close> the power modulo the third argument and
  the byte conversions of \<open>num_bigint\<close> written out; SHA-256 is the parameter \<open>sha\<close>.  \<open>None\<close>
  is a panic (a zero modulus) or a search for a prime that does not end.
\<close>

unbundle bit_operations_syntax

section \<open>Big integers\<close>

type_synonym biguint = nat

type_synonym sha256_fun = "bytes \<Rightarrow> bytes32"

definition modpow :: "biguint \<Rightarrow> biguint \<Rightarrow> biguint \<Rightarrow> biguint" where
  "modpow b e m = b ^ e mod m"

fun biguint_bits :: "biguint \<Rightarrow> nat" where
  "biguint_bits n = (if n = 0 then 0 else Suc (biguint_bits (n div 2)))"

declare biguint_bits.simps [simp del]

fun to_bytes_be :: "biguint \<Rightarrow> bytes" where
  "to_bytes_be n = (if n < 256 then [word_of_nat n] else to_bytes_be (n div 256) @ [word_of_nat (n mod 256)])"

declare to_bytes_be.simps [simp del]

section \<open>Primality\<close>

definition CHALLENGE_PRIME_BITS :: nat where "CHALLENGE_PRIME_BITS = 128"

definition MILLER_RABIN_ROUNDS :: nat where "MILLER_RABIN_ROUNDS = 40"

definition SMALL_PRIME_SIEVE :: "nat list" where
  "SMALL_PRIME_SIEVE = [2, 3, 5, 7, 11, 13, 17, 19, 23, 29, 31, 37, 41, 43, 47, 53, 59, 61, 67, 71,
     73, 79, 83, 89, 97]"

definition deterministic_witness :: "sha256_fun \<Rightarrow> biguint \<Rightarrow> u64 \<Rightarrow> biguint" where
  "deterministic_witness sha n round =
     (let digest = to_vec (sha (as_bytes ''stellarconduit-vdf-miller-rabin-witness-v1'' @
            to_bytes_be n @ u64_be_bytes round));
          raw = of_be_bytes digest;
          span = n - 3
      in raw mod span + 2)"

text \<open>The sieve: \<open>Some\<close> is a decision.\<close>

fun sieve_check :: "biguint \<Rightarrow> nat list \<Rightarrow> bool option" where
  "sieve_check n [] = None"
| "sieve_check n (p # ps) =
     (if n = p then Some True else if n mod p = 0 then Some False else sieve_check n ps)"

text \<open>\<open>while d % 2 == 0\<close>, entered with a positive \<open>d\<close>.\<close>

fun split_twos :: "biguint \<Rightarrow> nat \<Rightarrow> biguint \<times> nat" where
  "split_twos d r = (if d \<noteq> 0 \<and> even d then split_twos (d div 2) (r + 1) else (d, r))"

declare split_twos.simps [simp del]

text \<open>The inner loop \<open>for _ in 1..r\<close>; \<open>True\<close> continues with the next witness.\<close>

fun square_rounds :: "biguint \<Rightarrow> nat \<Rightarrow> biguint \<Rightarrow> bool" where
  "square_rounds n 0 x = False"
| "square_rounds n (Suc k) x =
     (let x1 = modpow x 2 n in if x1 = n - 1 then True else square_rounds n k x1)"

definition witness_round :: "sha256_fun \<Rightarrow> biguint \<Rightarrow> biguint \<Rightarrow> nat \<Rightarrow> nat \<Rightarrow> bool" where
  "witness_round sha n d r round =
     (let a = deterministic_witness sha n (word_of_nat round);
          x = modpow a d n
      in x = 1 \<or> x = n - 1 \<or> square_rounds n (r - 1) x)"

definition is_probably_prime :: "sha256_fun \<Rightarrow> biguint \<Rightarrow> bool" where
  "is_probably_prime sha n =
     (if n < 2 then False
      else case sieve_check n SMALL_PRIME_SIEVE of
             Some decision \<Rightarrow> decision
           | None \<Rightarrow> (case split_twos (n - 1) 0 of
               (d, r) \<Rightarrow> list_all (witness_round sha n d r) [0..<MILLER_RABIN_ROUNDS]))"

section \<open>Hashing to a prime\<close>

definition hash_candidate :: "sha256_fun \<Rightarrow> bytes list \<Rightarrow> u64 \<Rightarrow> biguint" where
  "hash_candidate sha parts counter =
     (let digest = to_vec (sha (as_bytes ''stellarconduit-vdf-hash-to-prime-v1'' @ concat parts @
            u64_be_bytes counter));
          bytes_needed = (CHALLENGE_PRIME_BITS + 7) div 8
      in (of_be_bytes (take (min bytes_needed (length digest)) digest) OR 2 ^ (CHALLENGE_PRIME_BITS - 1)) OR 1)"

partial_function (option) hash_to_prime_from :: "sha256_fun \<Rightarrow> bytes list \<Rightarrow> u64 \<Rightarrow> biguint option" where
  "hash_to_prime_from sha parts counter =
     (if is_probably_prime sha (hash_candidate sha parts counter)
      then Some (hash_candidate sha parts counter)
      else hash_to_prime_from sha parts (counter + 1))"

definition hash_to_prime :: "sha256_fun \<Rightarrow> bytes list \<Rightarrow> biguint option" where
  "hash_to_prime sha parts = hash_to_prime_from sha parts 0"

section \<open>Parameters\<close>

record vdf_params =
  vdf_modulus :: biguint
  vdf_delay :: u64

text \<open>
  The random source is a state with the draw \<open>gen_biguint\<close> of \<open>num_bigint\<close> as a parameter; a
  search that never meets an accepted candidate, and a width of 0 (whose shift underflows), give
  \<open>None\<close>.
\<close>

type_synonym 'g gen_biguint = "'g \<Rightarrow> u64 \<Rightarrow> biguint \<times> 'g"

partial_function (option) generate_prime ::
  "sha256_fun \<Rightarrow> 'g gen_biguint \<Rightarrow> 'g \<Rightarrow> u64 \<Rightarrow> (biguint \<times> 'g) option" where
  "generate_prime sha draw g bits =
     (if bits = 0 then None
      else let candidate = (fst (draw g bits) OR 2 ^ (unat bits - 1)) OR 1; g1 = snd (draw g bits)
           in if is_probably_prime sha candidate then Some (candidate, g1)
              else generate_prime sha draw g1 bits)"

text \<open>\<open>while q == p\<close>\<close>

partial_function (option) redraw_prime ::
  "sha256_fun \<Rightarrow> 'g gen_biguint \<Rightarrow> biguint \<Rightarrow> biguint \<Rightarrow> 'g \<Rightarrow> u64 \<Rightarrow> (biguint \<times> 'g) option" where
  "redraw_prime sha draw p q g bits =
     (if q = p
      then (case generate_prime sha draw g bits of
              None \<Rightarrow> None
            | Some (q1, g1) \<Rightarrow> redraw_prime sha draw p q1 g1 bits)
      else Some (q, g))"

definition params_generate ::
  "sha256_fun \<Rightarrow> 'g gen_biguint \<Rightarrow> 'g \<Rightarrow> u64 \<Rightarrow> u64 \<Rightarrow> (vdf_params \<times> 'g) option" where
  "params_generate sha draw g prime_bits delay =
     (case generate_prime sha draw g prime_bits of
        None \<Rightarrow> None
      | Some (p, g1) \<Rightarrow>
          (case generate_prime sha draw g1 prime_bits of
             None \<Rightarrow> None
           | Some (q, g2) \<Rightarrow>
               (case redraw_prime sha draw p q g2 prime_bits of
                  None \<Rightarrow> None
                | Some (q', g3) \<Rightarrow> Some (\<lparr>vdf_modulus = p * q', vdf_delay = delay\<rparr>, g3))))"

section \<open>The delay function\<close>

record vdf_proof =
  vdf_output :: biguint
  vdf_pi :: biguint

function input_buf :: "sha256_fun \<Rightarrow> bytes \<Rightarrow> bytes \<Rightarrow> nat \<Rightarrow> bytes \<Rightarrow> u32 \<Rightarrow> bytes" where
  "input_buf sha epoch_seed envelope_id bytes_needed buf counter =
     (if length buf < bytes_needed then
        input_buf sha epoch_seed envelope_id bytes_needed
          (buf @ to_vec (sha (as_bytes ''stellarconduit-vdf-input-v1'' @ epoch_seed @ envelope_id @
             u32_be_bytes counter)))
          (counter + 1)
      else buf)"
  by pat_completeness auto
termination
  by (relation "measure (\<lambda>(sha, seed, eid, needed, buf, c). needed - length buf)") auto

declare input_buf.simps [simp del]

definition derive_input :: "sha256_fun \<Rightarrow> biguint \<Rightarrow> bytes \<Rightarrow> bytes \<Rightarrow> biguint option" where
  "derive_input sha modulus epoch_seed envelope_id =
     (let bytes_needed = (biguint_bits modulus + 7) div 8 + 16;
          buf = input_buf sha epoch_seed envelope_id bytes_needed [] 0
      in if modulus = 0 then None else Some (of_be_bytes buf mod modulus))"

definition challenge :: "sha256_fun \<Rightarrow> biguint \<Rightarrow> biguint \<Rightarrow> u64 \<Rightarrow> biguint option" where
  "challenge sha x y delay = hash_to_prime sha [to_bytes_be x, to_bytes_be y, u64_be_bytes delay]"

text \<open>\<open>params.delay\<close> modular squarings.\<close>

definition sequential_squarings :: "biguint \<Rightarrow> u64 \<Rightarrow> biguint \<Rightarrow> biguint" where
  "sequential_squarings modulus delay x = ((\<lambda>y. (y * y) mod modulus) ^^ unat delay) x"

definition evaluate :: "sha256_fun \<Rightarrow> vdf_params \<Rightarrow> bytes \<Rightarrow> bytes \<Rightarrow> vdf_proof option" where
  "evaluate sha params epoch_seed envelope_id =
     (case derive_input sha (vdf_modulus params) epoch_seed envelope_id of
        None \<Rightarrow> None
      | Some x \<Rightarrow>
          let y = sequential_squarings (vdf_modulus params) (vdf_delay params) x
          in (case challenge sha x y (vdf_delay params) of
                None \<Rightarrow> None
              | Some ell \<Rightarrow>
                  let two_pow_t = 2 ^ unat (vdf_delay params);
                      q = two_pow_t div ell
                  in Some \<lparr>vdf_output = y, vdf_pi = modpow x q (vdf_modulus params)\<rparr>))"

definition verify :: "sha256_fun \<Rightarrow> vdf_params \<Rightarrow> bytes \<Rightarrow> bytes \<Rightarrow> vdf_proof \<Rightarrow> bool option" where
  "verify sha params epoch_seed envelope_id proof =
     (case derive_input sha (vdf_modulus params) epoch_seed envelope_id of
        None \<Rightarrow> None
      | Some x \<Rightarrow>
          (case challenge sha x (vdf_output proof) (vdf_delay params) of
             None \<Rightarrow> None
           | Some ell \<Rightarrow>
               let r = modpow 2 (unat (vdf_delay params)) ell;
                   lhs = (modpow (vdf_pi proof) ell (vdf_modulus params) *
                          modpow x r (vdf_modulus params)) mod vdf_modulus params
               in Some (lhs = vdf_output proof)))"

section \<open>Dispatch order\<close>

record vdf_ordered_entry =
  voe_envelope_id :: bytes32
  voe_priority :: tx_priority
  voe_enqueued_at :: u64
  voe_proof :: "vdf_proof option"

definition entry_verified :: "sha256_fun \<Rightarrow> vdf_params \<Rightarrow> bytes \<Rightarrow> vdf_ordered_entry \<Rightarrow> bool option" where
  "entry_verified sha params epoch_seed e =
     (case voe_proof e of
        None \<Rightarrow> Some False
      | Some p \<Rightarrow> verify sha params epoch_seed (to_vec (voe_envelope_id e)) p)"

fun rank_entries ::
  "sha256_fun \<Rightarrow> vdf_params \<Rightarrow> bytes \<Rightarrow> vdf_ordered_entry list \<Rightarrow> (bool \<times> vdf_ordered_entry) list option" where
  "rank_entries sha params epoch_seed [] = Some []"
| "rank_entries sha params epoch_seed (e # es) =
     (case entry_verified sha params epoch_seed e of
        None \<Rightarrow> None
      | Some v \<Rightarrow> (case rank_entries sha params epoch_seed es of
                     None \<Rightarrow> None | Some rs \<Rightarrow> Some ((v, e) # rs)))"

text \<open>
  The comparison of the stable sort, as a key: priority descending, verified first, then age and
  id ascending.
\<close>

definition dispatch_key :: "bool \<times> vdf_ordered_entry \<Rightarrow> nat \<times> nat \<times> nat \<times> nat" where
  "dispatch_key ve =
     (case ve of (verified, e) \<Rightarrow>
        (2 - priority_rank (voe_priority e), if verified then 0 else 1,
         unat (voe_enqueued_at e), unat (voe_envelope_id e)))"

definition sort_for_dispatch ::
  "sha256_fun \<Rightarrow> vdf_ordered_entry list \<Rightarrow> vdf_params \<Rightarrow> bytes \<Rightarrow> vdf_ordered_entry list option" where
  "sort_for_dispatch sha entries params epoch_seed =
     (case rank_entries sha params epoch_seed entries of
        None \<Rightarrow> None
      | Some ranked \<Rightarrow> Some (map snd (sort_key dispatch_key ranked)))"

end
