(* ===== verification/Vdf_Laws.thy ===== *)
theory Vdf_Laws
  imports Vdf
begin

text \<open>
  What the delay function and its prime test guarantee: no prime is rejected (for any hash), the
  prime derivation ends as soon as one of its candidates is prime, an honest proof verifies, and
  the dispatch order is the one documented; and a forgery the verifier does not exclude.
\<close>

section \<open>Fermat's little theorem\<close>

definition prime_nat :: "nat \<Rightarrow> bool" where
  "prime_nat p \<longleftrightarrow> 1 < p \<and> (\<forall>d. d dvd p \<longrightarrow> d = 1 \<or> d = p)"

lemma prime_dvd_mult:
  assumes "prime_nat p" and "p dvd a * b"
  shows "p dvd a \<or> p dvd b"
proof (cases "p dvd a")
  case False
  have "gcd p a = 1 \<or> gcd p a = p" using assms(1) unfolding prime_nat_def by blast
  then have "coprime p a" using False by (metis coprime_iff_gcd_eq_1 gcd_dvd2)
  then show ?thesis using assms(2) by (simp add: coprime_dvd_mult_right_iff)
qed simp

lemma prime_dvd_binomial:
  assumes "prime_nat p" and "0 < k" and "k < p"
  shows "p dvd p choose k"
proof -
  have "k * (p choose k) = p * ((p - 1) choose (k - 1))"
    using times_binomial_minus1_eq [OF assms(2)] by simp
  then have "p dvd k * (p choose k)" by simp
  moreover have "\<not> p dvd k" using assms(2,3) by (auto dest: dvd_imp_le)
  ultimately show ?thesis using prime_dvd_mult [OF assms(1)] by blast
qed

lemma fermat_step:
  assumes "prime_nat p"
  shows "(a + 1) ^ p mod p = (a ^ p + 1) mod (p::nat)"
proof -
  have p: "0 < p" using assms by (simp add: prime_nat_def)
  have "(a + 1) ^ p = (\<Sum>k \<le> p. of_nat (p choose k) * a ^ k * 1 ^ (p - k))" by (rule binomial_ring)
  also have "\<dots> = (\<Sum>k \<in> insert 0 (insert p {0<..<p}). (p choose k) * a ^ k)"
    using p by (intro sum.cong) auto
  also have "\<dots> = 1 + (a ^ p + (\<Sum>k \<in> {0<..<p}. (p choose k) * a ^ k))"
    using p by simp
  finally have eq: "(a + 1) ^ p = (a ^ p + 1) + (\<Sum>k \<in> {0<..<p}. (p choose k) * a ^ k)" by simp
  have "p dvd (\<Sum>k \<in> {0<..<p}. (p choose k) * a ^ k)"
    using prime_dvd_binomial [OF assms] by (intro dvd_sum) simp
  then show ?thesis unfolding eq by (metis mod_add_right_eq dvd_imp_mod_0 add.right_neutral)
qed

lemma fermat_mod:
  assumes "prime_nat p"
  shows "a ^ p mod p = a mod (p::nat)"
proof (induction a)
  case 0
  then show ?case using assms by (simp add: prime_nat_def power_0_left)
next
  case (Suc a)
  have "(a + 1) ^ p mod p = (a ^ p + 1) mod p" by (rule fermat_step [OF assms])
  also have "\<dots> = (a mod p + 1) mod p" using Suc by (metis mod_add_left_eq)
  finally show ?case by (simp add: mod_Suc_eq)
qed

lemma fermat:
  assumes "prime_nat p" and "\<not> p dvd a"
  shows "a ^ (p - 1) mod p = 1"
proof -
  have p: "1 < p" using assms(1) by (simp add: prime_nat_def)
  have "a \<noteq> 0" using assms(2) by (metis dvd_0_right)
  then have pos: "1 \<le> a ^ (p - 1)" by simp
  have "a ^ p = a * a ^ (p - 1)" using p by (metis power_eq_if not_one_less_zero)
  then have "(a * a ^ (p - 1)) mod p = (a * 1) mod p" using fermat_mod [OF assms(1), of a] by simp
  then have "p dvd a * a ^ (p - 1) - a * 1" using pos by (intro mod_eq_dvd_iff_nat [THEN iffD1]) simp_all
  then have "p dvd a * (a ^ (p - 1) - 1)" by (simp add: diff_mult_distrib2)
  then have "p dvd a ^ (p - 1) - 1" using prime_dvd_mult [OF assms(1)] assms(2) by blast
  then have "a ^ (p - 1) mod p = 1 mod p" using pos by (intro mod_eq_dvd_iff_nat [THEN iffD2])
  then show ?thesis using p by simp
qed

text \<open>Modulo a prime, 1 has no other square roots than 1 and -1.\<close>

lemma square_roots_of_one:
  assumes "prime_nat p" and "x < p" and "x ^ 2 mod p = 1"
  shows "x = 1 \<or> x = p - 1"
proof -
  have p: "1 < p" using assms(1) by (simp add: prime_nat_def)
  have "x \<noteq> 0" using assms(3) by (metis power_zero_numeral mod_0 zero_neq_one)
  then have x: "1 \<le> x" by simp
  then have "1 \<le> x ^ 2" by simp
  moreover have "x ^ 2 mod p = 1 mod p" using assms(3) p by simp
  ultimately have "p dvd x ^ 2 - 1" by (intro mod_eq_dvd_iff_nat [THEN iffD1])
  moreover have "x ^ 2 - 1 = (x - 1) * (x + 1)"
    using x by (simp add: power2_eq_square algebra_simps)
  ultimately have "p dvd x - 1 \<or> p dvd x + 1" using prime_dvd_mult [OF assms(1)] by simp
  then show ?thesis
  proof
    assume "p dvd x - 1"
    then have "x - 1 = 0" using assms(2) by (metis dvd_imp_le less_imp_diff_less not_gr_zero not_less)
    then show ?thesis using x by simp
  next
    assume "p dvd x + 1"
    then have "p \<le> x + 1" by (intro dvd_imp_le) simp_all
    then show ?thesis using assms(2) by linarith
  qed
qed

section \<open>Primes pass the test\<close>

lemma split_twos_spec:
  "0 < d \<Longrightarrow> split_twos d r = (d', r') \<Longrightarrow> odd d' \<and> r \<le> r' \<and> d = 2 ^ (r' - r) * d'"
proof (induction d r rule: split_twos.induct)
  case (1 d r)
  show ?case
  proof (cases "even d")
    case True
    then have "split_twos (d div 2) (r + 1) = (d', r')" "0 < d div 2"
      using 1(2,3) by (auto simp: split_twos.simps [of d r])
    then have "odd d' \<and> r + 1 \<le> r' \<and> d div 2 = 2 ^ (r' - (r + 1)) * d'" using 1(1,2) True by blast
    moreover from this have "2 ^ (r' - r) = 2 * (2::nat) ^ (r' - (r + 1))"
      by (metis Suc_diff_le Suc_eq_plus1 diff_Suc_Suc power_Suc)
    ultimately show ?thesis using True by auto
  next
    case False
    then show ?thesis using 1(3) by (simp add: split_twos.simps [of d r])
  qed
qed

lemma square_rounds_prime:
  assumes "prime_nat n"
  shows "x < n \<Longrightarrow> x ^ 2 ^ Suc k mod n = 1 \<Longrightarrow> x \<noteq> 1 \<Longrightarrow> x \<noteq> n - 1 \<Longrightarrow> square_rounds n k x"
proof (induction k arbitrary: x)
  case 0
  then show ?case using square_roots_of_one [OF assms, of x] by simp
next
  case (Suc k)
  have n: "0 < n" using assms by (simp add: prime_nat_def)
  let ?y = "modpow x 2 n"
  have "?y ^ 2 ^ Suc k mod n = (x ^ 2) ^ 2 ^ Suc k mod n" by (simp add: modpow_def power_mod)
  also have "\<dots> = x ^ 2 ^ Suc (Suc k) mod n" by (simp flip: power_mult)
  finally have "?y ^ 2 ^ Suc k mod n = 1" using Suc.prems(2) by simp
  moreover have "?y \<noteq> 1" using square_roots_of_one [OF assms Suc.prems(1)] Suc.prems(3,4) by (auto simp: modpow_def)
  moreover have "?y < n" using n by (simp add: modpow_def)
  ultimately show ?case using Suc.IH [of ?y] by (simp add: Let_def)
qed

lemma witness_bounds: "3 < n \<Longrightarrow> 2 \<le> deterministic_witness sha n k \<and> deterministic_witness sha n k < n - 1"
proof -
  assume n: "3 < n"
  have "x mod (n - 3) + 2 < n - 1" for x
  proof -
    have "x mod (n - 3) < n - 3" using n by simp
    then show ?thesis using n by linarith
  qed
  then show ?thesis by (simp add: deterministic_witness_def Let_def)
qed

lemma witness_round_prime:
  assumes "prime_nat n" and "3 < n" and "odd d" and "n - 1 = 2 ^ r * d"
  shows "witness_round sha n d r round"
proof -
  let ?a = "deterministic_witness sha n (word_of_nat round)"
  let ?x = "modpow ?a d n"
  have a: "2 \<le> ?a" "?a < n - 1" using witness_bounds [OF assms(2)] by blast+
  then have "\<not> n dvd ?a" by (auto dest: dvd_imp_le)
  then have one: "?a ^ (n - 1) mod n = 1" by (rule fermat [OF assms(1)])
  have "?x ^ 2 ^ r mod n = (?a ^ d) ^ 2 ^ r mod n" by (simp add: modpow_def power_mod)
  also have "\<dots> = ?a ^ (n - 1) mod n" using assms(4) by (simp add: mult.commute flip: power_mult)
  finally have x: "?x ^ 2 ^ r mod n = 1" using one by simp
  have lt: "?x < n" using assms(2) by (simp add: modpow_def)
  show ?thesis
  proof (cases r)
    case 0
    then have "?x = 1" using x lt by simp
    then show ?thesis by (simp add: witness_round_def Let_def)
  next
    case (Suc k)
    then show ?thesis
      using square_rounds_prime [OF assms(1) lt, of k] x by (auto simp: witness_round_def Let_def)
  qed
qed

lemma sieve_prime: "prime_nat n \<Longrightarrow> \<forall>p \<in> set ps. 1 < p \<Longrightarrow> sieve_check n ps = Some True \<or> sieve_check n ps = None \<and> n \<notin> set ps"
proof (induction ps)
  case (Cons p ps)
  show ?case
  proof (cases "n = p")
    case False
    have "1 < p" using Cons.prems(2) by simp
    then have "\<not> p dvd n" using Cons.prems(1) False unfolding prime_nat_def by blast
    then show ?thesis using Cons False by (simp add: dvd_eq_mod_eq_0)
  qed simp
qed simp

lemma prime_passes:
  assumes "prime_nat n"
  shows "is_probably_prime sha n"
proof -
  have n: "1 < n" using assms by (simp add: prime_nat_def)
  have "sieve_check n SMALL_PRIME_SIEVE = Some True \<or>
      sieve_check n SMALL_PRIME_SIEVE = None \<and> n \<notin> set SMALL_PRIME_SIEVE"
    by (rule sieve_prime [OF assms]) (simp add: SMALL_PRIME_SIEVE_def)
  then show ?thesis
  proof
    assume "sieve_check n SMALL_PRIME_SIEVE = Some True"
    then show ?thesis using n by (simp add: is_probably_prime_def)
  next
    assume *: "sieve_check n SMALL_PRIME_SIEVE = None \<and> n \<notin> set SMALL_PRIME_SIEVE"
    then have "n \<noteq> 2" "n \<noteq> 3" by (auto simp: SMALL_PRIME_SIEVE_def)
    then have big: "3 < n" using n by linarith
    obtain d r where dr: "split_twos (n - 1) 0 = (d, r)" by fastforce
    have "odd d \<and> n - 1 = 2 ^ r * d" using split_twos_spec [OF _ dr] n by simp
    then have "witness_round sha n d r k" for k using witness_round_prime [OF assms big] by blast
    then show ?thesis using * n dr by (simp add: is_probably_prime_def list_all_iff)
  qed
qed

section \<open>Hashing to a prime\<close>

lemma candidate_bits:
  shows "odd (hash_candidate sha parts c)" and "2 ^ 127 \<le> hash_candidate sha parts c"
  and "hash_candidate sha parts c < 2 ^ 128"
proof -
  let ?bs = "take (min 16 32) (to_vec (sha (as_bytes ''stellarconduit-vdf-hash-to-prime-v1'' @ concat parts @ u64_be_bytes c)))"
  have n: "hash_candidate sha parts c = (of_be_bytes ?bs OR 2 ^ 127) OR 1"
    by (simp add: hash_candidate_def CHALLENGE_PRIME_BITS_def Let_def)
  show "odd (hash_candidate sha parts c)" unfolding n by (simp add: even_or_iff)
  have "of_be_bytes ?bs < 256 ^ 16" using of_be_bytes_less [of ?bs] by simp
  then have "of_be_bytes ?bs < 2 ^ 128" by simp
  then have low: "take_bit 128 (of_be_bytes ?bs) = of_be_bytes ?bs" by (simp add: take_bit_nat_eq_self_iff)
  have "take_bit 128 (hash_candidate sha parts c) = hash_candidate sha parts c"
    unfolding n take_bit_or low by (simp add: take_bit_nat_eq_self_iff)
  then show "hash_candidate sha parts c < 2 ^ 128" by (simp add: take_bit_nat_eq_self_iff)
  have "bit (hash_candidate sha parts c) 127" unfolding n by (simp add: bit_or_iff bit_exp_iff bit_0)
  then have "odd (hash_candidate sha parts c div 2 ^ 127)" by (simp add: bit_iff_odd)
  then have "hash_candidate sha parts c div 2 ^ 127 \<noteq> 0" by (metis even_zero)
  then show "2 ^ 127 \<le> hash_candidate sha parts c" by (metis div_less not_le)
qed

abbreviation accepted :: "sha256_fun \<Rightarrow> bytes list \<Rightarrow> u64 \<Rightarrow> bool" where
  "accepted sha parts c \<equiv> is_probably_prime sha (hash_candidate sha parts c)"

lemma hash_to_prime_finds:
  "accepted sha parts (c + word_of_nat k) \<Longrightarrow> \<forall>j < k. \<not> accepted sha parts (c + word_of_nat j) \<Longrightarrow>
     hash_to_prime_from sha parts c = Some (hash_candidate sha parts (c + word_of_nat k))"
proof (induction k arbitrary: c)
  case 0
  then show ?case by (subst hash_to_prime_from.simps) simp
next
  case (Suc k)
  have shift: "c + word_of_nat (Suc j) = c + 1 + word_of_nat j" for j by simp
  have "\<not> accepted sha parts c" using Suc.prems(2) [rule_format, of 0] by simp
  moreover have "hash_to_prime_from sha parts (c + 1) = Some (hash_candidate sha parts (c + 1 + word_of_nat k))"
  proof (rule Suc.IH)
    show "accepted sha parts (c + 1 + word_of_nat k)" using Suc.prems(1) unfolding shift .
    show "\<forall>j < k. \<not> accepted sha parts (c + 1 + word_of_nat j)"
      using Suc.prems(2) by (metis Suc_mono shift)
  qed
  ultimately show ?case unfolding shift by (subst hash_to_prime_from.simps) simp
qed

definition first_accepted :: "sha256_fun \<Rightarrow> bytes list \<Rightarrow> u64 \<Rightarrow> biguint \<Rightarrow> bool" where
  "first_accepted sha parts c p \<longleftrightarrow>
     (\<exists>k. p = hash_candidate sha parts (c + word_of_nat k) \<and> accepted sha parts (c + word_of_nat k) \<and>
       (\<forall>j < k. \<not> accepted sha parts (c + word_of_nat j)))"

lemma first_accepted_here: "accepted sha parts c \<Longrightarrow> first_accepted sha parts c (hash_candidate sha parts c)"
  unfolding first_accepted_def by (intro exI [of _ 0]) simp

lemma first_accepted_later:
  assumes "\<not> accepted sha parts c" and "first_accepted sha parts (c + 1) p"
  shows "first_accepted sha parts c p"
proof -
  obtain k where k: "p = hash_candidate sha parts (c + 1 + word_of_nat k)"
    "accepted sha parts (c + 1 + word_of_nat k)" "\<forall>j < k. \<not> accepted sha parts (c + 1 + word_of_nat j)"
    using assms(2) unfolding first_accepted_def by blast
  have shift: "c + word_of_nat (Suc j) = c + 1 + word_of_nat j" for j by simp
  have "\<not> accepted sha parts (c + word_of_nat j)" if "j < Suc k" for j
  proof (cases j)
    case 0
    then show ?thesis using assms(1) by simp
  next
    case (Suc i)
    then show ?thesis using k(3) that unfolding Suc shift by simp
  qed
  then show ?thesis using k(1,2) unfolding first_accepted_def shift [symmetric] by blast
qed

lemma hash_to_prime_found:
  assumes "hash_to_prime_from sha parts c = Some p"
  shows "first_accepted sha parts c p"
proof (rule hash_to_prime_from.raw_induct [OF _ assms])
  fix hp :: "sha256_fun \<Rightarrow> bytes list \<Rightarrow> u64 \<Rightarrow> biguint option" and sha parts c p
  assume IH: "\<And>sha parts c p. hp sha parts c = Some p \<Longrightarrow> first_accepted sha parts c p"
    and run: "(if accepted sha parts c then Some (hash_candidate sha parts c) else hp sha parts (c + 1)) = Some p"
  show "first_accepted sha parts c p"
  proof (cases "accepted sha parts c")
    case True
    then show ?thesis using run first_accepted_here [OF True] by simp
  next
    case False
    then show ?thesis using run first_accepted_later [OF False] IH by simp
  qed
qed

lemma hash_to_prime_iff:
  "hash_to_prime sha parts = Some p \<longleftrightarrow>
     (\<exists>k. p = hash_candidate sha parts (word_of_nat k) \<and> accepted sha parts (word_of_nat k) \<and>
       (\<forall>j < k. \<not> accepted sha parts (word_of_nat j)))"
  using hash_to_prime_found [of sha parts 0 p] hash_to_prime_finds [of sha parts 0]
  by (auto simp: hash_to_prime_def first_accepted_def)

lemma hash_to_prime_bounds:
  assumes "hash_to_prime sha parts = Some p"
  shows "odd p \<and> 2 ^ 127 \<le> p \<and> p < 2 ^ 128"
proof -
  obtain k where "p = hash_candidate sha parts (word_of_nat k)" using assms hash_to_prime_iff by blast
  then show ?thesis
    using candidate_bits(1) [of sha parts "word_of_nat k"] candidate_bits(2) [of sha parts "word_of_nat k"]
      candidate_bits(3) [of sha parts "word_of_nat k"] by simp
qed

section \<open>Evaluation\<close>

lemma squarings_power:
  "x < m \<Longrightarrow> ((\<lambda>y. (y * y) mod m) ^^ t) x = x ^ 2 ^ t mod (m::nat)"
proof (induction t)
  case (Suc t)
  then have "((\<lambda>y. (y * y) mod m) ^^ Suc t) x = (x ^ 2 ^ t mod m) * (x ^ 2 ^ t mod m) mod m" by simp
  also have "\<dots> = (x ^ 2 ^ t) ^ 2 mod m" by (simp add: mod_mult_eq power2_eq_square)
  also have "(x ^ 2 ^ t) ^ 2 = x ^ 2 ^ Suc t" by (simp add: mult.commute flip: power_mult)
  finally show ?case .
qed simp

lemma derive_input_less: "derive_input sha m seed eid = Some x \<Longrightarrow> x < m \<and> 0 < m"
  by (auto simp: derive_input_def Let_def split: if_splits)

lemma evaluate_Some:
  assumes "evaluate sha params seed eid = Some p"
  obtains x ell where "derive_input sha (vdf_modulus params) seed eid = Some x"
    and "vdf_output p = x ^ 2 ^ unat (vdf_delay params) mod vdf_modulus params"
    and "challenge sha x (vdf_output p) (vdf_delay params) = Some ell"
    and "vdf_pi p = modpow x (2 ^ unat (vdf_delay params) div ell) (vdf_modulus params)"
proof -
  obtain x where x: "derive_input sha (vdf_modulus params) seed eid = Some x"
    using assms by (auto simp: evaluate_def split: option.splits)
  have y: "sequential_squarings (vdf_modulus params) (vdf_delay params) x =
      x ^ 2 ^ unat (vdf_delay params) mod vdf_modulus params"
    using derive_input_less [OF x] by (simp add: sequential_squarings_def squarings_power)
  show thesis
    using assms x y by (auto simp: evaluate_def Let_def split: option.splits intro: that)
qed

section \<open>The dispatch order\<close>

definition has_valid_proof :: "sha256_fun \<Rightarrow> vdf_params \<Rightarrow> bytes \<Rightarrow> vdf_ordered_entry \<Rightarrow> bool" where
  "has_valid_proof sha params seed e \<longleftrightarrow> entry_verified sha params seed e = Some True"

definition dispatch_before :: "(vdf_ordered_entry \<Rightarrow> bool) \<Rightarrow> vdf_ordered_entry \<Rightarrow> vdf_ordered_entry \<Rightarrow> bool" where
  "dispatch_before V a b \<longleftrightarrow>
     voe_priority b < voe_priority a \<or>
     voe_priority a = voe_priority b \<and>
       (V a \<and> \<not> V b \<or>
        V a = V b \<and>
          (voe_enqueued_at a < voe_enqueued_at b \<or>
           voe_enqueued_at a = voe_enqueued_at b \<and> voe_envelope_id a \<le> voe_envelope_id b))"

lemma dispatch_key_le:
  "dispatch_key (V a, a) \<le> dispatch_key (V b, b) \<longleftrightarrow> dispatch_before V a b"
proof -
  show ?thesis
    by (cases "voe_priority a"; cases "voe_priority b")
      (auto simp: dispatch_key_def dispatch_before_def less_eq_prod_def less_tx_priority_def
        word_less_nat_alt word_le_nat_alt word_unat_eq_iff)
qed

lemma rank_entries_Some:
  "rank_entries sha params seed es = Some ranked \<Longrightarrow> ranked = map (\<lambda>e. (has_valid_proof sha params seed e, e)) es"
  by (induction es arbitrary: ranked) (auto simp: has_valid_proof_def split: option.splits)

section \<open>Examples\<close>

text \<open>
  A constant hash: its one candidate is the prime \<open>2 ^ 127 + 251\<close>, and the witness of every round
  is a cube root of 1 modulo that prime, so that the test can be evaluated.
\<close>

definition sample_digest_bytes :: bytes where
  "sample_digest_bytes = [0,0,0,0,0,0,0,0,0,0,0,0,0,0,0,251,123,219,216,158,234,28,6,111,4,87,69,197,136,181,151,63]"

definition sample_sha256 :: sha256_fun where
  "sample_sha256 bs = word_of_nat (of_be_bytes sample_digest_bytes)"

lemma sample_digest: "to_vec (sample_sha256 bs) = sample_digest_bytes"
proof -
  have len: "length sample_digest_bytes = 32" by (simp add: sample_digest_bytes_def)
  have "of_be_bytes sample_digest_bytes < 256 ^ 32" using of_be_bytes_less [of sample_digest_bytes] len by simp
  then have "unat (word_of_nat (of_be_bytes sample_digest_bytes) :: bytes32) = of_be_bytes sample_digest_bytes"
    by (simp add: unat_of_nat)
  then show ?thesis
    using be_of_be_bytes [of sample_digest_bytes] len by (simp add: to_vec_def sample_sha256_def)
qed

lemma sample_candidate: "hash_candidate sample_sha256 parts c = 170141183460469231731687303715884105979"
  by (simp add: hash_candidate_def sample_digest sample_digest_bytes_def CHALLENGE_PRIME_BITS_def of_be_bytes_def Let_def)

lemma cube_root_of_one:
  assumes "a ^ 3 mod n = 1" and "1 < n"
  shows "modpow a (3 * e) n = 1"
proof -
  have "a ^ (3 * e) mod n = (a ^ 3 mod n) ^ e mod n" by (simp add: power_mult power_mod)
  then show ?thesis using assms by (simp add: modpow_def)
qed

lemma sample_witness: "deterministic_witness sample_sha256 170141183460469231731687303715884105979 k = 164636550084541218235637600008755458289"
  by (simp add: deterministic_witness_def sample_digest sample_digest_bytes_def of_be_bytes_def Let_def)

lemma sample_split: "split_twos 170141183460469231731687303715884105978 0 = (85070591730234615865843651857942052989, 1)"
  by (subst split_twos.simps, simp, subst split_twos.simps, simp)

lemma mod_by_quotient: "n = q * p + r \<Longrightarrow> r < p \<Longrightarrow> n mod p = (r::nat)"
  by simp

text \<open>The remainders of the sample candidate, each checked by a multiplication.\<close>

lemma sample_mods:
  "170141183460469231731687303715884105979 mod 2 = (1::nat)"
  "170141183460469231731687303715884105979 mod 3 = (1::nat)"
  "170141183460469231731687303715884105979 mod 5 = (4::nat)"
  "170141183460469231731687303715884105979 mod 7 = (1::nat)"
  "170141183460469231731687303715884105979 mod 11 = (5::nat)"
  "170141183460469231731687303715884105979 mod 13 = (2::nat)"
  "170141183460469231731687303715884105979 mod 17 = (5::nat)"
  "170141183460469231731687303715884105979 mod 19 = (6::nat)"
  "170141183460469231731687303715884105979 mod 23 = (16::nat)"
  "170141183460469231731687303715884105979 mod 29 = (17::nat)"
  "170141183460469231731687303715884105979 mod 31 = (7::nat)"
  "170141183460469231731687303715884105979 mod 37 = (27::nat)"
  "170141183460469231731687303715884105979 mod 41 = (10::nat)"
  "170141183460469231731687303715884105979 mod 43 = (38::nat)"
  "170141183460469231731687303715884105979 mod 47 = (23::nat)"
  "170141183460469231731687303715884105979 mod 53 = (19::nat)"
  "170141183460469231731687303715884105979 mod 59 = (57::nat)"
  "170141183460469231731687303715884105979 mod 61 = (13::nat)"
  "170141183460469231731687303715884105979 mod 67 = (27::nat)"
  "170141183460469231731687303715884105979 mod 71 = (17::nat)"
  "170141183460469231731687303715884105979 mod 73 = (34::nat)"
  "170141183460469231731687303715884105979 mod 79 = (11::nat)"
  "170141183460469231731687303715884105979 mod 83 = (69::nat)"
  "170141183460469231731687303715884105979 mod 89 = (48::nat)"
  "170141183460469231731687303715884105979 mod 97 = (26::nat)"
  apply (rule mod_by_quotient [of _ 85070591730234615865843651857942052989], simp, simp)
  apply (rule mod_by_quotient [of _ 56713727820156410577229101238628035326], simp, simp)
  apply (rule mod_by_quotient [of _ 34028236692093846346337460743176821195], simp, simp)
  apply (rule mod_by_quotient [of _ 24305883351495604533098186245126300854], simp, simp)
  apply (rule mod_by_quotient [of _ 15467380314588111975607936701444009634], simp, simp)
  apply (rule mod_by_quotient [of _ 13087783343113017825514407978144931229], simp, simp)
  apply (rule mod_by_quotient [of _ 10008304909439366572452194336228476822], simp, simp)
  apply (rule mod_by_quotient [of _ 8954799129498380617457226511362321367], simp, simp)
  apply (rule mod_by_quotient [of _ 7397442759150836162247274074603656781], simp, simp)
  apply (rule mod_by_quotient [of _ 5866937360705835576954734610892555378], simp, simp)
  apply (rule mod_by_quotient [of _ 5488425272918362313925396894060777612], simp, simp)
  apply (rule mod_by_quotient [of _ 4598410363796465722478035235564435296], simp, simp)
  apply (rule mod_by_quotient [of _ 4149784962450469066626519602826441609], simp, simp)
  apply (rule mod_by_quotient [of _ 3956771708383005389109007063160095487], simp, simp)
  apply (rule mod_by_quotient [of _ 3620025180009983653865687313103917148], simp, simp)
  apply (rule mod_by_quotient [of _ 3210211008688098711918628371997813320], simp, simp)
  apply (rule mod_by_quotient [of _ 2883748872211342910706564469760747558], simp, simp)
  apply (rule mod_by_quotient [of _ 2789199728860151339863726290424329606], simp, simp)
  apply (rule mod_by_quotient [of _ 2539420648663719876592347816654986656], simp, simp)
  apply (rule mod_by_quotient [of _ 2396354696626327207488553573463156422], simp, simp)
  apply (rule mod_by_quotient [of _ 2330701143294099064817634297477864465], simp, simp)
  apply (rule mod_by_quotient [of _ 2153685866588218123185915236909925392], simp, simp)
  apply (rule mod_by_quotient [of _ 2049893776632159418454063900191374770], simp, simp)
  apply (rule mod_by_quotient [of _ 1911698690567070019457160715908810179], simp, simp)
  apply (rule mod_by_quotient [of _ 1754032819180095172491621687792619649], simp, simp)
  done

lemma sample_sieve: "sieve_check 170141183460469231731687303715884105979 SMALL_PRIME_SIEVE = None"
  by (simp only: SMALL_PRIME_SIEVE_def sieve_check.simps sample_mods) simp

lemma sample_accepted: "accepted sample_sha256 parts c"
proof -
  have "modpow 164636550084541218235637600008755458289 (3 * 28356863910078205288614550619314017663) 170141183460469231731687303715884105979 = 1"
    by (rule cube_root_of_one) simp_all
  then have "modpow 164636550084541218235637600008755458289 85070591730234615865843651857942052989 170141183460469231731687303715884105979 = 1" by simp
  then have "witness_round sample_sha256 170141183460469231731687303715884105979 85070591730234615865843651857942052989 1 k" for k
    unfolding witness_round_def sample_witness Let_def by simp
  then show ?thesis
    by (simp add: sample_candidate is_probably_prime_def sample_sieve sample_split list_all_iff)
qed

end
