(* ===== verification/Vdf_Properties.thy ===== *)
theory Vdf_Properties
  imports Vdf_Laws
begin

text \<open>
  The prime test and the prime derivation, the completeness of the delay function's proofs, what
  the verifier fails to exclude, and the dispatch order.
\<close>

section \<open>The prime test\<close>

lemma prime_nat_code: "prime_nat n \<longleftrightarrow> 1 < n \<and> (\<forall>d \<in> set [2..<n]. \<not> d dvd n)"
proof
  assume "prime_nat n"
  then show "1 < n \<and> (\<forall>d \<in> set [2..<n]. \<not> d dvd n)" unfolding prime_nat_def by fastforce
next
  assume *: "1 < n \<and> (\<forall>d \<in> set [2..<n]. \<not> d dvd n)"
  have "d = 1 \<or> d = n" if "d dvd n" for d
  proof -
    have "d \<le> n" "d \<noteq> 0" using that * by (auto dest: dvd_imp_le intro!: gr0I)
    moreover have "d \<notin> set [2..<n]" using * that by blast
    ultimately show ?thesis by auto
  qed
  then show "prime_nat n" using * unfolding prime_nat_def by blast
qed

lemma sieve_all_prime: "\<forall>p \<in> set SMALL_PRIME_SIEVE. prime_nat p"
  unfolding SMALL_PRIME_SIEVE_def prime_nat_code by code_simp

lemma sieve_covers: "\<forall>d \<in> set [2..<101]. \<exists>p \<in> set SMALL_PRIME_SIEVE. p dvd d"
  unfolding SMALL_PRIME_SIEVE_def by code_simp

lemma sieve_rejects:
  "p \<in> set ps \<Longrightarrow> p dvd n \<Longrightarrow> n \<notin> set ps \<Longrightarrow> sieve_check n ps = Some False"
  by (induction ps) (auto simp: dvd_eq_mod_eq_0)

lemma sieve_sound:
  assumes "is_probably_prime sha n" and "p \<in> set SMALL_PRIME_SIEVE" and "p dvd n"
  shows "n = p"
proof (cases "n \<in> set SMALL_PRIME_SIEVE")
  case True
  then have "p = 1 \<or> p = n" using sieve_all_prime assms(3) unfolding prime_nat_def by blast
  moreover have "1 < p" using sieve_all_prime assms(2) unfolding prime_nat_def by blast
  ultimately show ?thesis by simp
next
  case False
  have "sieve_check n SMALL_PRIME_SIEVE = Some False" by (rule sieve_rejects [OF assms(2,3) False])
  then show ?thesis using assms(1) by (simp add: is_probably_prime_def split: if_splits)
qed

lemma small_divisor:
  assumes "\<not> prime_nat n" and "1 < n" and "n < 101 * 101"
  obtains d where "d dvd n" and "d < n" and "2 \<le> d" and "d < 101"
proof -
  obtain d where d: "d dvd n" "2 \<le> d" "d < n" using assms(1,2) unfolding prime_nat_code by auto
  obtain e where n: "n = d * e" using d(1) by (elim dvdE)
  have e: "e dvd n" "2 \<le> e" "e < n" using d(2,3) n by (auto simp: dvd_def intro: ccontr)
  have "d < 101 \<or> e < 101"
  proof (rule ccontr)
    assume "\<not> (d < 101 \<or> e < 101)"
    then have "101 * 101 \<le> d * e" by (intro mult_le_mono) simp_all
    then show False using assms(3) n by simp
  qed
  then show thesis using d e that by blast
qed

lemma test_exact_below:
  assumes "n < 10201"
  shows "is_probably_prime sha n \<longleftrightarrow> prime_nat n"
proof
  assume acc: "is_probably_prime sha n"
  show "prime_nat n"
  proof (rule ccontr)
    assume "\<not> prime_nat n"
    moreover have "1 < n" using acc by (simp add: is_probably_prime_def split: if_splits)
    ultimately obtain d where d: "d dvd n" "d < n" "2 \<le> d" "d < 101"
      using assms by (auto elim: small_divisor)
    have "d \<in> set [2..<101]" using d(3,4) by (simp only: set_upt atLeastLessThan_iff)
    then obtain p where p: "p \<in> set SMALL_PRIME_SIEVE" "p dvd d" using sieve_covers by blast
    have "n = p" by (rule sieve_sound [OF acc p(1) dvd_trans [OF p(2) d(1)]])
    moreover have "p \<le> d" using p(2) d(3) by (intro dvd_imp_le) simp_all
    ultimately show False using d(2) by simp
  qed
qed (rule prime_passes)

text \<open>
  C33. Whatever the hash makes of the witnesses, the Miller-Rabin test accepts every prime, it
  accepts no other multiple of a sieve prime, and below \<open>101 * 101\<close> it is exact.
\<close>

theorem primality_test:
  "(prime_nat n \<longrightarrow> is_probably_prime sha n) \<and>
   (is_probably_prime sha n \<longrightarrow> (\<forall>p \<in> set SMALL_PRIME_SIEVE. p dvd n \<longrightarrow> n = p)) \<and>
   (n < 10201 \<longrightarrow> (is_probably_prime sha n \<longleftrightarrow> prime_nat n))"
  using prime_passes [of n sha] sieve_sound [of sha n] test_exact_below [of n sha] by blast

theorem primality_test_witness:
  "is_probably_prime sample_sha256 103 \<and> \<not> is_probably_prime sample_sha256 91"
proof
  have "prime_nat 103" unfolding prime_nat_code by code_simp
  then show "is_probably_prime sample_sha256 103" using primality_test [of 103 sample_sha256] by blast
  have "\<not> prime_nat 91" unfolding prime_nat_code by code_simp
  moreover have "(91::nat) < 10201" by simp
  ultimately show "\<not> is_probably_prime sample_sha256 91" using primality_test [of 91 sample_sha256] by blast
qed

section \<open>Deriving the challenge prime\<close>

lemma biguint_bits_exact: "2 ^ k \<le> n \<Longrightarrow> n < 2 ^ Suc k \<Longrightarrow> biguint_bits n = Suc k"
proof (induction k arbitrary: n)
  case 0
  then have "n = 1" by simp
  then show ?case by (simp add: biguint_bits.simps)
next
  case (Suc k)
  have "2 ^ k \<le> n div 2" "n div 2 < 2 ^ Suc k" "n \<noteq> 0" using Suc.prems by auto
  then show ?case using Suc.IH [of "n div 2"] by (subst biguint_bits.simps) simp
qed

text \<open>
  C32. The search for a challenge prime ends if any counter gives a candidate the test accepts - in
  particular a prime one - and then with the first such candidate, an odd number of exactly 128
  bits; and it ends only then.
\<close>

theorem hash_to_prime_terminates:
  assumes "accepted sha parts (word_of_nat k) \<or> prime_nat (hash_candidate sha parts (word_of_nat k))"
  shows "\<exists>j \<le> k. hash_to_prime sha parts = Some (hash_candidate sha parts (word_of_nat j)) \<and>
    accepted sha parts (word_of_nat j) \<and> (\<forall>i < j. \<not> accepted sha parts (word_of_nat i)) \<and>
    odd (hash_candidate sha parts (word_of_nat j)) \<and>
    biguint_bits (hash_candidate sha parts (word_of_nat j)) = CHALLENGE_PRIME_BITS"
proof -
  let ?P = "\<lambda>j. accepted sha parts (word_of_nat j)"
  have k: "?P k" using assms prime_passes by blast
  define j where "j = (LEAST j. ?P j)"
  have j: "?P j" unfolding j_def by (rule LeastI [of ?P, OF k])
  have le: "j \<le> k" unfolding j_def by (rule Least_le [of ?P, OF k])
  have first: "\<forall>i < j. \<not> ?P i" unfolding j_def using not_less_Least by blast
  have found: "hash_to_prime sha parts = Some (hash_candidate sha parts (word_of_nat j))"
    unfolding hash_to_prime_iff using j first by blast
  then have bounds: "odd (hash_candidate sha parts (word_of_nat j))"
      "2 ^ 127 \<le> hash_candidate sha parts (word_of_nat j)" "hash_candidate sha parts (word_of_nat j) < 2 ^ Suc 127"
    using hash_to_prime_bounds [OF found] by simp_all
  have "biguint_bits (hash_candidate sha parts (word_of_nat j)) = CHALLENGE_PRIME_BITS"
    using biguint_bits_exact [OF bounds(2,3)] by (simp add: CHALLENGE_PRIME_BITS_def)
  then show ?thesis using le j first found bounds(1) by blast
qed

theorem hash_to_prime_terminates_witness:
  "hash_to_prime sample_sha256 [[1, 2], [3]] = Some 170141183460469231731687303715884105979"
  using hash_to_prime_terminates [of sample_sha256 "[[1, 2], [3]]" 0] sample_accepted [of "[[1, 2], [3]]" 0]
  by (simp add: sample_candidate)

section \<open>Proofs of the delay\<close>

lemma wesolowski_identity:
  "(modpow (modpow x (t div ell) m) ell m * modpow x (t mod ell) m) mod m = x ^ t mod m"
proof -
  have "(modpow (modpow x (t div ell) m) ell m * modpow x (t mod ell) m) mod m =
      ((x ^ (t div ell)) ^ ell * x ^ (t mod ell)) mod m"
    by (simp add: modpow_def power_mod mod_mult_eq)
  also have "(x ^ (t div ell)) ^ ell * x ^ (t mod ell) = x ^ (t div ell * ell + t mod ell)"
    by (simp only: power_add power_mult)
  finally show ?thesis by (simp only: div_mult_mod_eq)
qed

text \<open>
  C31. Completeness: what an honest evaluation returns is the delayed power \<open>x ^ (2 ^ T)\<close> of the
  input bound to the epoch seed and the envelope, and the verifier accepts it.
\<close>

theorem verify_evaluate:
  assumes "evaluate sha params epoch_seed envelope_id = Some p"
  shows "(\<exists>x. derive_input sha (vdf_modulus params) epoch_seed envelope_id = Some x \<and>
      vdf_output p = x ^ 2 ^ unat (vdf_delay params) mod vdf_modulus params) \<and>
    verify sha params epoch_seed envelope_id p = Some True"
proof -
  obtain x ell where x: "derive_input sha (vdf_modulus params) epoch_seed envelope_id = Some x"
    and y: "vdf_output p = x ^ 2 ^ unat (vdf_delay params) mod vdf_modulus params"
    and ell: "challenge sha x (vdf_output p) (vdf_delay params) = Some ell"
    and pi: "vdf_pi p = modpow x (2 ^ unat (vdf_delay params) div ell) (vdf_modulus params)"
    using evaluate_Some [OF assms] by blast
  have r: "modpow 2 (unat (vdf_delay params)) ell = 2 ^ unat (vdf_delay params) mod ell"
    by (simp add: modpow_def)
  have "verify sha params epoch_seed envelope_id p = Some True"
    using wesolowski_identity [of x "2 ^ unat (vdf_delay params)" ell "vdf_modulus params"]
    unfolding verify_def x option.case ell Let_def r pi unfolding y by simp
  then show ?thesis using x y by blast
qed

lemma sample_hash_to_prime: "hash_to_prime sample_sha256 parts = Some 170141183460469231731687303715884105979"
  using sample_accepted [of parts 0] unfolding hash_to_prime_iff
  by (intro exI [of _ 0]) (simp add: sample_candidate)

lemma derive_input_total: "0 < m \<Longrightarrow> \<exists>x. derive_input sha m epoch_seed envelope_id = Some x"
  by (simp add: derive_input_def Let_def)

theorem verify_evaluate_witness:
  "\<exists>p. evaluate sample_sha256 \<lparr>vdf_modulus = 7, vdf_delay = 3\<rparr> [1] [2] = Some p \<and>
     verify sample_sha256 \<lparr>vdf_modulus = 7, vdf_delay = 3\<rparr> [1] [2] p = Some True"
proof -
  obtain x where "derive_input sample_sha256 7 [1] [2] = Some x" using derive_input_total [of 7 sample_sha256 "[1]" "[2]"] by auto
  then obtain p where p: "evaluate sample_sha256 \<lparr>vdf_modulus = 7, vdf_delay = 3\<rparr> [1] [2] = Some p"
    by (simp add: evaluate_def challenge_def sample_hash_to_prime Let_def)
  show ?thesis using verify_evaluate [OF p] p by blast
qed

text \<open>
  Forgery: the verifier checks neither that the output is a unit nor that it was computed, so
  whenever it returns at all it accepts the pair of zeros, for every envelope, epoch seed and
  delay, without a single squaring having been done.
\<close>

theorem verify_accepts_zero_proof:
  assumes "derive_input sha (vdf_modulus params) epoch_seed envelope_id = Some x"
    and "challenge sha x 0 (vdf_delay params) = Some ell"
  shows "verify sha params epoch_seed envelope_id \<lparr>vdf_output = 0, vdf_pi = 0\<rparr> = Some True"
proof -
  have "0 < ell" using hash_to_prime_bounds [of sha _ ell] assms(2) unfolding challenge_def
    by (metis even_zero gr0I)
  then have "modpow 0 ell (vdf_modulus params) = 0" by (simp add: modpow_def power_0_left)
  then show ?thesis using assms by (simp add: verify_def Let_def)
qed

theorem verify_accepts_zero_proof_witness:
  "verify sample_sha256 \<lparr>vdf_modulus = 7, vdf_delay = 1000000\<rparr> [1] [2] \<lparr>vdf_output = 0, vdf_pi = 0\<rparr> = Some True"
proof -
  obtain x where "derive_input sample_sha256 7 [1] [2] = Some x" using derive_input_total [of 7 sample_sha256 "[1]" "[2]"] by auto
  then show ?thesis
    by (intro verify_accepts_zero_proof) (simp_all add: challenge_def sample_hash_to_prime)
qed

section \<open>The dispatch order\<close>

lemma sorted_dispatch_key:
  "sorted (map dispatch_key vs) \<Longrightarrow> \<forall>ve \<in> set vs. fst ve = V (snd ve) \<Longrightarrow> sorted_wrt (dispatch_before V) (map snd vs)"
proof (induction vs)
  case (Cons ve vs)
  have "dispatch_before V (snd ve) (snd w)" if "w \<in> set vs" for w
  proof -
    have "dispatch_key ve \<le> dispatch_key w" using Cons.prems(1) that by simp
    moreover have "ve = (V (snd ve), snd ve)" "w = (V (snd w), snd w)"
      using Cons.prems(2) that by (simp_all add: prod_eq_iff)
    ultimately show ?thesis using dispatch_key_le by metis
  qed
  then show ?case using Cons by simp
qed simp

lemma rank_entries_total:
  "\<forall>e \<in> set es. entry_verified sha params epoch_seed e \<noteq> None \<Longrightarrow> \<exists>rs. rank_entries sha params epoch_seed es = Some rs"
  by (induction es) (auto split: option.splits)

text \<open>
  When every proof can be checked the sort returns, and what it returns is a permutation of
  the entries in the documented order: priority first, then valid proofs before the others, then
  age and id.  In particular, without a proof anywhere it is the priority-then-age order of the
  outbound queue.
\<close>

theorem sort_for_dispatch_exact:
  assumes "\<forall>e \<in> set entries. entry_verified sha params epoch_seed e \<noteq> None"
  shows "\<exists>result. sort_for_dispatch sha entries params epoch_seed = Some result \<and>
    mset result = mset entries \<and>
    sorted_wrt (dispatch_before (has_valid_proof sha params epoch_seed)) result \<and>
    ((\<forall>e \<in> set entries. voe_proof e = None) \<longrightarrow> sorted_wrt (dispatch_before (\<lambda>_. False)) result)"
proof -
  let ?V = "has_valid_proof sha params epoch_seed"
  obtain rs where rs: "rank_entries sha params epoch_seed entries = Some rs"
    using rank_entries_total [OF assms] by blast
  have ranked: "rs = map (\<lambda>e. (?V e, e)) entries" by (rule rank_entries_Some [OF rs])
  let ?r = "map snd (sort_key dispatch_key rs)"
  have "sorted_wrt (dispatch_before ?V) ?r"
    by (rule sorted_dispatch_key) (auto simp: ranked)
  moreover have perm: "mset ?r = mset entries" by (simp add: ranked image_mset.compositionality comp_def)
  moreover have "sorted_wrt (dispatch_before (\<lambda>_. False)) ?r" if none: "\<forall>e \<in> set entries. voe_proof e = None"
    by (rule sorted_dispatch_key) (use none in \<open>auto simp: ranked has_valid_proof_def entry_verified_def\<close>)
  ultimately show ?thesis using rs by (auto simp: sort_for_dispatch_def)
qed

definition sample_entries :: "vdf_ordered_entry list" where
  "sample_entries =
     [\<lparr>voe_envelope_id = 1, voe_priority = Normal, voe_enqueued_at = 5, voe_proof = None\<rparr>,
      \<lparr>voe_envelope_id = 2, voe_priority = Emergency, voe_enqueued_at = 9, voe_proof = None\<rparr>]"

theorem sort_for_dispatch_exact_witness:
  "\<exists>result. sort_for_dispatch sample_sha256 sample_entries \<lparr>vdf_modulus = 7, vdf_delay = 3\<rparr> [1] = Some result \<and>
     mset result = mset sample_entries"
proof -
  have "\<forall>e \<in> set sample_entries. entry_verified sample_sha256 \<lparr>vdf_modulus = 7, vdf_delay = 3\<rparr> [1] e \<noteq> None"
    by (simp add: sample_entries_def entry_verified_def del: not_None_eq)
  from sort_for_dispatch_exact [OF this] show ?thesis by blast
qed

end
