(* ===== verification/Vdf_Params.thy ===== *)
theory Vdf_Params
  imports Vdf_Properties
begin

text \<open>
  Generating the parameters of the delay function: when the search for the two primes ends, and
  with what.
\<close>

section \<open>The draws of a random source\<close>

definition source_after :: "'g gen_biguint \<Rightarrow> u64 \<Rightarrow> nat \<Rightarrow> 'g \<Rightarrow> 'g" where
  "source_after draw bits k g = ((\<lambda>g. snd (draw g bits)) ^^ k) g"

definition candidate :: "'g gen_biguint \<Rightarrow> u64 \<Rightarrow> 'g \<Rightarrow> nat \<Rightarrow> biguint" where
  "candidate draw bits g k = (fst (draw (source_after draw bits k g) bits) OR 2 ^ (unat bits - 1)) OR 1"

abbreviation accepted_draw :: "sha256_fun \<Rightarrow> 'g gen_biguint \<Rightarrow> u64 \<Rightarrow> 'g \<Rightarrow> nat \<Rightarrow> bool" where
  "accepted_draw sha draw bits g k \<equiv> is_probably_prime sha (candidate draw bits g k)"

lemma source_after_0 [simp]: "source_after draw bits 0 g = g"
  by (simp add: source_after_def)

lemma source_after_add: "source_after draw bits k (source_after draw bits j g) = source_after draw bits (j + k) g"
  by (simp add: source_after_def funpow_add add.commute [of j])

lemma source_after_Suc: "source_after draw bits (Suc k) g = snd (draw (source_after draw bits k g) bits)"
  by (simp add: source_after_def)

lemma candidate_shift: "candidate draw bits (source_after draw bits j g) k = candidate draw bits g (j + k)"
  by (simp add: candidate_def source_after_add)

lemma candidate_size:
  assumes "0 < bits" and "\<forall>g. fst (draw g bits) < 2 ^ unat bits"
  shows "odd (candidate draw bits g k)" and "biguint_bits (candidate draw bits g k) = unat bits"
proof -
  let ?c = "candidate draw bits g k" and ?d = "fst (draw (source_after draw bits k g) bits)"
  obtain n where n: "unat bits = Suc n" using assms(1) by (metis gr0_implies_Suc unat_gt_0 word_gt_0)
  have c: "?c = (?d OR 2 ^ n) OR 1" by (simp add: candidate_def n)
  show "odd ?c" unfolding c by (simp add: even_or_iff)
  have "take_bit (Suc n) ?d = ?d" using assms(2) n by (metis take_bit_nat_eq_self_iff)
  moreover have "take_bit (Suc n) (2 ^ n :: nat) = 2 ^ n" "take_bit (Suc n) (1 :: nat) = 1"
    by (simp_all add: take_bit_nat_eq_self_iff)
  ultimately have "take_bit (Suc n) ?c = ?c"
    unfolding c take_bit_or by (simp only:)
  then have high: "?c < 2 ^ Suc n" by (simp only: take_bit_nat_eq_self_iff)
  have "bit ?c n" unfolding c by (simp add: bit_or_iff bit_exp_iff)
  then have "odd (?c div 2 ^ n)" by (simp add: bit_iff_odd)
  then have "?c div 2 ^ n \<noteq> 0" by (metis even_zero)
  then have "2 ^ n \<le> ?c" by (metis div_less not_le)
  from biguint_bits_exact [OF this high] show "biguint_bits ?c = unat bits" by (simp add: n)
qed

section \<open>The searches\<close>

lemma generate_prime_first:
  assumes "0 < bits"
  shows "accepted_draw sha draw bits g k \<Longrightarrow> \<forall>j < k. \<not> accepted_draw sha draw bits g j \<Longrightarrow>
    generate_prime sha draw g bits = Some (candidate draw bits g k, source_after draw bits (Suc k) g)"
proof (induction k arbitrary: g)
  case 0
  then show ?case
    using assms by (subst generate_prime.simps) (simp add: candidate_def source_after_Suc Let_def word_gt_0)
next
  case (Suc k)
  define g1 where "g1 = source_after draw bits 1 g"
  have next1: "candidate draw bits g1 j = candidate draw bits g (Suc j)" for j
    using candidate_shift [of draw bits 1 g j] by (simp add: g1_def)
  have "generate_prime sha draw g1 bits = Some (candidate draw bits g1 k, source_after draw bits (Suc k) g1)"
    by (rule Suc.IH) (use Suc.prems in \<open>auto simp: next1\<close>)
  then have rest: "generate_prime sha draw g1 bits = Some (candidate draw bits g (Suc k), source_after draw bits (Suc (Suc k)) g)"
    using source_after_add [of draw bits "Suc k" 1 g] unfolding next1 by (simp add: g1_def)
  have "\<not> accepted_draw sha draw bits g 0" using Suc.prems(2) by blast
  moreover have "g1 = snd (draw g bits)" using source_after_Suc [of draw bits 0 g] by (simp add: g1_def)
  ultimately show ?case
    using assms rest by (subst generate_prime.simps) (simp add: candidate_def Let_def word_gt_0)
qed

lemma generate_prime_from:
  assumes "0 < bits" and "accepted_draw sha draw bits g m" and "n \<le> m"
  obtains k where "n \<le> k" and "k \<le> m" and "accepted_draw sha draw bits g k"
    and "\<forall>j. n \<le> j \<and> j < k \<longrightarrow> \<not> accepted_draw sha draw bits g j"
    and "generate_prime sha draw (source_after draw bits n g) bits =
      Some (candidate draw bits g k, source_after draw bits (Suc k) g)"
proof -
  let ?P = "\<lambda>i. accepted_draw sha draw bits g (n + i)"
  have m: "?P (m - n)" using assms(2,3) by simp
  define i where "i = (LEAST i. ?P i)"
  have i: "?P i" unfolding i_def by (rule LeastI [of ?P, OF m])
  have le: "i \<le> m - n" unfolding i_def by (rule Least_le [of ?P, OF m])
  have first: "\<forall>j < i. \<not> ?P j" unfolding i_def using not_less_Least by blast
  have "generate_prime sha draw (source_after draw bits n g) bits =
      Some (candidate draw bits (source_after draw bits n g) i, source_after draw bits (Suc i) (source_after draw bits n g))"
    by (rule generate_prime_first [OF assms(1)]) (use i first in \<open>simp_all add: candidate_shift\<close>)
  then have run: "generate_prime sha draw (source_after draw bits n g) bits =
      Some (candidate draw bits g (n + i), source_after draw bits (Suc (n + i)) g)"
    by (simp only: candidate_shift source_after_add add_Suc_right)
  have "\<not> accepted_draw sha draw bits g j" if "n \<le> j" "j < n + i" for j
    using first [rule_format, of "j - n"] that by simp
  then show thesis using that [of "n + i"] i le assms(3) run by simp
qed

text \<open>The loop that draws the second prime again while it equals the first.\<close>

lemma redraw_prime_ends:
  assumes "0 < bits" and "accepted_draw sha draw bits g m" and "candidate draw bits g m \<noteq> p"
  shows "n \<le> m \<Longrightarrow> accepted_draw sha draw bits g n \<Longrightarrow>
    \<exists>b. n \<le> b \<and> b \<le> m \<and> accepted_draw sha draw bits g b \<and> candidate draw bits g b \<noteq> p \<and>
      (\<forall>j. n \<le> j \<and> j < b \<and> accepted_draw sha draw bits g j \<longrightarrow> candidate draw bits g j = p) \<and>
      redraw_prime sha draw p (candidate draw bits g n) (source_after draw bits (Suc n) g) bits =
        Some (candidate draw bits g b, source_after draw bits (Suc b) g)"
proof (induction "m - n" arbitrary: n rule: less_induct)
  case less
  show ?case
  proof (cases "candidate draw bits g n = p")
    case False
    then show ?thesis using less.prems by (intro exI [of _ n]) (subst redraw_prime.simps, auto)
  next
    case True
    then have "Suc n \<le> m" using less.prems(1) assms(3) by (metis Suc_leI le_neq_implies_less)
    then obtain k where k: "Suc n \<le> k" "k \<le> m" "accepted_draw sha draw bits g k"
      "\<forall>j. Suc n \<le> j \<and> j < k \<longrightarrow> \<not> accepted_draw sha draw bits g j"
      "generate_prime sha draw (source_after draw bits (Suc n) g) bits =
        Some (candidate draw bits g k, source_after draw bits (Suc k) g)"
      by (rule generate_prime_from [OF assms(1,2)])
    have "m - k < m - n" using k(1,2) by simp
    note less.hyps [OF this k(2,3)]
    then obtain b where b: "k \<le> b" "b \<le> m" "accepted_draw sha draw bits g b" "candidate draw bits g b \<noteq> p"
      "\<forall>j. k \<le> j \<and> j < b \<and> accepted_draw sha draw bits g j \<longrightarrow> candidate draw bits g j = p"
      "redraw_prime sha draw p (candidate draw bits g k) (source_after draw bits (Suc k) g) bits =
        Some (candidate draw bits g b, source_after draw bits (Suc b) g)"
      by (elim exE conjE)
    have "redraw_prime sha draw p (candidate draw bits g n) (source_after draw bits (Suc n) g) bits =
        Some (candidate draw bits g b, source_after draw bits (Suc b) g)"
      using k(5) b(6) True by (subst redraw_prime.simps) simp
    moreover have "candidate draw bits g j = p" if "n \<le> j" "j < b" "accepted_draw sha draw bits g j" for j
      using that k(4) b(5) True by (metis Suc_leI le_neq_implies_less not_le)
    ultimately show ?thesis using b k(1) by (intro exI [of _ b]) auto
  qed
qed

text \<open>
  Generating parameters ends as soon as the random source yields two different accepted
  candidates: with the product of the first accepted candidate and the next accepted one that
  differs from it, both odd and of exactly the width asked for, and with the requested delay.
\<close>

theorem params_generate_terminates:
  assumes "0 < bits" and "\<forall>g. fst (draw g bits) < 2 ^ unat bits" and "i < j"
    and "accepted_draw sha draw bits g i" and "accepted_draw sha draw bits g j"
    and "candidate draw bits g i \<noteq> candidate draw bits g j"
  shows "\<exists>a b. a < b \<and> b \<le> j \<and> candidate draw bits g a \<noteq> candidate draw bits g b \<and>
    (\<forall>k < a. \<not> accepted_draw sha draw bits g k) \<and>
    (\<forall>k. a < k \<and> k < b \<and> accepted_draw sha draw bits g k \<longrightarrow> candidate draw bits g k = candidate draw bits g a) \<and>
    (\<forall>k \<in> {a, b}. accepted_draw sha draw bits g k \<and> odd (candidate draw bits g k) \<and>
       biguint_bits (candidate draw bits g k) = unat bits) \<and>
    params_generate sha draw g bits delay =
      Some (\<lparr>vdf_modulus = candidate draw bits g a * candidate draw bits g b, vdf_delay = delay\<rparr>,
            source_after draw bits (Suc b) g)"
proof -
  obtain a where a: "a \<le> i" "accepted_draw sha draw bits g a" "\<forall>k < a. \<not> accepted_draw sha draw bits g k"
    and p: "generate_prime sha draw g bits = Some (candidate draw bits g a, source_after draw bits (Suc a) g)"
    using generate_prime_from [OF assms(1,4), of 0] by auto
  let ?p = "candidate draw bits g a"
  obtain m where m: "Suc a \<le> m" "m \<le> j" "accepted_draw sha draw bits g m" "candidate draw bits g m \<noteq> ?p"
  proof (cases "candidate draw bits g i = ?p")
    case True
    then show thesis using that [of j] a(1) assms(3,5,6) by simp
  next
    case False
    then have "a \<noteq> i" by auto
    then show thesis using that [of i] a(1) assms(3,4) False by simp
  qed
  obtain n where n: "Suc a \<le> n" "n \<le> m" "accepted_draw sha draw bits g n"
      "\<forall>k. Suc a \<le> k \<and> k < n \<longrightarrow> \<not> accepted_draw sha draw bits g k"
    and q: "generate_prime sha draw (source_after draw bits (Suc a) g) bits =
      Some (candidate draw bits g n, source_after draw bits (Suc n) g)"
    by (rule generate_prime_from [OF assms(1) m(3,1)])
  obtain b where b: "n \<le> b" "b \<le> m" "accepted_draw sha draw bits g b" "candidate draw bits g b \<noteq> ?p"
    "\<forall>k. n \<le> k \<and> k < b \<and> accepted_draw sha draw bits g k \<longrightarrow> candidate draw bits g k = ?p"
    "redraw_prime sha draw ?p (candidate draw bits g n) (source_after draw bits (Suc n) g) bits =
      Some (candidate draw bits g b, source_after draw bits (Suc b) g)"
    using redraw_prime_ends [OF assms(1) m(3,4) n(2,3)] by blast
  have "params_generate sha draw g bits delay =
      Some (\<lparr>vdf_modulus = ?p * candidate draw bits g b, vdf_delay = delay\<rparr>, source_after draw bits (Suc b) g)"
    by (simp add: params_generate_def p q b(6))
  moreover have "candidate draw bits g k = ?p" if "a < k" "k < b" "accepted_draw sha draw bits g k" for k
    using that n(4) b(5) by (metis Suc_leI not_le)
  ultimately show ?thesis
    using a(2,3) b(1-4) n(1) m(2) candidate_size [of bits draw, OF assms(1,2)]
    by (intro exI [of _ a] exI [of _ b]) auto
qed

definition sample_draw :: "nat gen_biguint" where
  "sample_draw g bits = (if even g then 2 else 6, g + 1)"

lemma sample_candidates: "candidate sample_draw 7 0 0 = 67" "candidate sample_draw 7 0 1 = 71"
  by (simp_all add: candidate_def sample_draw_def source_after_def)

lemma sample_accepted_draws: "accepted_draw sample_sha256 sample_draw 7 0 0" "accepted_draw sample_sha256 sample_draw 7 0 1"
proof -
  have "prime_nat 67" "prime_nat 71" unfolding prime_nat_code by code_simp+
  then show "accepted_draw sample_sha256 sample_draw 7 0 0" "accepted_draw sample_sha256 sample_draw 7 0 1"
    unfolding sample_candidates by (simp_all only: prime_passes)
qed

theorem params_generate_terminates_witness:
  "\<exists>g'. params_generate sample_sha256 sample_draw 0 7 10 = Some (\<lparr>vdf_modulus = 67 * 71, vdf_delay = 10\<rparr>, g')"
proof -
  have draws: "\<forall>g. fst (sample_draw g 7) < 2 ^ unat (7 :: u64)" by (simp add: sample_draw_def)
  have "candidate sample_draw 7 0 0 \<noteq> candidate sample_draw 7 0 1" unfolding sample_candidates by simp
  from params_generate_terminates [OF _ draws _ sample_accepted_draws this, of 10]
  obtain a b where ab: "a < b" "b \<le> 1" and "params_generate sample_sha256 sample_draw 0 7 10 =
      Some (\<lparr>vdf_modulus = candidate sample_draw 7 0 a * candidate sample_draw 7 0 b, vdf_delay = 10\<rparr>,
        source_after sample_draw 7 (Suc b) 0)" by auto
  moreover have "a = 0" "b = 1" using ab by simp_all
  ultimately show ?thesis using sample_candidates by auto
qed

end
