(* ===== verification/Text_Laws.thy ===== *)
theory Text_Laws
  imports Prelude
begin

text \<open>
  Laws of rendered text, shared by the components that print: decimal numbers can be read back and
  end where the first character that is not a digit stands.
\<close>

section \<open>Pieces of text\<close>

definition newline :: string where "newline = [CHR 0x0A]"

definition show_bool :: "bool \<Rightarrow> string" where
  "show_bool b = (if b then ''true'' else ''false'')"

text \<open>\<open>[T]::join\<close>\<close>

definition intercalate :: "string \<Rightarrow> string list \<Rightarrow> string" where
  "intercalate sep parts = (case parts of [] \<Rightarrow> [] | p # ps \<Rightarrow> p @ concat (map (\<lambda>q. sep @ q) ps))"

section \<open>Decimal numbers\<close>

fun read_digits :: "nat \<Rightarrow> string \<Rightarrow> nat" where
  "read_digits n [] = n"
| "read_digits n (c # cs) = read_digits (10 * n + (of_char c - 48)) cs"

definition is_digit :: "char \<Rightarrow> bool" where
  "is_digit c \<longleftrightarrow> 48 \<le> (of_char c :: nat) \<and> (of_char c :: nat) \<le> 57"

lemma of_digit_char: "d < 10 \<Longrightarrow> (of_char (digit_char d) :: nat) = 48 + d"
  by (simp add: digit_char_def of_char_of)

lemma is_digit_char [simp]: "d < 10 \<Longrightarrow> is_digit (digit_char d)"
  by (simp add: is_digit_def of_digit_char)

lemma read_digits_append: "read_digits n (cs @ ds) = read_digits (read_digits n cs) ds"
  by (induction cs arbitrary: n) auto

lemma read_show_nat: "read_digits 0 (show_nat n) = n"
proof (induction n rule: show_nat.induct)
  case (1 n)
  then show ?case
    by (subst show_nat.simps) (auto simp: read_digits_append of_digit_char)
qed

lemma show_nat_digits: "list_all is_digit (show_nat n)"
proof (induction n rule: show_nat.induct)
  case (1 n)
  then show ?case by (subst show_nat.simps) auto
qed

lemma show_nat_nonempty [simp]: "show_nat n \<noteq> []"
  by (subst show_nat.simps) simp

lemma show_nat_inj [simp]: "show_nat m = show_nat n \<longleftrightarrow> m = n"
  by (metis read_show_nat)

text \<open>\<open>str::parse::<u64>\<close>: an optional plus sign and at least one digit, below the range.\<close>

definition parse_u64 :: "string \<Rightarrow> u64 option" where
  "parse_u64 s =
     (let ds = (case s of c # r \<Rightarrow> if c = CHR ''+'' then r else s | [] \<Rightarrow> s)
      in if ds = [] \<or> \<not> list_all is_digit ds then None
         else if read_digits 0 ds < 2 ^ 64 then Some (word_of_nat (read_digits 0 ds)) else None)"

lemma parse_show_u64 [simp]: "parse_u64 (show_u64 x) = Some x"
proof -
  have "show_u64 x \<noteq> []" "list_all is_digit (show_u64 x)" "read_digits 0 (show_u64 x) = unat x"
    using show_nat_digits read_show_nat by (simp_all add: show_u64_def)
  moreover from this have "(case show_u64 x of c # r \<Rightarrow> if c = CHR ''+'' then r else show_u64 x | [] \<Rightarrow> show_u64 x) = show_u64 x"
    by (auto simp: is_digit_def split: list.split)
  ultimately show ?thesis using unat_bound [of x] by (simp add: parse_u64_def)
qed

lemma show_u64_inj [simp]: "show_u64 x = show_u64 y \<longleftrightarrow> x = y"
  by (simp add: show_u64_def word_unat_eq_iff)

text \<open>The end of a run of characters is where the first other character stands.\<close>

lemma run_ends:
  assumes "xs @ a # r = ys @ b # s" and "list_all P xs" and "list_all P ys" and "\<not> P a" and "\<not> P b"
  shows "xs = ys \<and> a = b \<and> r = s"
proof -
  have "takeWhile P (xs @ a # r) = xs" "takeWhile P (ys @ b # s) = ys"
    using assms(2-5) by (simp_all add: list_all_iff takeWhile_tail)
  then have "xs = ys" using assms(1) by simp
  then show ?thesis using assms(1) by simp
qed

lemma show_u64_ends:
  "show_u64 x @ c # r = show_u64 y @ c # s \<Longrightarrow> \<not> is_digit c \<Longrightarrow> x = y \<and> r = s"
  using run_ends [of "show_u64 x" c r "show_u64 y" c s is_digit]
  by (simp add: show_u64_def show_nat_digits word_unat_eq_iff)

lemma minus_not_digit: "list_all is_digit cs \<Longrightarrow> cs \<noteq> CHR ''-'' # ds"
  by (auto simp: is_digit_def)

lemma show_int_inj [simp]: "show_int a = show_int b \<longleftrightarrow> a = b"
proof
  assume eq: "show_int a = show_int b"
  have "show_nat m \<noteq> CHR ''-'' # show_nat n" for m n
    using minus_not_digit [OF show_nat_digits] by blast
  then have "(a < 0) = (b < 0)" using eq by (auto simp: show_int_def split: if_splits) metis+
  then show "a = b" using eq by (auto simp: show_int_def split: if_splits)
qed simp

lemma show_i64_inj [simp]: "show_i64 x = show_i64 y \<longleftrightarrow> x = y"
  by (simp add: show_i64_def sint_i64_eq_iff)

end
