(* ===== verification/Metrics.thy ===== *)
theory Metrics
  imports Text_Laws
begin

text \<open>
  \<open>src/metrics.rs\<close>: the in-process counters with their exact Prometheus rendering, and the
  exporter that releases Laplace-noised counts, once per window and within a budget.

  An \<open>AtomicUsize\<close> is a 64-bit counter that wraps.  The arithmetic of \<open>f64\<close> is a parameter (the
  record of its operations, its literals and its six-digit rendering), and so is the uniform draw
  of the random generator; \<open>None\<close> is a sampling loop that never accepts a draw.  The mutex of the
  exporter serialises its calls, so a call is one step on \<open>dp_inner\<close>; the clock is an argument.
\<close>

section \<open>Counters\<close>

type_synonym counter = u64

record sync_engine_metrics =
  ctr_queued :: counter
  ctr_settled :: counter
  ctr_failed :: counter
  ctr_conflicts :: counter
  ctr_disputes :: counter
  ctr_evictions :: counter

record metrics_snapshot =
  ms_queued_total :: counter
  ms_settled_total :: counter
  ms_failed_total :: counter
  ms_conflicts_detected :: counter
  ms_disputes_escalated :: counter
  ms_queue_evictions :: counter

definition metrics_new :: sync_engine_metrics where
  "metrics_new = \<lparr>ctr_queued = 0, ctr_settled = 0, ctr_failed = 0, ctr_conflicts = 0,
     ctr_disputes = 0, ctr_evictions = 0\<rparr>"

definition snapshot :: "sync_engine_metrics \<Rightarrow> metrics_snapshot" where
  "snapshot m = \<lparr>ms_queued_total = ctr_queued m, ms_settled_total = ctr_settled m,
     ms_failed_total = ctr_failed m, ms_conflicts_detected = ctr_conflicts m,
     ms_disputes_escalated = ctr_disputes m, ms_queue_evictions = ctr_evictions m\<rparr>"

definition snapshot_and_reset :: "sync_engine_metrics \<Rightarrow> metrics_snapshot \<times> sync_engine_metrics" where
  "snapshot_and_reset m =
     (\<lparr>ms_queued_total = ctr_queued m, ms_settled_total = ctr_settled m,
       ms_failed_total = ctr_failed m, ms_conflicts_detected = ctr_conflicts m,
       ms_disputes_escalated = ctr_disputes m, ms_queue_evictions = ctr_evictions m\<rparr>,
      m\<lparr>ctr_queued := 0, ctr_settled := 0, ctr_failed := 0, ctr_conflicts := 0,
        ctr_disputes := 0, ctr_evictions := 0\<rparr>)"

definition record_queued :: "sync_engine_metrics \<Rightarrow> sync_engine_metrics" where
  "record_queued m = m\<lparr>ctr_queued := ctr_queued m + 1\<rparr>"

definition record_settled :: "sync_engine_metrics \<Rightarrow> sync_engine_metrics" where
  "record_settled m = m\<lparr>ctr_settled := ctr_settled m + 1\<rparr>"

definition record_failed :: "sync_engine_metrics \<Rightarrow> sync_engine_metrics" where
  "record_failed m = m\<lparr>ctr_failed := ctr_failed m + 1\<rparr>"

definition metrics_record_conflict :: "sync_engine_metrics \<Rightarrow> sync_engine_metrics" where
  "metrics_record_conflict m = m\<lparr>ctr_conflicts := ctr_conflicts m + 1\<rparr>"

definition record_dispute_escalated :: "sync_engine_metrics \<Rightarrow> sync_engine_metrics" where
  "record_dispute_escalated m = m\<lparr>ctr_disputes := ctr_disputes m + 1\<rparr>"

definition METRIC_COUNT :: nat where "METRIC_COUNT = 5"

definition lifetime_vec :: "sync_engine_metrics \<Rightarrow> counter list" where
  "lifetime_vec m = [ctr_queued m, ctr_settled m, ctr_failed m, ctr_conflicts m, ctr_disputes m]"

section \<open>The exact rendering\<close>

text \<open>The help line, the type line and the sample of one counter.\<close>

definition prometheus_counter :: "string \<Rightarrow> string \<Rightarrow> counter \<Rightarrow> string" where
  "prometheus_counter name help v =
     ''# HELP '' @ name @ '' '' @ help @ newline @
     ''# TYPE '' @ name @ '' counter'' @ newline @
     name @ '' '' @ show_u64 v @ newline"

definition to_prometheus_text :: "sync_engine_metrics \<Rightarrow> string" where
  "to_prometheus_text m =
     (let s = snapshot m in
      prometheus_counter ''stellarconduit_sync_queued_total''
        ''Total number of envelopes ever queued.'' (ms_queued_total s) @
      prometheus_counter ''stellarconduit_sync_settled_total''
        ''Total number of envelopes successfully settled on-chain.'' (ms_settled_total s) @
      prometheus_counter ''stellarconduit_sync_failed_total''
        ''Total number of envelopes that failed to settle.'' (ms_failed_total s) @
      prometheus_counter ''stellarconduit_sync_conflicts_detected_total''
        ''Total number of double-spend conflicts detected.'' (ms_conflicts_detected s) @
      prometheus_counter ''stellarconduit_sync_disputes_escalated_total''
        ''Total number of conflicts escalated to on-chain dispute resolver.'' (ms_disputes_escalated s) @
      prometheus_counter ''stellarconduit_sync_queue_evictions_total''
        ''Total number of envelopes evicted from queue due to staleness or TTL.'' (ms_queue_evictions s))"

section \<open>Floating point and sampling\<close>

record 'f f64_ops =
  f_lit :: "string \<Rightarrow> 'f"
  f_of_usize :: "counter \<Rightarrow> 'f"
  f_add :: "'f \<Rightarrow> 'f \<Rightarrow> 'f"
  f_sub :: "'f \<Rightarrow> 'f \<Rightarrow> 'f"
  f_mul :: "'f \<Rightarrow> 'f \<Rightarrow> 'f"
  f_div :: "'f \<Rightarrow> 'f \<Rightarrow> 'f"
  f_neg :: "'f \<Rightarrow> 'f"
  f_abs :: "'f \<Rightarrow> 'f"
  f_signum :: "'f \<Rightarrow> 'f"
  f_ln :: "'f \<Rightarrow> 'f"
  f_max :: "'f \<Rightarrow> 'f \<Rightarrow> 'f"
  f_eq :: "'f \<Rightarrow> 'f \<Rightarrow> bool"
  f_less :: "'f \<Rightarrow> 'f \<Rightarrow> bool"
  f_finite :: "'f \<Rightarrow> bool"
  f_show6 :: "'f \<Rightarrow> string"

definition L1_SENSITIVITY :: "'f f64_ops \<Rightarrow> 'f" where
  "L1_SENSITIVITY F = f_lit F ''1.0''"

definition laplace_scale :: "'f f64_ops \<Rightarrow> 'f \<Rightarrow> 'f" where
  "laplace_scale F epsilon = f_div F (L1_SENSITIVITY F) epsilon"

type_synonym ('f, 'g) gen_f64 = "'g \<Rightarrow> 'f \<times> 'g"

partial_function (option) sample_laplace ::
  "'f f64_ops \<Rightarrow> ('f, 'g) gen_f64 \<Rightarrow> 'f \<Rightarrow> 'g \<Rightarrow> ('f \<times> 'g) option" where
  "sample_laplace F gen scale g =
     (let u = f_sub F (fst (gen g)) (f_lit F ''0.5''); g1 = snd (gen g);
          one_minus_two_abs = f_sub F (f_lit F ''1.0'') (f_mul F (f_lit F ''2.0'') (f_abs F u))
      in if \<not> f_eq F u (f_lit F ''0.0'') \<and> f_less F (f_lit F ''0.0'') one_minus_two_abs
         then Some (f_mul F (f_mul F (f_neg F scale) (f_signum F u)) (f_ln F one_minus_two_abs), g1)
         else sample_laplace F gen scale g1)"

section \<open>Configuration\<close>

datatype dp_export_error =
    InvalidConfig string
  | BudgetExhausted (releases_done: u32) (max_releases: u32)

record 'f dp_export_config =
  dc_epsilon :: 'f
  dc_window :: duration
  dc_max_releases :: "u32 option"

definition moderate :: "'f f64_ops \<Rightarrow> 'f dp_export_config" where
  "moderate F = \<lparr>dc_epsilon = f_lit F ''1.0'', dc_window = from_secs 60, dc_max_releases = None\<rparr>"

definition strict :: "'f f64_ops \<Rightarrow> 'f dp_export_config" where
  "strict F = \<lparr>dc_epsilon = f_lit F ''0.1'', dc_window = from_secs 300, dc_max_releases = None\<rparr>"

definition relaxed :: "'f f64_ops \<Rightarrow> 'f dp_export_config" where
  "relaxed F = \<lparr>dc_epsilon = f_lit F ''2.0'', dc_window = from_secs 15, dc_max_releases = None\<rparr>"

text \<open>\<open>Duration < Duration::from_millis(1)\<close>, in the order of seconds and nanoseconds.\<close>

definition below_one_ms :: "duration \<Rightarrow> bool" where
  "below_one_ms d \<longleftrightarrow> dur_secs d = 0 \<and> dur_nanos d < 1000000"

definition config_validate :: "'f f64_ops \<Rightarrow> 'f dp_export_config \<Rightarrow> dp_export_error + unit" where
  "config_validate F cfg =
     (if \<not> (f_less F (f_lit F ''0.0'') (dc_epsilon cfg) \<and> f_finite F (dc_epsilon cfg))
      then Inl (InvalidConfig ''epsilon must be finite and strictly positive'')
      else if below_one_ms (dc_window cfg) then Inl (InvalidConfig ''window must be at least 1ms'')
      else if dc_max_releases cfg = Some 0 then Inl (InvalidConfig ''max_releases must be at least 1'')
      else Inr ())"

definition config_new :: "'f f64_ops \<Rightarrow> 'f \<Rightarrow> duration \<Rightarrow> dp_export_error + 'f dp_export_config" where
  "config_new F epsilon window =
     (let cfg = \<lparr>dc_epsilon = epsilon, dc_window = window, dc_max_releases = None\<rparr>
      in case config_validate F cfg of Inl e \<Rightarrow> Inl e | Inr _ \<Rightarrow> Inr cfg)"

definition with_max_releases :: "'f dp_export_config \<Rightarrow> u32 \<Rightarrow> dp_export_error + 'f dp_export_config" where
  "with_max_releases cfg cap =
     (if cap = 0 then Inl (InvalidConfig ''max_releases must be at least 1'')
      else Inr (cfg\<lparr>dc_max_releases := Some cap\<rparr>))"

text \<open>\<open>as_millis() as u64\<close>\<close>

definition window_ms :: "'f dp_export_config \<Rightarrow> u64" where
  "window_ms cfg = word_of_nat (unat (dur_secs (dc_window cfg)) * 1000 + unat (dur_nanos (dc_window cfg)) div 1000000)"

section \<open>The exporter\<close>

record 'f dp_snapshot =
  ds_queued :: 'f
  ds_settled :: 'f
  ds_failed :: 'f
  ds_conflicts_detected :: 'f
  ds_disputes_escalated :: 'f
  ds_epsilon :: 'f
  ds_releases_done :: u32
  ds_window :: duration

record ('f, 'g) dp_inner =
  di_rng :: 'g
  di_last_lifetime :: "counter list"
  di_cached :: "'f dp_snapshot option"
  di_window_start_ms :: u64
  di_releases_done :: u32

definition inner_new :: "'g \<Rightarrow> ('f, 'g) dp_inner" where
  "inner_new rng = \<lparr>di_rng = rng, di_last_lifetime = replicate METRIC_COUNT 0, di_cached = None,
     di_window_start_ms = 0, di_releases_done = 0\<rparr>"

record ('f, 'g) dp_exporter =
  dx_config :: "'f dp_export_config"
  dx_inner :: "('f, 'g) dp_inner"

definition exporter_new :: "'f f64_ops \<Rightarrow> 'f dp_export_config \<Rightarrow> 'g \<Rightarrow> dp_export_error + ('f, 'g) dp_exporter" where
  "exporter_new F config entropy =
     (case config_validate F config of
        Inl e \<Rightarrow> Inl e
      | Inr _ \<Rightarrow> Inr \<lparr>dx_config = config, dx_inner = inner_new entropy\<rparr>)"

definition u32_saturating_add :: "u32 \<Rightarrow> u32 \<Rightarrow> u32" where
  "u32_saturating_add a b = (if unat a + unat b < 2 ^ 32 then a + b else - 1)"

text \<open>The loop over the counters: the difference to the last release, noised and clamped.\<close>

fun noisy_counts ::
  "'f f64_ops \<Rightarrow> ('f, 'g) gen_f64 \<Rightarrow> 'f \<Rightarrow> (counter \<times> counter) list \<Rightarrow> 'g \<Rightarrow> ('f list \<times> 'g) option" where
  "noisy_counts F gen scale [] g = Some ([], g)"
| "noisy_counts F gen scale ((now_count, prev_count) # rest) g =
     (let delta = f_of_usize F (u64_saturating_sub now_count prev_count)
      in case sample_laplace F gen scale g of
           None \<Rightarrow> None
         | Some (noise, g1) \<Rightarrow>
             (case noisy_counts F gen scale rest g1 of
                None \<Rightarrow> None
              | Some (vs, g2) \<Rightarrow> Some (f_max F (f_add F delta noise) (f_lit F ''0.0'') # vs, g2)))"

definition new_release ::
  "'f f64_ops \<Rightarrow> ('f, 'g) gen_f64 \<Rightarrow> 'f dp_export_config \<Rightarrow> u64 \<Rightarrow> sync_engine_metrics \<Rightarrow>
     ('f, 'g) dp_inner \<Rightarrow> ('f dp_snapshot \<times> ('f, 'g) dp_inner) option" where
  "new_release F gen config now metrics inner =
     (let current = lifetime_vec metrics; last = di_last_lifetime inner;
          scale = laplace_scale F (dc_epsilon config)
      in case noisy_counts F gen scale (zip current last) (di_rng inner) of
           None \<Rightarrow> None
         | Some (noisy, g) \<Rightarrow>
             let inner1 = inner\<lparr>di_rng := g, di_last_lifetime := current,
                   di_releases_done := u32_saturating_add (di_releases_done inner) 1,
                   di_window_start_ms := now\<rparr>;
                 snap = \<lparr>ds_queued = noisy ! 0, ds_settled = noisy ! 1, ds_failed = noisy ! 2,
                   ds_conflicts_detected = noisy ! 3, ds_disputes_escalated = noisy ! 4,
                   ds_epsilon = dc_epsilon config, ds_releases_done = di_releases_done inner1,
                   ds_window = dc_window config\<rparr>
             in Some (snap, inner1\<lparr>di_cached := Some snap\<rparr>))"

definition dp_export ::
  "'f f64_ops \<Rightarrow> ('f, 'g) gen_f64 \<Rightarrow> u64 \<Rightarrow> sync_engine_metrics \<Rightarrow> ('f, 'g) dp_exporter \<Rightarrow>
     ((dp_export_error + 'f dp_snapshot) \<times> ('f, 'g) dp_exporter) option" where
  "dp_export F gen now metrics x =
     (let config = dx_config x; inner = dx_inner x;
          release = (case new_release F gen config now metrics inner of
                       None \<Rightarrow> None | Some (snap, inner1) \<Rightarrow> Some (Inr snap, x\<lparr>dx_inner := inner1\<rparr>))
      in case di_cached inner of
           None \<Rightarrow> release
         | Some snap \<Rightarrow>
             if u64_saturating_sub now (di_window_start_ms inner) < window_ms config then Some (Inr snap, x)
             else (case dc_max_releases config of
                     None \<Rightarrow> release
                   | Some cap \<Rightarrow>
                       if di_releases_done inner \<ge> cap
                       then Some (Inl (BudgetExhausted (di_releases_done inner) cap), x)
                       else release))"

section \<open>The noisy rendering\<close>

definition prometheus_gauge :: "string \<Rightarrow> string \<Rightarrow> string \<Rightarrow> string \<Rightarrow> string" where
  "prometheus_gauge name help eps v =
     ''# HELP '' @ name @ '' '' @ help @ newline @
     ''# TYPE '' @ name @ '' gauge'' @ newline @
     name @ ''{epsilon='' @ [CHR 0x22] @ eps @ [CHR 0x22] @ ''} '' @ v @ newline"

definition to_prometheus :: "'f f64_ops \<Rightarrow> 'f dp_snapshot \<Rightarrow> string" where
  "to_prometheus F s =
     (let eps = f_show6 F (ds_epsilon s) in
      prometheus_gauge ''stellarconduit_sync_queued_window''
        ''Queued envelopes in the current DP window (Laplace-noised)'' eps (f_show6 F (ds_queued s)) @
      prometheus_gauge ''stellarconduit_sync_settled_window''
        ''Settled envelopes in the current DP window (Laplace-noised)'' eps (f_show6 F (ds_settled s)) @
      prometheus_gauge ''stellarconduit_sync_failed_window''
        ''Failed envelopes in the current DP window (Laplace-noised)'' eps (f_show6 F (ds_failed s)) @
      prometheus_gauge ''stellarconduit_sync_conflicts_window''
        ''Conflicts detected in the current DP window (Laplace-noised)'' eps (f_show6 F (ds_conflicts_detected s)) @
      prometheus_gauge ''stellarconduit_sync_disputes_window''
        ''Disputes escalated in the current DP window (Laplace-noised)'' eps (f_show6 F (ds_disputes_escalated s)) @
      ''# HELP stellarconduit_sync_dp_releases_total Distinct DP window releases (budget spend)'' @ newline @
      ''# TYPE stellarconduit_sync_dp_releases_total counter'' @ newline @
      ''stellarconduit_sync_dp_releases_total '' @ show_nat (unat (ds_releases_done s)) @ newline)"

definition export_prometheus ::
  "'f f64_ops \<Rightarrow> ('f, 'g) gen_f64 \<Rightarrow> u64 \<Rightarrow> sync_engine_metrics \<Rightarrow> ('f, 'g) dp_exporter \<Rightarrow>
     ((dp_export_error + string) \<times> ('f, 'g) dp_exporter) option" where
  "export_prometheus F gen now metrics x =
     (case dp_export F gen now metrics x of
        None \<Rightarrow> None
      | Some (Inl e, x1) \<Rightarrow> Some (Inl e, x1)
      | Some (Inr s, x1) \<Rightarrow> Some (Inr (to_prometheus F s), x1))"

end
