(* ===== verification/Metrics_Properties.thy ===== *)
theory Metrics_Properties
  imports Metrics
begin

text \<open>
  The exporter's promises: a bounded number of distinct snapshots, no second noise draw inside a
  window, released values that are the counts of one window under noise that does not depend on
  them, so that one event moves one coordinate of one release; and the exactness of the
  plain rendering.
\<close>

section \<open>One scrape\<close>

lemma dp_export_cases:
  assumes "dp_export F gen now metrics x = Some (r, x')"
  obtains (cached) s where "di_cached (dx_inner x) = Some s" "r = Inr s" "x' = x"
      "u64_saturating_sub now (di_window_start_ms (dx_inner x)) < window_ms (dx_config x)"
  | (exhausted) s cap where "di_cached (dx_inner x) = Some s" "dc_max_releases (dx_config x) = Some cap"
      "cap \<le> di_releases_done (dx_inner x)" "r = Inl (BudgetExhausted (di_releases_done (dx_inner x)) cap)" "x' = x"
  | (released) s inner where "new_release F gen (dx_config x) now metrics (dx_inner x) = Some (s, inner)"
      "r = Inr s" "x' = x\<lparr>dx_inner := inner\<rparr>"
      "di_cached (dx_inner x) = None \<or> (\<forall>cap. dc_max_releases (dx_config x) = Some cap \<longrightarrow> di_releases_done (dx_inner x) < cap)"
proof (cases "di_cached (dx_inner x)")
  case None
  then show thesis using assms
    by (auto simp: dp_export_def Let_def split: option.splits intro: released)
next
  case (Some s)
  show thesis
  proof (cases "u64_saturating_sub now (di_window_start_ms (dx_inner x)) < window_ms (dx_config x)")
    case True
    then show thesis using assms Some by (auto simp: dp_export_def Let_def intro: cached)
  next
    case False
    note late = False
    show thesis
    proof (cases "\<exists>cap. dc_max_releases (dx_config x) = Some cap \<and> cap \<le> di_releases_done (dx_inner x)")
      case True
      then show thesis using assms Some late by (auto simp: dp_export_def Let_def intro: exhausted)
    next
      case False
      then have "\<forall>cap. dc_max_releases (dx_config x) = Some cap \<longrightarrow> di_releases_done (dx_inner x) < cap"
        by (auto simp: not_le)
      moreover obtain s1 inner where "new_release F gen (dx_config x) now metrics (dx_inner x) = Some (s1, inner)"
        "r = Inr s1" "x' = x\<lparr>dx_inner := inner\<rparr>"
        using assms Some late False unfolding dp_export_def Let_def
        by (cases "new_release F gen (dx_config x) now metrics (dx_inner x)")
          (auto split: option.splits)
      ultimately show thesis using released by blast
    qed
  qed
qed

lemma new_release_Some:
  assumes "new_release F gen config now metrics inner = Some (s, inner')"
  shows "di_cached inner' = Some s" and "ds_releases_done s = di_releases_done inner'"
    and "di_releases_done inner' = u32_saturating_add (di_releases_done inner) 1"
    and "di_window_start_ms inner' = now" and "di_last_lifetime inner' = lifetime_vec metrics"
  using assms by (auto simp: new_release_def Let_def split: option.splits prod.splits)

definition exporter_ok :: "('f, 'g) dp_exporter \<Rightarrow> bool" where
  "exporter_ok x \<longleftrightarrow>
     (case di_cached (dx_inner x) of
        None \<Rightarrow> di_releases_done (dx_inner x) = 0
      | Some s \<Rightarrow> ds_releases_done s = di_releases_done (dx_inner x) \<and> 1 \<le> di_releases_done (dx_inner x)) \<and>
     (\<forall>cap. dc_max_releases (dx_config x) = Some cap \<longrightarrow> 1 \<le> cap \<and> di_releases_done (dx_inner x) \<le> cap)"

lemma exporter_new_ok:
  assumes "exporter_new F config entropy = Inr x"
  shows "exporter_ok x \<and> dx_config x = config"
proof -
  have "config_validate F config = Inr ()" and x: "x = \<lparr>dx_config = config, dx_inner = inner_new entropy\<rparr>"
    using assms by (auto simp: exporter_new_def split: sum.splits)
  then have "dc_max_releases config \<noteq> Some 0" by (auto simp: config_validate_def split: if_splits)
  then have "\<forall>cap. dc_max_releases config = Some cap \<longrightarrow> 1 \<le> cap"
    by (auto simp: word_le_nat_alt Suc_le_eq unat_gt_0)
  then show ?thesis by (simp add: x exporter_ok_def inner_new_def)
qed

lemma u32_succ: "(n :: u32) < m \<Longrightarrow> u32_saturating_add n 1 = n + 1 \<and> n < n + 1 \<and> n + 1 \<le> m"
proof -
  assume "n < m"
  then have lt: "unat n + 1 < 2 ^ 32"
    using unat_bound [of m] by (simp add: word_less_nat_alt)
  then have "unat (n + 1) = unat n + 1" by (simp add: unat_word_ariths)
  then show ?thesis using lt \<open>n < m\<close>
    by (simp add: u32_saturating_add_def word_less_nat_alt word_le_nat_alt)
qed

section \<open>Runs of scrapes\<close>

fun scrape_run ::
  "'f f64_ops \<Rightarrow> ('f, 'g) gen_f64 \<Rightarrow> (u64 \<times> sync_engine_metrics) list \<Rightarrow> ('f, 'g) dp_exporter \<Rightarrow>
     ((dp_export_error + 'f dp_snapshot) list \<times> ('f, 'g) dp_exporter) option" where
  "scrape_run F gen [] x = Some ([], x)"
| "scrape_run F gen ((now, metrics) # scrapes) x =
     (case dp_export F gen now metrics x of
        None \<Rightarrow> None
      | Some (r, x1) \<Rightarrow>
          (case scrape_run F gen scrapes x1 of
             None \<Rightarrow> None | Some (rs, x2) \<Rightarrow> Some (r # rs, x2)))"

definition released_in :: "(dp_export_error + 'f dp_snapshot) list \<Rightarrow> 'f dp_snapshot set" where
  "released_in rs = {s. Inr s \<in> set rs}"

lemma released_in_simps [simp]:
  "released_in [] = {}" "released_in (Inl e # rs) = released_in rs" "released_in (Inr s # rs) = insert s (released_in rs)"
  by (auto simp: released_in_def)

text \<open>One step under a cap: an old snapshot, a refusal at the cap, or the next release number.\<close>

lemma dp_export_capped:
  assumes "dp_export F gen now metrics x = Some (r, x')" and "exporter_ok x"
    and "dc_max_releases (dx_config x) = Some cap"
  shows "exporter_ok x' \<and> dx_config x' = dx_config x \<and>
    (x' = x \<and> (\<exists>s. di_cached (dx_inner x) = Some s \<and> r = Inr s) \<or>
     x' = x \<and> r = Inl (BudgetExhausted cap cap) \<or>
     (\<exists>s. r = Inr s \<and> di_cached (dx_inner x') = Some s \<and>
       ds_releases_done s = di_releases_done (dx_inner x') \<and>
       di_releases_done (dx_inner x) < di_releases_done (dx_inner x')))"
  using assms(1)
proof (cases rule: dp_export_cases)
  case (cached s)
  then show ?thesis using assms(2) by simp
next
  case (exhausted s c)
  then show ?thesis using assms(2,3) by (auto simp: exporter_ok_def)
next
  case (released s inner)
  have lt: "di_releases_done (dx_inner x) < cap"
  proof (cases "di_cached (dx_inner x)")
    case None
    then show ?thesis using assms(2,3) by (auto simp: exporter_ok_def word_less_nat_alt word_le_nat_alt Suc_le_eq)
  next
    case (Some s)
    then show ?thesis using released(4) assms(3) by simp
  qed
  note rel = new_release_Some [OF released(1)]
  have "di_releases_done inner = di_releases_done (dx_inner x) + 1"
    "di_releases_done (dx_inner x) < di_releases_done inner" "di_releases_done inner \<le> cap"
    using u32_succ [OF lt] rel(3) by simp_all
  moreover from this have "1 \<le> di_releases_done inner" by (simp add: word_less_nat_alt word_le_nat_alt)
  ultimately show ?thesis using rel(1,2) released(2,3) assms(2,3) by (simp add: exporter_ok_def)
qed

lemma scrape_run_capped:
  "scrape_run F gen scrapes x = Some (rs, x') \<Longrightarrow> exporter_ok x \<Longrightarrow>
     dc_max_releases (dx_config x) = Some cap \<Longrightarrow>
     exporter_ok x' \<and> dc_max_releases (dx_config x') = Some cap \<and>
     di_releases_done (dx_inner x) \<le> di_releases_done (dx_inner x') \<and>
     (\<forall>e. Inl e \<in> set rs \<longrightarrow> e = BudgetExhausted cap cap) \<and>
     inj_on ds_releases_done (released_in rs) \<and>
     (\<forall>s \<in> released_in rs. ds_releases_done s \<le> di_releases_done (dx_inner x') \<and>
       (di_cached (dx_inner x) = Some s \<or> di_releases_done (dx_inner x) < ds_releases_done s))"
proof (induction scrapes arbitrary: x rs)
  case Nil
  then show ?case by simp
next
  case (Cons scrape scrapes)
  obtain now metrics where scrape: "scrape = (now, metrics)" by fastforce
  obtain r x1 rs1 where step: "dp_export F gen now metrics x = Some (r, x1)"
    and rest: "scrape_run F gen scrapes x1 = Some (rs1, x')" and rs: "rs = r # rs1"
    using Cons.prems(1) by (auto simp: scrape split: option.splits prod.splits)
  note st = dp_export_capped [OF step Cons.prems(2,3)]
  have cfg: "dc_max_releases (dx_config x1) = Some cap" using st Cons.prems(3) by simp
  note IH = Cons.IH [OF rest conjunct1 [OF st] cfg]
  from st consider (old) s where "x1 = x" "di_cached (dx_inner x) = Some s" "r = Inr s"
    | (refused) "x1 = x" "r = Inl (BudgetExhausted cap cap)"
    | (new) s where "r = Inr s" "di_cached (dx_inner x1) = Some s"
      "ds_releases_done s = di_releases_done (dx_inner x1)"
      "di_releases_done (dx_inner x) < di_releases_done (dx_inner x1)"
    by blast
  then show ?case
  proof cases
    case old
    then have num: "ds_releases_done s = di_releases_done (dx_inner x)"
      using Cons.prems(2) by (simp add: exporter_ok_def)
    have "inj_on ds_releases_done (insert s (released_in rs1))"
      using IH num old(1,2) by (fastforce simp: inj_on_insert)
    then show ?thesis using IH num old by (auto simp: rs)
  next
    case refused
    then show ?thesis using IH by (auto simp: rs)
  next
    case new
    have later: "t = s \<or> di_releases_done (dx_inner x1) < ds_releases_done t" if "t \<in> released_in rs1" for t
      using IH new(2) that by fastforce
    have inj: "inj_on ds_releases_done (insert s (released_in rs1))"
      using IH later new(3) by (fastforce simp: inj_on_insert)
    have above: "\<forall>t \<in> released_in rs. di_releases_done (dx_inner x) < ds_releases_done t"
      using later new(1,3,4) by (auto simp: rs dest!: later intro: order.strict_trans [OF new(4)])
    have "\<forall>t \<in> released_in rs. ds_releases_done t \<le> di_releases_done (dx_inner x')"
      using IH new(1,3) by (simp add: rs)
    moreover have "di_releases_done (dx_inner x) \<le> di_releases_done (dx_inner x')"
      using IH new(4) by (meson order.strict_implies_order order.trans)
    ultimately show ?thesis using IH inj above new(1) by (simp add: rs)
  qed
qed


section \<open>Totality of the example\<close>

lemma noisy_counts_total:
  "\<forall>scale g. sample_laplace F gen scale g \<noteq> None \<Longrightarrow> noisy_counts F gen scale cs g \<noteq> None"
proof (induction cs arbitrary: g)
  case (Cons c cs)
  obtain noise g1 where "sample_laplace F gen scale g = Some (noise, g1)" using Cons.prems by fastforce
  moreover obtain vs g2 where "noisy_counts F gen scale cs g1 = Some (vs, g2)" using Cons by fastforce
  ultimately show ?case by (cases c) (simp add: Let_def)
qed simp

lemma dp_export_total:
  assumes "\<forall>scale g. sample_laplace F gen scale g \<noteq> None"
  shows "dp_export F gen now metrics x \<noteq> None"
proof -
  have "new_release F gen (dx_config x) now metrics (dx_inner x) \<noteq> None"
    using noisy_counts_total [OF assms] by (auto simp: new_release_def Let_def split: option.splits)
  then show ?thesis by (auto simp: dp_export_def Let_def split: option.splits)
qed

lemma scrape_run_total:
  assumes "\<forall>scale g. sample_laplace F gen scale g \<noteq> None"
  shows "\<exists>rs x'. scrape_run F gen scrapes x = Some (rs, x')"
proof (induction scrapes arbitrary: x)
  case (Cons scrape scrapes)
  obtain now metrics where scrape: "scrape = (now, metrics)" by fastforce
  obtain r x1 where "dp_export F gen now metrics x = Some (r, x1)"
    using dp_export_total [OF assms, of now metrics x] by fastforce
  moreover obtain rs x2 where "scrape_run F gen scrapes x1 = Some (rs, x2)" using Cons by blast
  ultimately show ?case by (simp add: scrape)
qed simp

text \<open>An arithmetic in tenths, and a generator that always draws seven of them.\<close>

definition sample_f64 :: "int f64_ops" where
  "sample_f64 = \<lparr>f_lit = (\<lambda>s. if s = ''0.0'' then 0 else if s = ''0.5'' then 5 else if s = ''1.0'' then 10 else 20),
     f_of_usize = (\<lambda>n. 10 * uint n), f_add = (+), f_sub = (-), f_mul = (\<lambda>a b. a * b div 10),
     f_div = (\<lambda>a b. a * 10 div b), f_neg = uminus, f_abs = abs, f_signum = (\<lambda>a. 10 * sgn a),
     f_ln = (\<lambda>a. a - 10), f_max = max, f_eq = (=), f_less = (<), f_finite = (\<lambda>a. True), f_show6 = show_int\<rparr>"

definition sample_gen :: "(int, unit) gen_f64" where
  "sample_gen g = (7, g)"

lemma sample_draws: "\<forall>scale g. sample_laplace sample_f64 sample_gen scale g \<noteq> None"
  by (intro allI, subst sample_laplace.simps) (simp add: sample_f64_def sample_gen_def Let_def)

definition sample_config :: "u32 option \<Rightarrow> int dp_export_config" where
  "sample_config cap = \<lparr>dc_epsilon = 10, dc_window = from_secs 60, dc_max_releases = cap\<rparr>"

lemma sample_exporter:
  "cap \<noteq> Some 0 \<Longrightarrow>
     exporter_new sample_f64 (sample_config cap) () = Inr \<lparr>dx_config = sample_config cap, dx_inner = inner_new ()\<rparr>"
  by (simp add: exporter_new_def config_validate_def sample_config_def sample_f64_def from_secs_def below_one_ms_def)


section \<open>Inside a window\<close>

text \<open>
  No second draw: once a snapshot is cached, every scrape until its window is over returns
  that very snapshot and leaves the exporter, its random state included, as it is, whatever
  has happened to the counters in between.
\<close>

theorem dp_no_renoising:
  assumes "dp_export F gen start metrics x = Some (Inr s, x1)" and "x1 \<noteq> x"
    and "\<forall>(now, later) \<in> set scrapes. u64_saturating_sub now start < window_ms (dx_config x)"
  shows "scrape_run F gen scrapes x1 = Some (replicate (length scrapes) (Inr s), x1)"
  using assms(1)
proof (cases rule: dp_export_cases)
  case (released s1 inner)
  note rel = new_release_Some [OF released(1)]
  have "dp_export F gen now later x1 = Some (Inr s, x1)" if "(now, later) \<in> set scrapes" for now later
    using that assms(3) rel(1,4) released(2,3) by (auto simp: dp_export_def Let_def)
  then show ?thesis by (induction scrapes) auto
qed (use assms(2) in simp_all)

theorem dp_no_renoising_witness:
  "\<exists>s x1. dp_export sample_f64 sample_gen 0 metrics_new \<lparr>dx_config = sample_config None, dx_inner = inner_new ()\<rparr> = Some (Inr s, x1) \<and>
     scrape_run sample_f64 sample_gen [(15000, record_queued metrics_new), (30000, metrics_new)] x1 = Some ([Inr s, Inr s], x1)"
proof -
  let ?x = "\<lparr>dx_config = sample_config None, dx_inner = inner_new ()\<rparr>"
  obtain r x1 where run: "dp_export sample_f64 sample_gen 0 metrics_new ?x = Some (r, x1)"
    using dp_export_total [OF sample_draws] by (metis not_None_eq surj_pair)
  then obtain s where s: "r = Inr s" "di_cached (dx_inner x1) = Some s"
    by (cases rule: dp_export_cases) (auto simp: inner_new_def dest: new_release_Some)
  then have "x1 \<noteq> ?x" by (auto simp: inner_new_def)
  then have "scrape_run sample_f64 sample_gen [(15000, record_queued metrics_new), (30000, metrics_new)] x1 =
      Some (replicate (length [(15000 :: u64, record_queued metrics_new), (30000, metrics_new)]) (Inr s), x1)"
    using run s(1) by (intro dp_no_renoising)
      (auto simp: sample_config_def window_ms_def from_secs_def u64_saturating_sub_def)
  then show ?thesis using run s(1) by auto
qed

section \<open>The mechanism\<close>

datatype metric_event = EvQueued | EvSettled | EvFailed | EvConflict | EvDispute

fun apply_event :: "metric_event \<Rightarrow> sync_engine_metrics \<Rightarrow> sync_engine_metrics" where
  "apply_event EvQueued m = record_queued m"
| "apply_event EvSettled m = record_settled m"
| "apply_event EvFailed m = record_failed m"
| "apply_event EvConflict m = metrics_record_conflict m"
| "apply_event EvDispute m = record_dispute_escalated m"

definition metric_events :: "metric_event list" where
  "metric_events = [EvQueued, EvSettled, EvFailed, EvConflict, EvDispute]"

text \<open>How often each event occurs in a window.\<close>

definition event_counts :: "metric_event list \<Rightarrow> counter list" where
  "event_counts evs = map (\<lambda>e. word_of_nat (count_list evs e)) metric_events"

fun draw_noise :: "'f f64_ops \<Rightarrow> ('f, 'g) gen_f64 \<Rightarrow> 'f \<Rightarrow> nat \<Rightarrow> 'g \<Rightarrow> ('f list \<times> 'g) option" where
  "draw_noise F gen scale 0 g = Some ([], g)"
| "draw_noise F gen scale (Suc k) g =
     (case sample_laplace F gen scale g of
        None \<Rightarrow> None
      | Some (n, g1) \<Rightarrow> (case draw_noise F gen scale k g1 of None \<Rightarrow> None | Some (ns, g2) \<Rightarrow> Some (n # ns, g2)))"

text \<open>The noise of \<open>k\<close> releases; it depends on the random state and on nothing else.\<close>

fun draw_releases :: "'f f64_ops \<Rightarrow> ('f, 'g) gen_f64 \<Rightarrow> 'f \<Rightarrow> nat \<Rightarrow> 'g \<Rightarrow> 'f list list option" where
  "draw_releases F gen scale 0 g = Some []"
| "draw_releases F gen scale (Suc k) g =
     (case draw_noise F gen scale METRIC_COUNT g of
        None \<Rightarrow> None
      | Some (ns, g1) \<Rightarrow> map_option ((#) ns) (draw_releases F gen scale k g1))"

definition noised :: "'f f64_ops \<Rightarrow> counter \<Rightarrow> 'f \<Rightarrow> 'f" where
  "noised F c n = f_max F (f_add F (f_of_usize F c) n) (f_lit F ''0.0'')"

definition snapshot_values :: "'f dp_snapshot \<Rightarrow> 'f list" where
  "snapshot_values s = [ds_queued s, ds_settled s, ds_failed s, ds_conflicts_detected s, ds_disputes_escalated s]"

lemma noisy_counts_split:
  "noisy_counts F gen scale cs g =
     map_option (\<lambda>(ns, g'). (map2 (noised F) (map (\<lambda>(now, prev). u64_saturating_sub now prev) cs) ns, g'))
       (draw_noise F gen scale (length cs) g)"
  by (induction cs arbitrary: g) (auto simp: Let_def noised_def split: option.splits)

lemma length_draw_noise: "draw_noise F gen scale k g = Some (ns, g') \<Longrightarrow> length ns = k"
  by (induction k arbitrary: g ns) (auto split: option.splits)

lemma lifetime_apply:
  "lifetime_vec (foldl (\<lambda>m e. apply_event e m) m evs) = map2 (+) (lifetime_vec m) (event_counts evs)"
proof (induction evs rule: rev_induct)
  case Nil
  show ?case by (simp add: lifetime_vec_def event_counts_def metric_events_def)
next
  case (snoc e evs)
  then show ?case
    by (cases e)
      (simp_all add: lifetime_vec_def event_counts_def metric_events_def record_queued_def record_settled_def
        record_failed_def metrics_record_conflict_def record_dispute_escalated_def)
qed

lemma count_list_le: "count_list xs x \<le> length xs"
  by (induction xs) auto

text \<open>As long as no counter wraps, the difference of the lifetimes is the count of the window.\<close>

definition below :: "nat \<Rightarrow> sync_engine_metrics \<Rightarrow> bool" where
  "below n m \<longleftrightarrow> (\<forall>c \<in> set (lifetime_vec m). unat c \<le> n)"

lemma sub_add: "unat (a :: u64) + k < 2 ^ 64 \<Longrightarrow>
    u64_saturating_sub (a + word_of_nat k) a = word_of_nat k \<and> unat (a + word_of_nat k) = unat a + k"
proof -
  assume small: "unat a + k < 2 ^ 64"
  then have k: "unat (word_of_nat k :: u64) = k" by (simp add: unat_of_nat)
  then have sum: "unat (a + word_of_nat k) = unat a + k" using small by (simp add: unat_word_ariths)
  then have "a \<le> a + word_of_nat k" by (simp add: word_le_nat_alt)
  then show ?thesis using sum by (simp add: u64_saturating_sub_def)
qed

lemma window_counts:
  assumes "below n m" and "n + length evs < 2 ^ 64"
  shows "map (\<lambda>(now, prev). u64_saturating_sub now prev)
      (zip (lifetime_vec (foldl (\<lambda>m e. apply_event e m) m evs)) (lifetime_vec m)) = event_counts evs"
    and "below (n + length evs) (foldl (\<lambda>m e. apply_event e m) m evs)"
proof -
  have small: "unat c + count_list evs e < 2 ^ 64" "unat c + count_list evs e \<le> n + length evs"
    if "c \<in> set (lifetime_vec m)" for c e
    using assms that count_list_le [of evs e] by (fastforce simp: below_def)+
  note sums = sub_add [OF small(1)]
  show "map (\<lambda>(now, prev). u64_saturating_sub now prev)
      (zip (lifetime_vec (foldl (\<lambda>m e. apply_event e m) m evs)) (lifetime_vec m)) = event_counts evs"
    unfolding lifetime_apply by (simp add: lifetime_vec_def event_counts_def metric_events_def sums)
  show "below (n + length evs) (foldl (\<lambda>m e. apply_event e m) m evs)"
    unfolding below_def lifetime_apply
    using small(2) by (simp add: lifetime_vec_def event_counts_def metric_events_def sums)
qed

fun release_run ::
  "'f f64_ops \<Rightarrow> ('f, 'g) gen_f64 \<Rightarrow> (u64 \<times> metric_event list) list \<Rightarrow> sync_engine_metrics \<Rightarrow>
     ('f, 'g) dp_exporter \<Rightarrow> 'f dp_snapshot list option" where
  "release_run F gen [] m x = Some []"
| "release_run F gen ((now, evs) # ws) m x =
     (let m1 = foldl (\<lambda>m e. apply_event e m) m evs
      in case dp_export F gen now m1 x of
           Some (Inr s, x1) \<Rightarrow> map_option ((#) s) (release_run F gen ws m1 x1)
         | _ \<Rightarrow> None)"

text \<open>Scrapes that are each a window after the one before.\<close>

fun spaced :: "u64 \<Rightarrow> u64 list \<Rightarrow> bool" where
  "spaced w (t # u # ts) \<longleftrightarrow> w \<le> u64_saturating_sub u t \<and> spaced w (u # ts)"
| "spaced w ts \<longleftrightarrow> True"

lemma new_release_mechanism:
  assumes "di_last_lifetime inner = lifetime_vec m" and "below n m" and "n + length evs < 2 ^ 64"
  shows "map_option (\<lambda>(s, inner'). (snapshot_values s, di_rng inner'))
      (new_release F gen config now (foldl (\<lambda>m e. apply_event e m) m evs) inner) =
    map_option (\<lambda>(ns, g). (map2 (noised F) (event_counts evs) ns, g))
      (draw_noise F gen (laplace_scale F (dc_epsilon config)) METRIC_COUNT (di_rng inner))"
proof -
  let ?m1 = "foldl (\<lambda>m e. apply_event e m) m evs" and ?scale = "laplace_scale F (dc_epsilon config)"
  have len: "length (zip (lifetime_vec ?m1) (lifetime_vec m)) = METRIC_COUNT"
    by (simp add: lifetime_vec_def METRIC_COUNT_def)
  show ?thesis
  proof (cases "draw_noise F gen ?scale METRIC_COUNT (di_rng inner)")
    case None
    then show ?thesis
      using len by (simp add: new_release_def Let_def assms(1) noisy_counts_split)
  next
    case (Some res)
    then obtain ns g where ns: "draw_noise F gen ?scale METRIC_COUNT (di_rng inner) = Some (ns, g)" by fastforce
    have "length ns = 5" using length_draw_noise [OF ns] by (simp add: METRIC_COUNT_def)
    then obtain a b c d e where abc: "ns = [a, b, c, d, e]"
      by (auto simp: length_Suc_conv eval_nat_numeral)
    have counts: "noisy_counts F gen ?scale (zip (lifetime_vec ?m1) (lifetime_vec m)) (di_rng inner) =
        Some (map2 (noised F) (event_counts evs) ns, g)"
      using len ns window_counts(1) [OF assms(2,3)] by (simp add: noisy_counts_split)
    show ?thesis unfolding ns new_release_def Let_def assms(1) counts
      by (simp add: abc snapshot_values_def event_counts_def metric_events_def)
  qed
qed

lemma dp_export_due:
  assumes "di_cached (dx_inner x) = None \<or> window_ms (dx_config x) \<le> u64_saturating_sub now (di_window_start_ms (dx_inner x))"
    and "dc_max_releases (dx_config x) = None"
  shows "dp_export F gen now m x =
    map_option (\<lambda>(s, inner). (Inr s, x\<lparr>dx_inner := inner\<rparr>)) (new_release F gen (dx_config x) now m (dx_inner x))"
  using assms by (auto simp: dp_export_def Let_def not_less split: option.splits)

lemma release_run_mechanism:
  "dc_max_releases (dx_config x) = None \<Longrightarrow> di_last_lifetime (dx_inner x) = lifetime_vec m \<Longrightarrow> below n m \<Longrightarrow>
     n + length (concat (map snd ws)) < 2 ^ 64 \<Longrightarrow>
     di_cached (dx_inner x) = None \<and> spaced (window_ms (dx_config x)) (map fst ws) \<or>
       spaced (window_ms (dx_config x)) (di_window_start_ms (dx_inner x) # map fst ws) \<Longrightarrow>
     map_option (map snapshot_values) (release_run F gen ws m x) =
       map_option (map2 (map2 (noised F)) (map (\<lambda>w. event_counts (snd w)) ws))
         (draw_releases F gen (laplace_scale F (dc_epsilon (dx_config x))) (length ws) (di_rng (dx_inner x)))"
proof (induction ws arbitrary: m x n)
  case Nil
  show ?case by simp
next
  case (Cons w ws)
  obtain now evs where w: "w = (now, evs)" by fastforce
  let ?m1 = "foldl (\<lambda>m e. apply_event e m) m evs" and ?scale = "laplace_scale F (dc_epsilon (dx_config x))"
  have small: "n + length evs < 2 ^ 64" using Cons.prems(4) by (simp add: w)
  have due: "di_cached (dx_inner x) = None \<or>
      window_ms (dx_config x) \<le> u64_saturating_sub now (di_window_start_ms (dx_inner x))"
    using Cons.prems(5) by (auto simp: w)
  have later: "spaced (window_ms (dx_config x)) (now # map fst ws)" using Cons.prems(5) by (auto simp: w)
  note exp = dp_export_due [OF due Cons.prems(1), of F gen ?m1]
  note mech = new_release_mechanism [OF Cons.prems(2,3) small, of F gen "dx_config x" now]
  show ?case
  proof (cases "new_release F gen (dx_config x) now ?m1 (dx_inner x)")
    case None
    then have "draw_noise F gen ?scale METRIC_COUNT (di_rng (dx_inner x)) = None" using mech by simp
    then show ?thesis using None exp by (simp add: w Let_def)
  next
    case (Some res)
    then obtain s inner where rel: "new_release F gen (dx_config x) now ?m1 (dx_inner x) = Some (s, inner)" by fastforce
    then obtain ns where ns: "draw_noise F gen ?scale METRIC_COUNT (di_rng (dx_inner x)) = Some (ns, di_rng inner)"
      and vals: "snapshot_values s = map2 (noised F) (event_counts evs) ns"
      using mech by (auto simp: map_option_case split: option.splits)
    note parts = new_release_Some [OF rel]
    have IH: "map_option (map snapshot_values) (release_run F gen ws ?m1 (x\<lparr>dx_inner := inner\<rparr>)) =
        map_option (map2 (map2 (noised F)) (map (\<lambda>w. event_counts (snd w)) ws))
          (draw_releases F gen ?scale (length ws) (di_rng inner))"
      using Cons.IH [of "x\<lparr>dx_inner := inner\<rparr>" ?m1 "n + length evs"] Cons.prems(1,4) later parts(4,5)
        window_counts(2) [OF Cons.prems(3) small] by (simp add: w)
    then show ?thesis using exp rel ns vals
      by (auto simp: w Let_def option.map_comp comp_def map_option_case split: option.splits)
  qed
qed

lemma fresh_mechanism:
  assumes "exporter_new F config entropy = Inr x" and "dc_max_releases config = None"
    and "spaced (window_ms config) (map fst ws)" and "length (concat (map snd ws)) < 2 ^ 64"
  shows "map_option (map snapshot_values) (release_run F gen ws metrics_new x) =
    map_option (map2 (map2 (noised F)) (map (\<lambda>w. event_counts (snd w)) ws))
      (draw_releases F gen (laplace_scale F (dc_epsilon config)) (length ws) entropy)"
proof -
  have x: "x = \<lparr>dx_config = config, dx_inner = inner_new entropy\<rparr>"
    using assms(1) by (auto simp: exporter_new_def split: sum.splits)
  have start: "replicate METRIC_COUNT 0 = lifetime_vec metrics_new" "below 0 metrics_new"
    by (simp_all add: METRIC_COUNT_def eval_nat_numeral lifetime_vec_def metrics_new_def below_def)
  show ?thesis
    using release_run_mechanism [of x metrics_new 0 ws F gen] assms(2-4) start by (simp add: x inner_new_def)
qed


lemma draw_releases_total:
  assumes "\<forall>scale g. sample_laplace F gen scale g \<noteq> None"
  shows "\<exists>noises. draw_releases F gen scale k g = Some noises"
proof (induction k arbitrary: g)
  case (Suc k)
  have "\<exists>ns g1. draw_noise F gen scale j h = Some (ns, g1)" for j h
  proof (induction j arbitrary: h)
    case (Suc j)
    obtain n h1 where "sample_laplace F gen scale h = Some (n, h1)" using assms by fastforce
    moreover obtain ns h2 where "draw_noise F gen scale j h1 = Some (ns, h2)" using Suc by blast
    ultimately show ?case by simp
  qed simp
  then obtain ns g1 where "draw_noise F gen scale METRIC_COUNT g = Some (ns, g1)" by blast
  moreover obtain noises where "draw_releases F gen scale k g1 = Some noises" using Suc by blast
  ultimately show ?case by simp
qed simp

definition sample_windows :: "(u64 \<times> metric_event list) list" where
  "sample_windows = [(0, [EvQueued, EvDispute]), (60000, [EvSettled])]"

lemma sample_windows_ok:
  "spaced (window_ms (sample_config None)) (map fst sample_windows)"
  "length (concat (map snd sample_windows)) < 2 ^ 64"
  by (simp_all add: sample_windows_def sample_config_def window_ms_def from_secs_def u64_saturating_sub_def)

lemma length_draw_releases: "draw_releases F gen scale k g = Some noises \<Longrightarrow> length noises = k"
  by (induction k arbitrary: g noises) (auto split: option.splits)

lemma draw_releases_lengths:
  "draw_releases F gen scale k g = Some noises \<Longrightarrow> \<forall>ns \<in> set noises. length ns = METRIC_COUNT"
  by (induction k arbitrary: g noises) (auto dest: length_draw_noise split: option.splits)

lemma sample_release_run:
  assumes "spaced (window_ms (sample_config None)) (map fst ws)" and "length (concat (map snd ws)) < 2 ^ 64"
  shows "\<exists>ss. release_run sample_f64 sample_gen ws metrics_new
     \<lparr>dx_config = sample_config None, dx_inner = inner_new ()\<rparr> = Some ss"
proof -
  obtain noises where "draw_releases sample_f64 sample_gen (laplace_scale sample_f64 (dc_epsilon (sample_config None)))
      (length ws) () = Some noises"
    using draw_releases_total [OF sample_draws] by blast
  moreover have "dc_max_releases (sample_config None) = None" by (simp add: sample_config_def)
  ultimately show ?thesis
    using fresh_mechanism [OF sample_exporter [of None] _ assms, of sample_gen] by auto
qed


section \<open>Sensitivity\<close>

lemma event_counts_nth: "k < METRIC_COUNT \<Longrightarrow> event_counts evs ! k = word_of_nat (count_list evs (metric_events ! k))"
  unfolding event_counts_def by (rule nth_map) (simp add: metric_events_def METRIC_COUNT_def)

lemma length_event_counts: "length (event_counts evs) = METRIC_COUNT"
  by (simp add: event_counts_def metric_events_def METRIC_COUNT_def)

text \<open>A released value, from the events of its window and the draws.\<close>

lemma released_values:
  assumes "exporter_new F config entropy = Inr x" and "dc_max_releases config = None"
    and "spaced (window_ms config) (map fst ws)" and "length (concat (map snd ws)) < 2 ^ 64"
    and run: "release_run F gen ws metrics_new x = Some ss"
  obtains noises where "draw_releases F gen (laplace_scale F (dc_epsilon config)) (length ws) entropy = Some noises"
    and "length ss = length ws"
    and "\<forall>i < length ws. \<forall>k < METRIC_COUNT.
      snapshot_values (ss ! i) ! k = noised F (event_counts (snd (ws ! i)) ! k) (noises ! i ! k)"
proof -
  let ?draws = "draw_releases F gen (laplace_scale F (dc_epsilon config)) (length ws) entropy"
  obtain noises where draws: "?draws = Some noises"
    and ss: "map snapshot_values ss = map2 (map2 (noised F)) (map (\<lambda>w. event_counts (snd w)) ws) noises"
    using fresh_mechanism [OF assms(1-4), of gen] run by (cases ?draws) simp_all
  have len: "length noises = length ws" by (rule length_draw_releases [OF draws])
  have lens: "length ss = length ws" using arg_cong [OF ss, of length] len by simp
  have "snapshot_values (ss ! i) ! k = noised F (event_counts (snd (ws ! i)) ! k) (noises ! i ! k)"
    if i: "i < length ws" and k: "k < METRIC_COUNT" for i k
  proof -
    have n: "length (noises ! i) = METRIC_COUNT" using draw_releases_lengths [OF draws] i len by simp
    have "snapshot_values (ss ! i) = map snapshot_values ss ! i" using i lens by simp
    also have "\<dots> = map2 (noised F) (event_counts (snd (ws ! i))) (noises ! i)"
      unfolding ss using i len by simp
    finally show ?thesis using k n by (simp add: length_event_counts)
  qed
  then show thesis using that [OF draws lens] by blast
qed

lemma one_more_count:
  assumes "k < METRIC_COUNT"
  shows "event_counts (snd ((us @ (t, es @ e # fs) # vs) ! i)) ! k =
    (if i = length us \<and> metric_events ! k = e then word_of_nat (Suc (count_list (es @ fs) e))
     else event_counts (snd ((us @ (t, es @ fs) # vs) ! i)) ! k)"
proof (cases "i = length us")
  case False
  then show ?thesis by (simp add: nth_append nth_Cons split: nat.splits)
qed (use assms in \<open>simp add: event_counts_nth\<close>)

text \<open>
  Sensitivity one: one more event in one window, under the same random draws, leaves every
  released value as it is except the value of its own counter in its own window, and that is the
  noised count raised by one.
\<close>

theorem one_event_one_value:
  assumes "exporter_new F config entropy = Inr x" and "dc_max_releases config = None"
    and "spaced (window_ms config) (map fst (us @ (t, es @ e # fs) # vs))"
    and "length (concat (map snd (us @ (t, es @ e # fs) # vs))) < 2 ^ 64"
    and "release_run F gen (us @ (t, es @ fs) # vs) metrics_new x = Some ss"
    and "release_run F gen (us @ (t, es @ e # fs) # vs) metrics_new x = Some ss'"
  shows "length ss' = length ss \<and>
    (\<forall>i < length ss. \<forall>k < METRIC_COUNT.
      if i = length us \<and> metric_events ! k = e
      then \<exists>c n. snapshot_values (ss ! i) ! k = noised F (word_of_nat c) n \<and>
                  snapshot_values (ss' ! i) ! k = noised F (word_of_nat (Suc c)) n
      else snapshot_values (ss' ! i) ! k = snapshot_values (ss ! i) ! k)"
proof -
  let ?ws = "us @ (t, es @ fs) # vs" and ?ws' = "us @ (t, es @ e # fs) # vs"
  have small: "length (concat (map snd ?ws)) < 2 ^ 64" and spaced: "spaced (window_ms config) (map fst ?ws)"
    and same: "length ?ws = length ?ws'"
    using assms(3,4) by simp_all
  obtain noises where draws: "draw_releases F gen (laplace_scale F (dc_epsilon config)) (length ?ws) entropy = Some noises"
    and ss: "length ss = length ?ws" "\<forall>i < length ?ws. \<forall>k < METRIC_COUNT.
      snapshot_values (ss ! i) ! k = noised F (event_counts (snd (?ws ! i)) ! k) (noises ! i ! k)"
    by (rule released_values [OF assms(1,2) spaced small assms(5)])
  obtain noises' where draws': "draw_releases F gen (laplace_scale F (dc_epsilon config)) (length ?ws') entropy = Some noises'"
    and ss': "length ss' = length ?ws'" "\<forall>i < length ?ws'. \<forall>k < METRIC_COUNT.
      snapshot_values (ss' ! i) ! k = noised F (event_counts (snd (?ws' ! i)) ! k) (noises' ! i ! k)"
    by (rule released_values [OF assms(1-4,6)])
  have noises: "noises' = noises" using draws draws' by (simp only: same option.inject)
  show ?thesis
  proof (intro conjI allI impI)
    show "length ss' = length ss" by (simp only: ss(1) ss'(1) same)
  next
    fix i k
    assume i: "i < length ss" and k: "k < METRIC_COUNT"
    have old: "snapshot_values (ss ! i) ! k = noised F (event_counts (snd (?ws ! i)) ! k) (noises ! i ! k)"
      using ss i k by simp
    have new: "snapshot_values (ss' ! i) ! k = noised F (event_counts (snd (?ws' ! i)) ! k) (noises ! i ! k)"
      using ss'(2) i k by (simp only: ss(1) same noises)
    show "if i = length us \<and> metric_events ! k = e
      then \<exists>c n. snapshot_values (ss ! i) ! k = noised F (word_of_nat c) n \<and>
                  snapshot_values (ss' ! i) ! k = noised F (word_of_nat (Suc c)) n
      else snapshot_values (ss' ! i) ! k = snapshot_values (ss ! i) ! k"
    proof (cases "i = length us \<and> metric_events ! k = e")
      case True
      then have "event_counts (snd (?ws ! i)) ! k = word_of_nat (count_list (es @ fs) e)"
        using k by (simp add: event_counts_nth)
      with True show ?thesis using old new one_more_count [OF k, of us t es e fs vs i] by metis
    next
      case False
      then have "event_counts (snd (?ws' ! i)) ! k = event_counts (snd (?ws ! i)) ! k"
        using one_more_count [OF k, of us t es e fs vs i] by (simp only: if_False)
      then show ?thesis unfolding if_not_P [OF False] by (simp only: old new)
    qed
  qed
qed

theorem one_event_one_value_witness:
  "\<exists>ss ss'. release_run sample_f64 sample_gen [(0, [EvQueued])] metrics_new
       \<lparr>dx_config = sample_config None, dx_inner = inner_new ()\<rparr> = Some ss \<and>
     release_run sample_f64 sample_gen [(0, [EvQueued, EvDispute])] metrics_new
       \<lparr>dx_config = sample_config None, dx_inner = inner_new ()\<rparr> = Some ss' \<and> length ss' = length ss"
proof -
  let ?x = "\<lparr>dx_config = sample_config None, dx_inner = inner_new ()\<rparr> :: (int, unit) dp_exporter"
  obtain ss ss' where runs: "release_run sample_f64 sample_gen ([] @ (0, [EvQueued] @ []) # []) metrics_new ?x = Some ss"
    "release_run sample_f64 sample_gen ([] @ (0, [EvQueued] @ EvDispute # []) # []) metrics_new ?x = Some ss'"
    using sample_release_run [of "[(0, [EvQueued])]"] sample_release_run [of "[(0, [EvQueued, EvDispute])]"] by auto
  have cfg: "dc_max_releases (sample_config None) = None" by (simp add: sample_config_def)
  have "length ss' = length ss"
    using one_event_one_value [OF sample_exporter [of None] cfg _ _ runs] by simp
  then show ?thesis using runs by auto
qed

section \<open>The exact rendering\<close>

lemma newline_not_digit: "\<not> is_digit (CHR 0x0A)"
  by (simp add: is_digit_def)

lemma prometheus_counter_ends:
  assumes "prometheus_counter name doc v @ r = prometheus_counter name doc w @ s"
  shows "v = w \<and> r = s"
proof -
  have "show_u64 v @ CHR 0x0A # r = show_u64 w @ CHR 0x0A # s"
    using assms by (simp add: prometheus_counter_def newline_def)
  then show ?thesis using show_u64_ends newline_not_digit by blast
qed

lemma prometheus_counter_iff:
  "prometheus_counter name doc v @ r = prometheus_counter name doc w @ s \<longleftrightarrow> v = w \<and> r = s"
  "prometheus_counter name doc v = prometheus_counter name doc w \<longleftrightarrow> v = w"
  using prometheus_counter_ends [of name doc v r w s] prometheus_counter_ends [of name doc v "[]" w "[]"] by auto

text \<open>
  The plain Prometheus text gives the exact lifetime totals away: two sets of counters with
  the same text are the same, so nothing of the privacy the noisy exporter buys is left when it
  is scraped too.
\<close>

theorem prometheus_text_exact: "to_prometheus_text m = to_prometheus_text m' \<longleftrightarrow> snapshot m = snapshot m'"
  unfolding to_prometheus_text_def Let_def prometheus_counter_iff by (auto simp: snapshot_def)

text \<open>
  Resetting the counters under a running exporter hides events: as long as a counter has not
  passed its value at the last release, the window counts as empty.
\<close>

lemma reset_hides_events:
  assumes "\<forall>(now, prev) \<in> set (zip (lifetime_vec m) prevs). now \<le> prev" and "length prevs = METRIC_COUNT"
  shows "map (\<lambda>(now, prev). u64_saturating_sub now prev) (zip (lifetime_vec m) prevs) = replicate METRIC_COUNT 0"
proof -
  have "map (\<lambda>(now, prev). u64_saturating_sub now prev) (zip (lifetime_vec m) prevs) = map (\<lambda>_. 0) (zip (lifetime_vec m) prevs)"
    using assms(1) by (intro map_cong) (auto simp: u64_saturating_sub_def)
  then show ?thesis using assms(2) by (simp add: lifetime_vec_def METRIC_COUNT_def map_replicate_const eval_nat_numeral)
qed

end
