(* ===== verification/Error_Display.thy ===== *)
theory Error_Display
  imports Errors Text_Laws
begin

text \<open>
  The messages of \<open>src/errors.rs\<close>: what \<open>Display\<close> prints for each error.  \<open>debug_str\<close> is the
  standard library's quoted form of a string, a parameter; the messages of wrapped third-party
  errors are the strings the variants carry.
\<close>

definition show_u32 :: "u32 \<Rightarrow> string" where
  "show_u32 x = show_nat (unat x)"

fun error_display :: "(string \<Rightarrow> string) \<Rightarrow> sync_engine_error \<Rightarrow> string" where
  "error_display debug_str (NoSequenceReserved a) = ''no sequence number reserved for account '' @ a"
| "error_display debug_str (SequenceOutOfOrder account requested last_res) =
     ''sequence number '' @ show_i64 requested @ '' is not greater than last reserved '' @
     show_i64 last_res @ '' for account '' @ account"
| "error_display debug_str (InvalidEnvelope s) = ''envelope validation failed: '' @ s"
| "error_display debug_str (XdrParse s) = ''failed to parse transaction XDR: '' @ s"
| "error_display debug_str (SourceAccountMismatch claimed actual) =
     ''caller-claimed source account '' @ claimed @ '' does not match the source account '' @ actual @
     '' encoded in the transaction XDR''"
| "error_display debug_str (SequenceMismatch account reserved actual) =
     ''reserved sequence '' @ show_i64 reserved @ '' does not match the sequence '' @ show_i64 actual @
     '' encoded in the transaction XDR for account '' @ account"
| "error_display debug_str (EnvelopeNotFound s) = ''no queued envelope found for message_id '' @ s"
| "error_display debug_str (InvalidStateTransition frm to) =
     ''invalid settlement state transition from '' @ debug_str frm @ '' to '' @ debug_str to"
| "error_display debug_str (BackpressureWindowFull n) =
     ''dispatch backpressure window is full ('' @ show_nat n @
     '' in flight); wait for acknowledgments or timeouts before dispatching more''"
| "error_display debug_str DuplicateInFlight = ''message is already in flight in the dispatch window''"
| "error_display debug_str (InvalidDispatchWindow s) = ''invalid dispatch window configuration: '' @ s"
| "error_display debug_str (UnresolvedConflict s) =
     ''conflict between envelopes could not be resolved off-chain: '' @ s"
| "error_display debug_str (EmergencyQueueLimitExceeded current mx window_secs) =
     ''emergency-tier queue limit exceeded: '' @ show_nat current @ ''/'' @ show_nat mx @
     '' Emergency payments already queued within the last '' @ show_u64 window_secs @
     ''s; extra confirmation is required before queuing another''"
| "error_display debug_str (UnknownMultisigSigner account) =
     ''signing key is not a known/authorized signer for account '' @ account"
| "error_display debug_str (MultisigThresholdNotMet account weight required) =
     ''multisig threshold not met for account '' @ account @ '': accumulated weight '' @ show_u32 weight @
     '' < required threshold '' @ show_u32 required"
| "error_display debug_str (ConnectionError s) = ''SQLite connection error: '' @ s"
| "error_display debug_str (SqliteError s) = ''SQLite database error: '' @ s"
| "error_display debug_str (SerializationError s) = ''serialization error: '' @ s"
| "error_display debug_str (DeserializationError s) = ''deserialization error: '' @ s"
| "error_display debug_str PqVerificationFailed = ''post-quantum signature verification failed''"
| "error_display debug_str (EncryptionError s) = ''encryption error: '' @ s"
| "error_display debug_str EncryptionKeyMismatch = ''database encryption key mismatch or missing key''"
| "error_display debug_str DecryptionFailed = ''decryption failed: wrong key or corrupted data''"
| "error_display debug_str ImportTargetNotEmpty =
     ''cannot import snapshot: target database is not empty (import_snapshot requires an empty database '' @
     [CHR 0xE2, CHR 0x80, CHR 0x94] @ '' see SyncEngineDb::import_snapshot'' @ [CHR 0x27] @ ''s documented policy)''"
| "error_display debug_str (IncompatibleSnapshotSchemaVersion found expected) =
     ''snapshot schema version '' @ show_u32 found @ '' is incompatible with this build'' @ [CHR 0x27] @
     ''s expected version '' @ show_u32 expected"

end
