(* ===== verification/Sim.thy ===== *)
theory Sim
  imports Resolver Clock Error_Display
begin

text \<open>
  \<open>src/sim\<close>: the seeded harness that drives adversarial agents against the real conflict detector
  and resolver - the trace, the simulated world, the three agents, the harness and the sweep.

  Parameters, gathered in \<open>sim_env\<close>: the random generator (\<open>StdRng\<close>, with \<open>fill_bytes\<close> on 32 bytes
  and \<open>shuffle\<close>), hexadecimal rendering, Ed25519 keys and relay proofs of the third-party crates,
  and the iteration order of the detector's hash map.  \<open>None\<close> is a panic or a loop without end.
\<close>

unbundle bit_operations_syntax

record ('g, 'vk) sim_env =
  seed_from_u64 :: "u64 \<Rightarrow> 'g"
  fill_bytes32 :: "'g \<Rightarrow> bytes32 \<times> 'g"
  shuffle_slots :: "'g \<Rightarrow> queued_slot list \<Rightarrow> queued_slot list \<times> 'g"
  hex32 :: hex_encode
  hex64 :: "512 word \<Rightarrow> string"
  verifying_key_bytes :: "bytes32 \<Rightarrow> bytes32"
  sign_proof :: "bytes32 \<Rightarrow> bytes32 \<Rightarrow> bytes32 \<Rightarrow> u64 \<Rightarrow> relay_chain_proof"
  key_of_bytes :: "'vk from_key"
  proof_verifies :: "'vk verify_proof"
  hash_order :: "slot_groups \<Rightarrow> slot_groups"
  error_debug :: "string \<Rightarrow> string"

text \<open>\<open>u64::saturating_add\<close>: stops at the largest value.\<close>

definition u64_saturating_add :: "u64 \<Rightarrow> u64 \<Rightarrow> u64" where
  "u64_saturating_add a b = (if unat a + unat b < 2 ^ 64 then a + b else - 1)"

section \<open>The trace\<close>

record trace_event =
  at_secs :: u64
  ev_source :: string
  ev_kind :: string
  ev_detail :: string

record trace =
  tr_events :: "trace_event list"
  tr_failure :: "string option"

definition trace_default :: trace where
  "trace_default = \<lparr>tr_events = [], tr_failure = None\<rparr>"

definition trace_record :: "trace \<Rightarrow> u64 \<Rightarrow> string \<Rightarrow> string \<Rightarrow> string \<Rightarrow> trace" where
  "trace_record tr at source kind detail =
     tr\<lparr>tr_events := tr_events tr @
       [\<lparr>at_secs = at, ev_source = source, ev_kind = kind, ev_detail = detail\<rparr>]\<rparr>"

definition trace_fail :: "trace \<Rightarrow> string \<Rightarrow> trace" where
  "trace_fail tr message = tr\<lparr>tr_failure := Some message\<rparr>"

definition trace_ok :: "trace \<Rightarrow> bool" where
  "trace_ok tr \<longleftrightarrow> tr_failure tr = None"

section \<open>The world\<close>

text \<open>A \<open>BTreeMap\<close> is an association list in ascending order of its keys.\<close>

fun btree_insert :: "'k::linorder \<Rightarrow> 'v \<Rightarrow> ('k \<times> 'v) list \<Rightarrow> ('k \<times> 'v) list" where
  "btree_insert k v [] = [(k, v)]"
| "btree_insert k v ((k', v') # kvs) =
     (if k < k' then (k, v) # (k', v') # kvs
      else if k = k' then (k, v) # kvs
      else (k', v') # btree_insert k v kvs)"

record sim_device =
  dev_id :: string
  dev_slots :: "queued_slot list"
  dev_observations :: "(string \<times> relay_observation list) list"

record sim_world =
  devices :: "(string \<times> sim_device) list"
  w_account :: string
  w_sequence :: i64
  observation_ttl_secs :: u64
  observation_accepted_at :: "(string \<times> u64) list"

definition world_new :: "string \<Rightarrow> i64 \<Rightarrow> sim_world" where
  "world_new account sequence = \<lparr>devices = [], w_account = account, w_sequence = sequence,
     observation_ttl_secs = 60, observation_accepted_at = []\<rparr>"

text \<open>\<open>ensure_device\<close> followed by an update through the reference it returns.\<close>

definition ensure_device :: "sim_world \<Rightarrow> string \<Rightarrow> sim_device" where
  "ensure_device w i =
     (case map_of (devices w) i of
        Some d \<Rightarrow> d
      | None \<Rightarrow> \<lparr>dev_id = i, dev_slots = [], dev_observations = []\<rparr>)"

definition update_device :: "sim_world \<Rightarrow> string \<Rightarrow> (sim_device \<Rightarrow> sim_device) \<Rightarrow> sim_world" where
  "update_device w i f = w\<lparr>devices := btree_insert i (f (ensure_device w i)) (devices w)\<rparr>"

definition insert_slot_by_id :: "(bytes32 \<times> queued_slot) list \<Rightarrow> queued_slot \<Rightarrow> (bytes32 \<times> queued_slot) list" where
  "insert_slot_by_id by_id slot =
     (case map_of by_id (slot_message_id slot) of
        None \<Rightarrow> btree_insert (slot_message_id slot) slot by_id
      | Some _ \<Rightarrow> by_id)"

definition merged_slots :: "sim_world \<Rightarrow> queued_slot list" where
  "merged_slots w =
     map snd (foldl (\<lambda>by_id kd. foldl insert_slot_by_id by_id (dev_slots (snd kd))) [] (devices w))"

definition observations_for :: "hex_encode \<Rightarrow> sim_world \<Rightarrow> bytes32 \<Rightarrow> relay_observation list" where
  "observations_for hex w mid =
     concat (map (\<lambda>kd. case map_of (dev_observations (snd kd)) (hex mid) of
                         Some obs \<Rightarrow> obs | None \<Rightarrow> []) (devices w))"

definition evidence_for_pair :: "hex_encode \<Rightarrow> sim_world \<Rightarrow> bytes32 \<Rightarrow> bytes32 \<Rightarrow> u64 \<Rightarrow> u64 \<Rightarrow> conflict_evidence" where
  "evidence_for_pair hex w a b ts_a ts_b =
     \<lparr>envelope_a_timestamp = ts_a, envelope_b_timestamp = ts_b,
      envelope_a_observations = observations_for hex w a,
      envelope_b_observations = observations_for hex w b\<rparr>"

section \<open>Agents\<close>

record 'g agent_ctx =
  ctx_seed :: u64
  ctx_rng :: 'g
  ctx_clock :: mock_clock
  ctx_world :: sim_world
  ctx_trace :: trace

datatype agent_outcome =
    Defended string
  | InvariantViolation string

type_synonym 'g agent_act = "'g agent_ctx \<Rightarrow> (agent_outcome \<times> 'g agent_ctx) option"

record 'g adversarial_agent =
  agent_name :: string
  agent_act :: "'g agent_act"

text \<open>\<open>slots_at account sequence id\<close>: the literal \<open>QueuedSlot\<close> of the agents.\<close>

definition queued_slot_of :: "string \<Rightarrow> i64 \<Rightarrow> bytes32 \<Rightarrow> queued_slot" where
  "queued_slot_of account sequence mid =
     \<lparr>slot_source_account = account, slot_sequence = sequence, slot_message_id = mid\<rparr>"

text \<open>\<open>bytes[i] ^= b\<close> on a big-endian array of \<open>n\<close> bytes.\<close>

definition xor_byte32 :: "bytes32 \<Rightarrow> nat \<Rightarrow> bytes32 \<Rightarrow> bytes32" where
  "xor_byte32 w i b = w XOR push_bit (8 * (31 - i)) b"

definition xor_byte64 :: "512 word \<Rightarrow> nat \<Rightarrow> 512 word \<Rightarrow> 512 word" where
  "xor_byte64 w i b = w XOR push_bit (8 * (63 - i)) b"

subsection \<open>Forged proofs\<close>

definition key_from_rng :: "('g, 'vk) sim_env \<Rightarrow> 'g \<Rightarrow> bytes32 \<times> 'g" where
  "key_from_rng E g = fill_bytes32 E g"

text \<open>\<open>[tag; 32]\<close>, mixed with random bytes.\<close>

definition tagged_message_id :: "('g, 'vk) sim_env \<Rightarrow> u8 \<Rightarrow> 'g \<Rightarrow> bytes32 \<times> 'g" where
  "tagged_message_id E tag g =
     (case fill_bytes32 E g of (mix, g1) \<Rightarrow> (word_of_nat (of_be_bytes (replicate 32 tag)) XOR mix, g1))"

text \<open>The draws and the evidence the agent prepares.\<close>

record forged_setup =
  fs_conflict :: "conflict option"
  fs_honest_a :: bytes32
  fs_tampered :: relay_observation
  fs_mutated_hash :: relay_observation
  fs_cross_wired :: relay_observation
  fs_sybil_obs :: relay_observation
  fs_evidence :: conflict_evidence

definition forged_prepare :: "('g, 'vk) sim_env \<Rightarrow> 'g agent_ctx \<Rightarrow> forged_setup \<times> 'g" where
  "forged_prepare E ctx =
     (let sequence = w_sequence (ctx_world ctx); account = w_account (ctx_world ctx);
          at = mock_now_secs (ctx_clock ctx);
          (honest_a, g1) = tagged_message_id E 0xA1 (ctx_rng ctx);
          (honest_b, g2) = tagged_message_id E 0xB2 g1;
          (relay1, g3) = key_from_rng E g2;
          (relay2, g4) = key_from_rng E g3;
          (chain, g5) = fill_bytes32 E g4;
          obs1 = \<lparr>relay_pubkey = verifying_key_bytes E relay1, obs_proof = sign_proof E relay1 honest_a chain sequence\<rparr>;
          obs2 = \<lparr>relay_pubkey = verifying_key_bytes E relay2, obs_proof = sign_proof E relay2 honest_a chain sequence\<rparr>;
          p1 = obs_proof obs1; p2 = obs_proof obs2;
          tampered = obs1\<lparr>obs_proof := p1\<lparr>proof_signature :=
            xor_byte64 (xor_byte64 (proof_signature p1) 0 0xff) 31 0xaa\<rparr>\<rparr>;
          mutated_hash = obs2\<lparr>obs_proof := p2\<lparr>chain_hash := xor_byte32 (chain_hash p2) 0 0x5a\<rparr>\<rparr>;
          cross_wired = obs1;
          (sybil, g6) = key_from_rng E g5;
          sybil_obs = \<lparr>relay_pubkey = verifying_key_bytes E sybil, obs_proof = sign_proof E sybil honest_b chain sequence\<rparr>
      in (\<lparr>fs_conflict = conflicts_between (queued_slot_of account sequence honest_a) (queued_slot_of account sequence honest_b),
           fs_honest_a = honest_a, fs_tampered = tampered, fs_mutated_hash = mutated_hash,
           fs_cross_wired = cross_wired, fs_sybil_obs = sybil_obs,
           fs_evidence = \<lparr>envelope_a_timestamp = at, envelope_b_timestamp = u64_saturating_add at 1,
             envelope_a_observations = [obs1, obs2, tampered, mutated_hash],
             envelope_b_observations = [cross_wired, sybil_obs]\<rparr>\<rparr>, g6))"

definition forged_proof_act :: "('g, 'vk) sim_env \<Rightarrow> 'g agent_act" where
  "forged_proof_act E ctx =
     (let at = mock_now_secs (ctx_clock ctx); (s, g) = forged_prepare E ctx
      in case fs_conflict s of
           None \<Rightarrow> None
         | Some c \<Rightarrow>
             let tr = trace_record (ctx_trace ctx) at ''forged_proof'' ''injected_forgeries''
                   (''tampered_sig='' @ hex64 E (proof_signature (obs_proof (fs_tampered s))) @
                    '' mutated_hash='' @ hex32 E (chain_hash (obs_proof (fs_mutated_hash s))) @
                    '' cross_wired='' @ hex32 E (relay_pubkey (fs_cross_wired s)) @
                    '' sybil='' @ hex32 E (relay_pubkey (fs_sybil_obs s)));
                 ctx1 = ctx\<lparr>ctx_rng := g, ctx_trace := tr\<rparr>
             in Some (case resolve_conflict (hex32 E) (key_of_bytes E) (proof_verifies E) c (fs_evidence s) of
                  Inr winner \<Rightarrow>
                    if winner = fs_honest_a s
                    then (Defended ''forged/tampered proofs did not overturn honest quorum'',
                          ctx1\<lparr>ctx_trace := trace_record tr at ''forged_proof'' ''forged_proof_rejected''
                            (''winner='' @ hex32 E winner)\<rparr>)
                    else let msg = ''forged proofs caused unexpected winner '' @ hex32 E winner
                         in (InvariantViolation msg, ctx1\<lparr>ctx_trace := trace_fail tr msg\<rparr>)
                | Inl (UnresolvedConflict _) \<Rightarrow>
                    (Defended ''resolver left conflict unresolved rather than trusting forgeries'',
                     ctx1\<lparr>ctx_trace := trace_record tr at ''forged_proof'' ''forged_proof_unresolved''
                       ''resolver refused to decide under forged evidence''\<rparr>)
                | Inl other \<Rightarrow>
                    let msg = ''unexpected error under forged evidence: '' @ error_display (error_debug E) other
                    in (InvariantViolation msg, ctx1\<lparr>ctx_trace := trace_fail tr msg\<rparr>)))"

subsection \<open>Replays\<close>

definition replay_act :: "('g, 'vk) sim_env \<Rightarrow> 'g agent_act" where
  "replay_act E ctx =
     (let world = ctx_world ctx; account = w_account world; sequence = w_sequence world;
          at = mock_now_secs (ctx_clock ctx);
          (id_a, g1) = fill_bytes32 E (ctx_rng ctx);
          (id_b0, g2) = fill_bytes32 E g1;
          id_b = (if id_a = id_b0 then xor_byte32 id_b0 0 0xff else id_b0)
      in case conflicts_between (queued_slot_of account sequence id_a) (queued_slot_of account sequence id_b) of
           None \<Rightarrow> None
         | Some c \<Rightarrow>
             let (relay, g3) = key_from_rng E g2;
                 fresh = \<lparr>relay_pubkey = verifying_key_bytes E relay,
                   obs_proof = sign_proof E relay id_a (word_of_nat (of_be_bytes (replicate 32 9))) sequence\<rparr>;
                 mid = hex32 E id_a;
                 world1 = world\<lparr>observation_accepted_at := btree_insert mid at (observation_accepted_at world)\<rparr>;
                 world2 = update_device world1 ''replay-victim''
                   (\<lambda>d. d\<lparr>dev_observations := btree_insert mid [fresh] (dev_observations d)\<rparr>);
                 ttl = observation_ttl_secs world2;
                 clock = mock_advance (ctx_clock ctx) (u64_saturating_add ttl 1);
                 later = mock_now_secs clock
             in (case conflicts_between (queued_slot_of account (sequence + 1) id_a)
                        (queued_slot_of account (sequence + 1) id_b) of
                   None \<Rightarrow> None
                 | Some wrong_seq_conflict \<Rightarrow>
                     let evidence = \<lparr>envelope_a_timestamp = at, envelope_b_timestamp = at,
                           envelope_a_observations = [fresh], envelope_b_observations = []\<rparr>;
                         unresolved = (\<lambda>r. case r of Inl (UnresolvedConflict _) \<Rightarrow> True | _ \<Rightarrow> False);
                         wrong_seq_ok = unresolved (resolve_conflict (hex32 E) (key_of_bytes E) (proof_verifies E)
                           wrong_seq_conflict evidence);
                         stale_ok = unresolved (resolve_conflict (hex32 E) (key_of_bytes E) (proof_verifies E) c evidence);
                         tr = trace_record (ctx_trace ctx) later ''replay'' ''replay_attempts''
                           (''wrong_seq_defended='' @ show_bool wrong_seq_ok @
                            '' stale_lone_proof_unresolved='' @ show_bool stale_ok @ '' ttl='' @ show_u64 ttl);
                         ctx1 = ctx\<lparr>ctx_rng := g3, ctx_clock := clock, ctx_world := world2, ctx_trace := tr\<rparr>
                     in Some (if wrong_seq_ok \<and> stale_ok
                              then (Defended ''stale/out-of-sequence replays did not resolve a conflict'', ctx1)
                              else let msg = ''replay slipped through: wrong_seq_ok='' @ show_bool wrong_seq_ok @
                                         '' stale_ok='' @ show_bool stale_ok
                                   in (InvariantViolation msg, ctx1\<lparr>ctx_trace := trace_fail tr msg\<rparr>))))"

subsection \<open>Races\<close>

text \<open>One identifier that differs from those drawn before.\<close>

partial_function (option) draw_unique :: "('g, 'vk) sim_env \<Rightarrow> bytes32 list \<Rightarrow> 'g \<Rightarrow> (bytes32 \<times> 'g) option" where
  "draw_unique E ids g =
     (if fst (fill_bytes32 E g) \<in> set ids then draw_unique E ids (snd (fill_bytes32 E g))
      else Some (fill_bytes32 E g))"

fun draw_ids :: "('g, 'vk) sim_env \<Rightarrow> nat \<Rightarrow> bytes32 list \<Rightarrow> 'g \<Rightarrow> (bytes32 list \<times> 'g) option" where
  "draw_ids E 0 ids g = Some (ids, g)"
| "draw_ids E (Suc n) ids g =
     (case draw_unique E ids g of
        None \<Rightarrow> None
      | Some (mid, g1) \<Rightarrow> draw_ids E n (ids @ [mid]) g1)"

definition race_act :: "('g, 'vk) sim_env \<Rightarrow> 'g agent_act" where
  "race_act E ctx =
     (let account = w_account (ctx_world ctx); sequence = w_sequence (ctx_world ctx);
          at = mock_now_secs (ctx_clock ctx)
      in case draw_ids E 3 [] (ctx_rng ctx) of
           None \<Rightarrow> None
         | Some (drawn, g1) \<Rightarrow>
             let ids = sort drawn;
                 slots_canon = map (queued_slot_of account sequence) ids;
                 (order, g2) = shuffle_slots E g1 slots_canon;
                 perm_label = intercalate '','' (map (\<lambda>s. hex32 E (slot_message_id s)) order)
             in (case order of
                   [] \<Rightarrow> None
                 | first # others \<Rightarrow>
                     let world1 = update_device (ctx_world ctx) ''race-0'' (\<lambda>d. d\<lparr>dev_slots := [first]\<rparr>);
                         world2 = update_device world1 ''race-1'' (\<lambda>d. d\<lparr>dev_slots := others\<rparr>);
                         merged = merged_slots world2;
                         conflicts = detect_conflicts (hash_order E) merged;
                         nway = detect_nway_conflicts (hash_order E) merged;
                         opposite = rev slots_canon;
                         conflicts_rev = detect_conflicts (hash_order E) opposite;
                         nway_rev = detect_nway_conflicts (hash_order E) opposite;
                         expected_pairs = 3;
                         pairs_ok = (length conflicts = expected_pairs \<and> length conflicts_rev = expected_pairs);
                         nway_ok = (length nway = 1 \<and> length nway_rev = 1 \<and>
                           length (message_ids (nway ! 0)) = 3 \<and> length (message_ids (nway_rev ! 0)) = 3);
                         order_stable = (conflicts = conflicts_rev \<and> nway = nway_rev);
                         tr = trace_record (ctx_trace ctx) at ''race'' ''race_conflicts_detected''
                           (''perm='' @ perm_label @ '' pairs='' @ show_nat (length conflicts) @
                            '' nway='' @ show_nat (length nway) @ '' order_stable='' @ show_bool order_stable);
                         ctx1 = ctx\<lparr>ctx_rng := g2, ctx_world := world2, ctx_trace := tr\<rparr>
                     in Some
                       (if \<not> (pairs_ok \<and> nway_ok)
                        then let msg = ''race missed conflicts: pairs='' @ show_nat (length conflicts) @
                                   '' (want '' @ show_nat expected_pairs @ '') nway_ok='' @ show_bool nway_ok
                             in (InvariantViolation msg, ctx1\<lparr>ctx_trace := trace_fail tr msg\<rparr>)
                        else if \<not> order_stable
                        then let msg = ''detect_conflicts/detect_nway_conflicts output depends on slot insertion order (HashMap iteration) '' @
                                   [CHR 0xE2, CHR 0x80, CHR 0x94] @ '' breaks seeded reproducibility''
                             in (InvariantViolation msg, ctx1\<lparr>ctx_trace := trace_fail tr msg\<rparr>)
                        else (Defended (''race detected '' @ show_nat expected_pairs @
                                '' pairs + 1 n-way conflict; output order-stable''), ctx1))))"

definition ForgedProofAgent :: "('g, 'vk) sim_env \<Rightarrow> 'g adversarial_agent" where
  "ForgedProofAgent E = \<lparr>agent_name = ''forged_proof'', agent_act = forged_proof_act E\<rparr>"

definition ReplayAgent :: "('g, 'vk) sim_env \<Rightarrow> 'g adversarial_agent" where
  "ReplayAgent E = \<lparr>agent_name = ''replay'', agent_act = replay_act E\<rparr>"

definition RaceAgent :: "('g, 'vk) sim_env \<Rightarrow> 'g adversarial_agent" where
  "RaceAgent E = \<lparr>agent_name = ''race'', agent_act = race_act E\<rparr>"

section \<open>The harness\<close>

record sim_config =
  sc_seed :: u64
  sc_start_secs :: u64
  sc_account :: string
  sc_sequence :: i64

definition sim_config_default :: sim_config where
  "sim_config_default = \<lparr>sc_seed = 1, sc_start_secs = 1700000000,
     sc_account = ''GSIMACCOUNT0000000000000000000000000000'', sc_sequence = 42\<rparr>"

definition with_seed :: "sim_config \<Rightarrow> u64 \<Rightarrow> sim_config" where
  "with_seed cfg s = cfg\<lparr>sc_seed := s\<rparr>"

record sim_report =
  rep_seed :: u64
  rep_trace :: trace
  agent_summaries :: "(string \<times> string) list"

definition report_ok :: "sim_report \<Rightarrow> bool" where
  "report_ok r = trace_ok (rep_trace r)"

record 'g sim_harness =
  sh_config :: sim_config
  sh_rng :: 'g
  sh_clock :: mock_clock
  sh_world :: sim_world
  sh_trace :: trace

definition harness_new :: "('g, 'vk) sim_env \<Rightarrow> sim_config \<Rightarrow> 'g sim_harness" where
  "harness_new E cfg =
     \<lparr>sh_config = cfg, sh_rng = seed_from_u64 E (sc_seed cfg), sh_clock = mock_new (sc_start_secs cfg),
      sh_world = world_new (sc_account cfg) (sc_sequence cfg), sh_trace = trace_default\<rparr>"

text \<open>The loop over the agents; \<open>break\<close> ends it without advancing the clock.\<close>

fun run_agents ::
  "'g adversarial_agent list \<Rightarrow> 'g sim_harness \<Rightarrow> (string \<times> string) list \<Rightarrow>
     ((string \<times> string) list \<times> 'g sim_harness) option" where
  "run_agents [] h summaries = Some (summaries, h)"
| "run_agents (agent # agents) h summaries =
     (case agent_act agent \<lparr>ctx_seed = sc_seed (sh_config h), ctx_rng = sh_rng h, ctx_clock = sh_clock h,
             ctx_world = sh_world h, ctx_trace = sh_trace h\<rparr> of
        None \<Rightarrow> None
      | Some (outcome, ctx) \<Rightarrow>
          let h1 = h\<lparr>sh_rng := ctx_rng ctx, sh_clock := ctx_clock ctx, sh_world := ctx_world ctx, sh_trace := ctx_trace ctx\<rparr>
          in (case outcome of
                Defended summary \<Rightarrow>
                  run_agents agents (h1\<lparr>sh_clock := mock_advance (sh_clock h1) 1\<rparr>)
                    (summaries @ [(agent_name agent, summary)])
              | InvariantViolation summary \<Rightarrow>
                  Some (summaries @ [(agent_name agent, summary)],
                    if trace_ok (sh_trace h1) then h1\<lparr>sh_trace := trace_fail (sh_trace h1) summary\<rparr> else h1)))"

definition harness_run ::
  "'g adversarial_agent list \<Rightarrow> 'g sim_harness \<Rightarrow> (sim_report \<times> 'g sim_harness) option" where
  "harness_run agents h =
     (let h1 = h\<lparr>sh_trace := trace_record (sh_trace h) (mock_now_secs (sh_clock h)) ''harness'' ''run_start''
            (''seed='' @ show_u64 (sc_seed (sh_config h)) @ '' agents='' @ show_nat (length agents))\<rparr>
      in case run_agents agents h1 [] of
           None \<Rightarrow> None
         | Some (summaries, h2) \<Rightarrow>
             let h3 = h2\<lparr>sh_trace := trace_record (sh_trace h2) (mock_now_secs (sh_clock h2)) ''harness'' ''run_end''
                   (''ok='' @ show_bool (trace_ok (sh_trace h2)))\<rparr>
             in Some (\<lparr>rep_seed = sc_seed (sh_config h3), rep_trace = sh_trace h3, agent_summaries = summaries\<rparr>, h3))"

section \<open>The sweep\<close>

record sweep_config =
  start_seed :: u64
  max_seeds :: u64
  time_budget :: duration

definition sweep_config_default :: sweep_config where
  "sweep_config_default = \<lparr>start_seed = 1, max_seeds = 256, time_budget = from_secs 30\<rparr>"

text \<open>\<open>env\<close> is \<open>std::env::var\<close>: the text of a variable, when it is set and is Unicode.\<close>

definition from_env_or_default :: "(string \<Rightarrow> string option) \<Rightarrow> sweep_config" where
  "from_env_or_default env =
     (let cfg = sweep_config_default;
          cfg1 = (case env ''ADVERSARIAL_SWEEP_SEEDS'' of
                    None \<Rightarrow> cfg
                  | Some v \<Rightarrow> (case parse_u64 v of None \<Rightarrow> cfg | Some n \<Rightarrow> cfg\<lparr>max_seeds := n\<rparr>))
      in (case env ''ADVERSARIAL_SWEEP_BUDGET_SECS'' of
            None \<Rightarrow> cfg1
          | Some v \<Rightarrow> (case parse_u64 v of None \<Rightarrow> cfg1 | Some n \<Rightarrow> cfg1\<lparr>time_budget := from_secs n\<rparr>)))"

record sweep_report =
  seeds_run :: u64
  sw_failures :: "(u64 \<times> string) list"
  sw_elapsed :: duration
  hit_budget :: bool

definition sweep_ok :: "sweep_report \<Rightarrow> bool" where
  "sweep_ok r \<longleftrightarrow> sw_failures r = []"

definition duration_le :: "duration \<Rightarrow> duration \<Rightarrow> bool" where
  "duration_le a b \<longleftrightarrow> dur_secs a < dur_secs b \<or> dur_secs a = dur_secs b \<and> dur_nanos a \<le> dur_nanos b"

text \<open>
  \<open>for offset in 0..max_seeds\<close>: \<open>elapsed i\<close> is what \<open>started.elapsed()\<close> reads before the run of
  offset \<open>i\<close>.  The log line of a failure is not modelled.
\<close>

fun sweep_seeds ::
  "('g, 'vk) sim_env \<Rightarrow> (nat \<Rightarrow> duration) \<Rightarrow> sweep_config \<Rightarrow> nat list \<Rightarrow> sweep_report \<Rightarrow> sweep_report option" where
  "sweep_seeds E elapsed cfg [] r = Some r"
| "sweep_seeds E elapsed cfg (offset # offsets) r =
     (if duration_le (time_budget cfg) (elapsed offset) then Some (r\<lparr>hit_budget := True\<rparr>)
      else
        let s = start_seed cfg + word_of_nat offset;
            harness = harness_new E (with_seed sim_config_default s)
        in (case harness_run [ForgedProofAgent E, ReplayAgent E, RaceAgent E] harness of
              None \<Rightarrow> None
            | Some (report, _) \<Rightarrow>
                let r1 = r\<lparr>seeds_run := seeds_run r + 1\<rparr>
                in sweep_seeds E elapsed cfg offsets
                     (if report_ok report then r1
                      else r1\<lparr>sw_failures := sw_failures r1 @
                             [(s, case tr_failure (rep_trace report) of Some d \<Rightarrow> d | None \<Rightarrow> ''unknown failure'')]\<rparr>)))"

text \<open>\<open>ended\<close> is the last reading of the stopwatch.\<close>

definition run_adversarial_sweep ::
  "('g, 'vk) sim_env \<Rightarrow> (nat \<Rightarrow> duration) \<Rightarrow> duration \<Rightarrow> sweep_config \<Rightarrow> sweep_report option" where
  "run_adversarial_sweep E elapsed ended cfg =
     map_option (\<lambda>r. r\<lparr>sw_elapsed := ended\<rparr>)
       (sweep_seeds E elapsed cfg [0..<unat (max_seeds cfg)]
          \<lparr>seeds_run = 0, sw_failures = [], sw_elapsed = from_secs 0, hit_budget = False\<rparr>)"

end
