(* ===== verification/Sim_Laws.thy ===== *)
theory Sim_Laws
  imports Sim
begin

text \<open>
  The laws of the simulated world and of each agent: what the world's union of slots holds, and why
  no agent can report a violation.
\<close>

section \<open>Ordered maps\<close>

lemma map_of_btree_insert [table_simps]: "map_of (btree_insert k v kvs) = (map_of kvs)(k \<mapsto> v)"
  by (induction k v kvs rule: btree_insert.induct) (auto simp: fun_upd_twist)

lemma keys_btree_insert: "set (map fst (btree_insert k v kvs)) = insert k (set (map fst kvs))"
  by (induction k v kvs rule: btree_insert.induct) auto

lemma sorted_btree_insert:
  "sorted_wrt (<) (map fst kvs) \<Longrightarrow> sorted_wrt (<) (map fst (btree_insert k v kvs))"
proof (induction k v kvs rule: btree_insert.induct)
  case (2 k v k' v' kvs)
  have "x \<in> set (map fst (btree_insert k v kvs)) \<Longrightarrow> \<not> k < k' \<Longrightarrow> k \<noteq> k' \<Longrightarrow> k' < x" for x
    using 2(2) unfolding keys_btree_insert by auto
  then show ?case using 2 by auto
qed simp

lemma set_btree_insert_new:
  "map_of kvs k = None \<Longrightarrow> set (btree_insert k v kvs) = insert (k, v) (set kvs)"
  by (induction k v kvs rule: btree_insert.induct) (auto split: if_splits)

lemma sorted_keys_distinct: "sorted_wrt (<) (map fst (kvs :: ('k::linorder \<times> 'v) list)) \<Longrightarrow> distinct (map fst kvs)"
  by (simp add: strict_sorted_iff)

section \<open>The union of the devices\<close>

definition device_slots :: "sim_world \<Rightarrow> queued_slot list" where
  "device_slots w = concat (map (\<lambda>kd. dev_slots (snd kd)) (devices w))"

lemma foldl_concat_map: "foldl (\<lambda>a x. foldl f a (g x)) a xs = foldl f a (concat (map g xs))"
  by (induction xs arbitrary: a) auto

lemma merged_slots_fold: "merged_slots w = map snd (foldl insert_slot_by_id [] (device_slots w))"
  by (simp add: merged_slots_def device_slots_def foldl_concat_map)

lemma insert_slots_by_id:
  "set kvs \<subseteq> set (foldl insert_slot_by_id kvs slots) \<and>
   (\<forall>(i, s) \<in> set (foldl insert_slot_by_id kvs slots). (i, s) \<in> set kvs \<or> s \<in> set slots \<and> i = slot_message_id s) \<and>
   (\<forall>s \<in> set slots. \<exists>s'. (slot_message_id s, s') \<in> set (foldl insert_slot_by_id kvs slots))"
proof (induction slots arbitrary: kvs)
  case (Cons s slots)
  have step: "set kvs \<subseteq> set (insert_slot_by_id kvs s)"
    "set (insert_slot_by_id kvs s) \<subseteq> insert (slot_message_id s, s) (set kvs)"
    "\<exists>s'. (slot_message_id s, s') \<in> set (insert_slot_by_id kvs s)"
    by (auto simp: insert_slot_by_id_def set_btree_insert_new dest: map_of_SomeD split: option.splits)
  show ?case using Cons.IH [of "insert_slot_by_id kvs s"] step by simp fast
qed simp

text \<open>When an id stands for one slot only, the union loses nothing.\<close>

lemma set_merged_slots:
  assumes "inj_on slot_message_id (set (device_slots w))"
  shows "set (merged_slots w) = set (device_slots w)"
proof -
  note by_id = insert_slots_by_id [of "[]" "device_slots w"]
  let ?kvs = "foldl insert_slot_by_id [] (device_slots w)"
  have sub: "s \<in> set (device_slots w) \<and> i = slot_message_id s" if "(i, s) \<in> set ?kvs" for i s
    using by_id that by fastforce
  have "s \<in> snd ` set ?kvs" if s: "s \<in> set (device_slots w)" for s
  proof -
    obtain s' where s': "(slot_message_id s, s') \<in> set ?kvs" using by_id s by blast
    then have "s' = s" using sub [OF s'] s assms by (auto dest: inj_onD)
    then show ?thesis using s' by force
  qed
  then show ?thesis using sub by (auto simp: merged_slots_fold)
qed

section \<open>Worlds without stray slots\<close>

definition world_ok :: "sim_world \<Rightarrow> bool" where
  "world_ok w \<longleftrightarrow> sorted_wrt (<) (map fst (devices w)) \<and>
     (\<forall>(k, d) \<in> set (devices w). k \<noteq> ''race-0'' \<and> k \<noteq> ''race-1'' \<longrightarrow> dev_slots d = [])"

lemma world_ok_new: "world_ok (world_new account sequence)"
  by (simp add: world_ok_def world_new_def)

lemma device_of: "world_ok w \<Longrightarrow> (k, d) \<in> set (devices w) \<longleftrightarrow> map_of (devices w) k = Some d"
  by (simp add: world_ok_def sorted_keys_distinct)

lemma world_ok_slots:
  assumes "world_ok w"
  shows "set (device_slots w) = (\<Union>k \<in> {''race-0'', ''race-1''}. set (dev_slots (ensure_device w k)))"
proof
  show "set (device_slots w) \<subseteq> (\<Union>k \<in> {''race-0'', ''race-1''}. set (dev_slots (ensure_device w k)))"
  proof
    fix s assume "s \<in> set (device_slots w)"
    then obtain k d where kd: "(k, d) \<in> set (devices w)" "s \<in> set (dev_slots d)"
      by (auto simp: device_slots_def)
    then have "k = ''race-0'' \<or> k = ''race-1''" using assms by (fastforce simp: world_ok_def)
    moreover have "ensure_device w k = d" using kd(1) device_of [OF assms] by (simp add: ensure_device_def)
    ultimately show "s \<in> (\<Union>k \<in> {''race-0'', ''race-1''}. set (dev_slots (ensure_device w k)))" using kd(2) by auto
  qed
  have "set (dev_slots (ensure_device w k)) \<subseteq> set (device_slots w)" for k
    using device_of [OF assms] by (force simp: ensure_device_def device_slots_def split: option.splits)
  then show "(\<Union>k \<in> {''race-0'', ''race-1''}. set (dev_slots (ensure_device w k))) \<subseteq> set (device_slots w)" by blast
qed

lemma ensure_update_device:
  "ensure_device (update_device w i f) k = (if k = i then f (ensure_device w i) else ensure_device w k)"
  by (simp add: ensure_device_def update_device_def map_of_btree_insert)

lemma world_ok_update:
  assumes "world_ok w" and "i = ''race-0'' \<or> i = ''race-1'' \<or> dev_slots (f (ensure_device w i)) = []"
  shows "world_ok (update_device w i f)"
proof -
  have sorted: "sorted_wrt (<) (map fst (devices (update_device w i f)))"
    using assms(1) by (simp add: world_ok_def update_device_def sorted_btree_insert)
  have "dev_slots d = []"
    if d: "(k, d) \<in> set (devices (update_device w i f))" and k: "k \<noteq> ''race-0''" "k \<noteq> ''race-1''" for k d
  proof -
    have "map_of (devices (update_device w i f)) k = Some d"
      using d sorted_keys_distinct [OF sorted] by simp
    then have "(if k = i then Some (f (ensure_device w i)) else map_of (devices w) k) = Some d"
      by (simp add: update_device_def map_of_btree_insert)
    then show ?thesis using assms k device_of [OF assms(1)]
      by (fastforce simp: world_ok_def split: if_splits)
  qed
  then show ?thesis using sorted by (auto simp: world_ok_def)
qed

lemma world_ok_no_slots: "world_ok w \<Longrightarrow> i \<noteq> ''race-0'' \<Longrightarrow> i \<noteq> ''race-1'' \<Longrightarrow> dev_slots (ensure_device w i) = []"
  using device_of [of w i] by (fastforce simp: ensure_device_def world_ok_def split: option.splits)

section \<open>The resolver under few observations\<close>

lemma resolve_conflict_result:
  "(\<exists>w. resolve_conflict hex from_key verify c e = Inr w) \<or> (\<exists>s. resolve_conflict hex from_key verify c e = Inl (UnresolvedConflict s))"
  by (auto simp: resolve_conflict_def Let_def)

lemma valid_relays_subset: "valid_relays from_key verify Obs sq tx \<subseteq> relay_pubkey ` {ob \<in> Obs. observation_verifies from_key verify tx ob}"
  by (force simp: valid_relays_def observation_verifies_def)

lemma lone_observation: "card (valid_relays from_key verify {ob} sq tx) \<le> 1"
proof -
  have "valid_relays from_key verify {ob} sq tx \<subseteq> {relay_pubkey ob}"
    using valid_relays_subset [of from_key verify "{ob}" sq tx] by auto
  from card_mono [OF _ this] show ?thesis by simp
qed

lemma no_observations [simp]: "valid_relays from_key verify {} sq tx = {}"
  by (simp add: valid_relays_def)

section \<open>The agents\<close>

text \<open>A proof made for one message verifies for no other.\<close>

definition proofs_bound :: "('g, 'vk) sim_env \<Rightarrow> bool" where
  "proofs_bound E \<longleftrightarrow> (\<forall>key mid chain sq mid' vk. mid \<noteq> mid' \<longrightarrow> \<not> proof_verifies E (sign_proof E key mid chain sq) vk mid')"

text \<open>Three draws in a row differ, and the two tagged ids do.\<close>

definition fresh_draws :: "('g, 'vk) sim_env \<Rightarrow> bool" where
  "fresh_draws E \<longleftrightarrow>
     (\<forall>g. fst (fill_bytes32 E g) \<noteq> fst (fill_bytes32 E (snd (fill_bytes32 E g))) \<and>
          fst (fill_bytes32 E g) \<noteq> fst (fill_bytes32 E (snd (fill_bytes32 E (snd (fill_bytes32 E g))))) \<and>
          fst (tagged_message_id E 0xA1 g) \<noteq> fst (tagged_message_id E 0xB2 (snd (tagged_message_id E 0xA1 g))))"

definition shuffle_permutes :: "('g, 'vk) sim_env \<Rightarrow> bool" where
  "shuffle_permutes E \<longleftrightarrow> (\<forall>g slots. mset (fst (shuffle_slots E g slots)) = mset slots)"

definition env_ok :: "('g, 'vk) sim_env \<Rightarrow> bool" where
  "env_ok E \<longleftrightarrow> proofs_bound E \<and> fresh_draws E \<and> shuffle_permutes E \<and> rearranges (hash_order E)"

text \<open>What every turn keeps: the verdict so far, and a world without stray slots.\<close>

definition turn_ok :: "'g agent_ctx \<Rightarrow> (agent_outcome \<times> 'g agent_ctx) option \<Rightarrow> bool" where
  "turn_ok ctx result \<longleftrightarrow>
     (\<exists>summary ctx'. result = Some (Defended summary, ctx') \<and>
        tr_failure (ctx_trace ctx') = tr_failure (ctx_trace ctx) \<and>
        (world_ok (ctx_world ctx) \<longrightarrow> world_ok (ctx_world ctx')))"

lemma forged_prepare_conflict:
  assumes "fresh_draws E"
  shows "\<exists>s g c. forged_prepare E ctx = (s, g) \<and> fs_conflict s = Some c \<and> envelope_a c = fs_honest_a s \<and>
    envelope_a c \<noteq> envelope_b c \<and>
    envelope_b_observations (fs_evidence s) = [fs_cross_wired s, fs_sybil_obs s] \<and>
    (\<exists>key chain sq. obs_proof (fs_cross_wired s) = sign_proof E key (envelope_a c) chain sq)"
proof -
  obtain a g1 where a: "tagged_message_id E 0xA1 (ctx_rng ctx) = (a, g1)" by fastforce
  obtain b g2 where b: "tagged_message_id E 0xB2 g1 = (b, g2)" by fastforce
  obtain r1 g3 where r1: "key_from_rng E g2 = (r1, g3)" by fastforce
  obtain r2 g4 where r2: "key_from_rng E g3 = (r2, g4)" by fastforce
  obtain ch g5 where ch: "fill_bytes32 E g4 = (ch, g5)" by fastforce
  obtain sy g6 where sy: "key_from_rng E g5 = (sy, g6)" by fastforce
  have "fst (tagged_message_id E 0xA1 (ctx_rng ctx)) \<noteq>
      fst (tagged_message_id E 0xB2 (snd (tagged_message_id E 0xA1 (ctx_rng ctx))))"
    using assms unfolding fresh_draws_def by blast
  then have "a \<noteq> b" by (simp add: a b)
  then show ?thesis
    unfolding forged_prepare_def a b r1 r2 ch sy Let_def prod.case
    by (auto simp: conflicts_between_def queued_slot_of_def)
qed

lemma forged_proof_turn:
  assumes "proofs_bound E" and "fresh_draws E"
  shows "turn_ok ctx (forged_proof_act E ctx)"
proof -
  obtain s g c key chain sq where s: "forged_prepare E ctx = (s, g)" and c: "fs_conflict s = Some c"
    "envelope_a c = fs_honest_a s" "envelope_a c \<noteq> envelope_b c"
    "envelope_b_observations (fs_evidence s) = [fs_cross_wired s, fs_sybil_obs s]"
    "obs_proof (fs_cross_wired s) = sign_proof E key (envelope_a c) chain sq"
    using forged_prepare_conflict [OF assms(2), of ctx] by blast
  let ?r = "resolve_conflict (hex32 E) (key_of_bytes E) (proof_verifies E) c (fs_evidence s)"
  have "\<not> observation_verifies (key_of_bytes E) (proof_verifies E) (envelope_b c) (fs_cross_wired s)"
    using assms(1) c(3,5) by (auto simp: proofs_bound_def observation_verifies_def split: option.splits)
  then have "valid_relays (key_of_bytes E) (proof_verifies E) (set (envelope_b_observations (fs_evidence s)))
      (c_sequence c) (envelope_b c) \<subseteq> {relay_pubkey (fs_sybil_obs s)}"
    using valid_relays_subset [of "key_of_bytes E" "proof_verifies E" _ "c_sequence c" "envelope_b c"] c(4) by fastforce
  from card_mono [OF _ this] have "weight_b (key_of_bytes E) (proof_verifies E) c (fs_evidence s) \<le> 1"
    by (simp add: weight_b_def)
  then have "?r = Inr w \<Longrightarrow> w = fs_honest_a s" for w
    using c(2) by (auto simp: resolve_conflict_Inr)
  then show ?thesis
    using resolve_conflict_result [of "hex32 E" "key_of_bytes E" "proof_verifies E" c "fs_evidence s"]
    by (auto simp: turn_ok_def forged_proof_act_def s c(1) Let_def trace_record_def)
qed

lemma xor_byte32_differs: "xor_byte32 w 0 0xff \<noteq> w"
proof
  assume "xor_byte32 w 0 0xff = w"
  then have "w XOR (w XOR push_bit 248 0xff) = w XOR w" by (simp add: xor_byte32_def)
  then have "push_bit 248 (0xff :: bytes32) = 0" by (simp flip: xor.assoc)
  then show False by (simp add: push_bit_eq_mult)
qed

lemma lone_evidence_unresolved:
  assumes "e = \<lparr>envelope_a_timestamp = t, envelope_b_timestamp = u, envelope_a_observations = [ob], envelope_b_observations = []\<rparr>"
  shows "\<exists>s. resolve_conflict hex from_key verify c e = Inl (UnresolvedConflict s)"
proof -
  have "weight_a from_key verify c e \<le> 1" "weight_b from_key verify c e = 0"
    using lone_observation [of from_key verify ob "c_sequence c" "envelope_a c"]
    by (simp_all add: assms weight_a_def weight_b_def)
  then have "resolve_conflict hex from_key verify c e \<noteq> Inr w" for w
    by (auto simp: resolve_conflict_Inr)
  then show ?thesis using resolve_conflict_result by blast
qed

lemma replay_turn: "turn_ok ctx (replay_act E ctx)"
proof -
  obtain a g1 where a: "fill_bytes32 E (ctx_rng ctx) = (a, g1)" by fastforce
  obtain b0 g2 where b0: "fill_bytes32 E g1 = (b0, g2)" by fastforce
  obtain r g3 where r: "key_from_rng E g2 = (r, g3)" by fastforce
  define b where "b = (if a = b0 then xor_byte32 b0 0 0xff else b0)"
  have ab: "a \<noteq> b" unfolding b_def using xor_byte32_differs [of b0] by metis
  have con: "\<exists>c. conflicts_between (queued_slot_of acc sq a) (queued_slot_of acc sq b) = Some c" for acc sq
    using ab by (simp add: conflicts_between_def queued_slot_of_def)
  obtain c1 c2 where c: "conflicts_between (queued_slot_of (w_account (ctx_world ctx)) (w_sequence (ctx_world ctx)) a)
      (queued_slot_of (w_account (ctx_world ctx)) (w_sequence (ctx_world ctx)) b) = Some c1"
    "conflicts_between (queued_slot_of (w_account (ctx_world ctx)) (w_sequence (ctx_world ctx) + 1) a)
      (queued_slot_of (w_account (ctx_world ctx)) (w_sequence (ctx_world ctx) + 1) b) = Some c2"
    using con by blast
  let ?e = "\<lambda>ob. \<lparr>envelope_a_timestamp = mock_now_secs (ctx_clock ctx), envelope_b_timestamp = mock_now_secs (ctx_clock ctx),
      envelope_a_observations = [ob], envelope_b_observations = []\<rparr>"
  have unres: "(case resolve_conflict (hex32 E) (key_of_bytes E) (proof_verifies E) cc (?e ob) of
      Inl (UnresolvedConflict _) \<Rightarrow> True | _ \<Rightarrow> False)" for cc ob
    using lone_evidence_unresolved [of "?e ob" _ _ ob "hex32 E" "key_of_bytes E" "proof_verifies E" cc] by auto
  have stays: "world_ok w \<Longrightarrow> world_ok (update_device (w\<lparr>observation_accepted_at := x\<rparr>) ''replay-victim''
      (\<lambda>d. d\<lparr>dev_observations := y d\<rparr>))" for w x y
  proof (rule world_ok_update)
    assume w: "world_ok w"
    then show w1: "world_ok (w\<lparr>observation_accepted_at := x\<rparr>)" by (simp add: world_ok_def)
    show "''replay-victim'' = ''race-0'' \<or> ''replay-victim'' = ''race-1'' \<or>
        dev_slots ((ensure_device (w\<lparr>observation_accepted_at := x\<rparr>) ''replay-victim'')
          \<lparr>dev_observations := y (ensure_device (w\<lparr>observation_accepted_at := x\<rparr>) ''replay-victim'')\<rparr>) = []"
      using world_ok_no_slots [OF w1, of "''replay-victim''"] by simp
  qed
  show ?thesis
    unfolding turn_ok_def replay_act_def a b0 r Let_def prod.case b_def [symmetric] c option.case
    using unres stays by (simp add: trace_record_def)
qed

section \<open>The race\<close>

lemma draw_unique_fresh:
  assumes "fst (fill_bytes32 E g) \<notin> set ids"
  shows "draw_unique E ids g = Some (fill_bytes32 E g)"
  using assms by (subst draw_unique.simps) simp

lemma draw_three:
  assumes "fresh_draws E"
  shows "\<exists>a b c g'. draw_ids E 3 [] g = Some ([a, b, c], g') \<and> distinct [a, b, c]"
proof -
  obtain a g1 where a: "fill_bytes32 E g = (a, g1)" by fastforce
  obtain b g2 where b: "fill_bytes32 E g1 = (b, g2)" by fastforce
  obtain c g3 where c: "fill_bytes32 E g2 = (c, g3)" by fastforce
  have "a \<noteq> b" "a \<noteq> c" "b \<noteq> c"
    using assms [unfolded fresh_draws_def, rule_format, of g] assms [unfolded fresh_draws_def, rule_format, of g1]
    by (simp_all add: a b c)
  then show ?thesis
    by (simp add: numeral_3_eq_3 draw_unique_fresh a b c)
qed

lemma claimants_slots:
  "claimants (set (map (queued_slot_of account sq) ids)) k = (if k = (account, sq) then set ids else {})"
  by (force simp: claimants_def slot_key_def queued_slot_of_def)

lemma distinct_single: "distinct xs \<Longrightarrow> set xs = {x} \<Longrightarrow> xs = [x]"
  by (cases xs) (auto simp: subset_singleton_iff dest: subset_insertI2)

lemma conflicts_of_three:
  assumes "rearranges order" and "a < b" and "b < (c :: bytes32)"
  shows "length (detect_conflicts order (map (queued_slot_of account sq) [a, b, c])) = 3"
proof -
  let ?slots = "map (queued_slot_of account sq) [a, b, c]"
  let ?c = "\<lambda>x y. \<lparr>c_source_account = account, c_sequence = sq, envelope_a = x, envelope_b = y\<rparr>"
  have "x \<in> set (detect_conflicts order ?slots) \<longleftrightarrow> x \<in> {?c a b, ?c a c, ?c b c}" for x
    unfolding set_detect_conflicts [OF assms(1)] claimants_slots
    using assms(2,3) by (cases x) auto
  then have "set (detect_conflicts order ?slots) = {?c a b, ?c a c, ?c b c}" by blast
  moreover have "distinct (detect_conflicts order ?slots)"
    using distinct_conflicts [OF assms(1)] by (simp add: detect_conflicts_def)
  ultimately have "length (detect_conflicts order ?slots) = card {?c a b, ?c a c, ?c b c}"
    by (metis distinct_card)
  moreover have "a \<noteq> b" "a \<noteq> c" "b \<noteq> c" using assms(2,3) by auto
  ultimately show ?thesis by (simp add: card_insert_if)
qed

lemma nway_of_three:
  assumes "rearranges order" and "a < b" and "b < (c :: bytes32)"
  shows "detect_nway_conflicts order (map (queued_slot_of account sq) [a, b, c]) =
    [\<lparr>n_source_account = account, n_sequence = sq, message_ids = [a, b, c]\<rparr>]"
proof -
  let ?slots = "map (queued_slot_of account sq) [a, b, c]"
  let ?n = "\<lparr>n_source_account = account, n_sequence = sq, message_ids = [a, b, c]\<rparr>"
  have "sorted_wrt (<) [a, b, c]" using assms(2,3) by auto
  then have list: "sorted_list_of_set (set [a, b, c]) = [a, b, c]" by (metis sorted_list_of_set_unique finite_set distinct_card strict_sorted_iff)
  have "a \<noteq> b" "a \<noteq> c" "b \<noteq> c" using assms(2,3) by auto
  then have card: "card (set [a, b, c]) = 3" by simp
  have "n \<in> set (detect_nway_conflicts order ?slots) \<longleftrightarrow> n = ?n" for n
    unfolding set_detect_nway [OF assms(1)] claimants_slots
    using list card by (cases n) auto
  then have "set (detect_nway_conflicts order ?slots) = {?n}" by blast
  moreover have "distinct (detect_nway_conflicts order ?slots)"
    using distinct_nway [OF assms(1)] by (simp add: detect_nway_conflicts_def)
  ultimately show ?thesis by (intro distinct_single)
qed

lemma length_three: "length xs = 3 \<Longrightarrow> \<exists>x y z. xs = [x, y, z]"
  by (auto simp: numeral_3_eq_3 length_Suc_conv)

lemma sorted_three:
  assumes "distinct [a, b, c :: bytes32]"
  obtains x y z where "sort [a, b, c] = [x, y, z]" and "x < y" and "y < z"
proof -
  obtain x y z where xyz: "sort [a, b, c] = [x, y, z]"
    using length_three [of "sort [a, b, c]", unfolded length_sort] by fastforce
  have "sorted [x, y, z]" "distinct [x, y, z]"
    using sorted_sort [of "[a, b, c]"] distinct_sort [of "\<lambda>x. x" "[a, b, c]"] assms unfolding xyz by simp_all
  then have "x < y" "y < z" by (auto simp: less_le)
  then show thesis using that xyz by blast
qed

text \<open>The two racing devices hold the shuffled slots between them.\<close>

lemma race_world:
  assumes "world_ok w" and "mset (first # others) = mset (map (queued_slot_of account sq) ids)"
  defines "w2 \<equiv> update_device (update_device w ''race-0'' (\<lambda>d. d\<lparr>dev_slots := [first]\<rparr>)) ''race-1'' (\<lambda>d. d\<lparr>dev_slots := others\<rparr>)"
  shows "world_ok w2" and "set (merged_slots w2) = set (map (queued_slot_of account sq) ids)"
proof -
  show w2: "world_ok w2" unfolding w2_def by (intro world_ok_update assms(1)) simp_all
  have all: "set (first # others) = set (map (queued_slot_of account sq) ids)"
    using assms(2) by (rule mset_eq_setD)
  have dev: "set (device_slots w2) = set (first # others)"
    using world_ok_slots [OF w2] by (simp add: w2_def ensure_update_device)
  have "inj_on slot_message_id (set (device_slots w2))"
    unfolding dev all by (auto simp: inj_on_def queued_slot_of_def)
  from set_merged_slots [OF this] show "set (merged_slots w2) = set (map (queued_slot_of account sq) ids)"
    unfolding dev all .
qed

lemma race_turn:
  assumes "fresh_draws E" and "shuffle_permutes E" and ord: "rearranges (hash_order E)"
    and w: "world_ok (ctx_world ctx)"
  shows "turn_ok ctx (race_act E ctx)"
proof -
  let ?account = "w_account (ctx_world ctx)" and ?sq = "w_sequence (ctx_world ctx)"
  obtain a b c g1 where drawn: "draw_ids E 3 [] (ctx_rng ctx) = Some ([a, b, c], g1)" and "distinct [a, b, c]"
    using draw_three [OF assms(1)] by metis
  then obtain x y z where ids: "sort [a, b, c] = [x, y, z]" "x < y" "y < z" using sorted_three by blast
  let ?canon = "map (queued_slot_of ?account ?sq) [x, y, z]"
  obtain shuffled g2 where sh: "shuffle_slots E g1 ?canon = (shuffled, g2)" by fastforce
  have perm: "mset shuffled = mset ?canon" using assms(2) sh unfolding shuffle_permutes_def by (metis fst_conv)
  then obtain first others where sh2: "shuffled = first # others" by (cases shuffled) auto
  define w2 where "w2 = update_device (update_device (ctx_world ctx) ''race-0'' (\<lambda>d. d\<lparr>dev_slots := [first]\<rparr>))
    ''race-1'' (\<lambda>d. d\<lparr>dev_slots := others\<rparr>)"
  have world: "world_ok w2" "set (merged_slots w2) = set ?canon"
    unfolding w2_def using race_world [OF w perm [unfolded sh2]] by auto
  have rev: "set (rev ?canon) = set ?canon" by (rule set_rev)
  have same: "detect_conflicts (hash_order E) (merged_slots w2) = detect_conflicts (hash_order E) ?canon"
    "detect_nway_conflicts (hash_order E) (merged_slots w2) = detect_nway_conflicts (hash_order E) ?canon"
    "detect_conflicts (hash_order E) (rev ?canon) = detect_conflicts (hash_order E) ?canon"
    "detect_nway_conflicts (hash_order E) (rev ?canon) = detect_nway_conflicts (hash_order E) ?canon"
    by (rule detect_conflicts_set [OF ord ord world(2)] detect_nway_set [OF ord ord world(2)]
        detect_conflicts_set [OF ord ord rev] detect_nway_set [OF ord ord rev])+
  note three = conflicts_of_three [OF ord ids(2,3), of ?account ?sq] nway_of_three [OF ord ids(2,3), of ?account ?sq]
  show ?thesis
    unfolding turn_ok_def race_act_def drawn Let_def option.case prod.case ids sh sh2 list.case
      w2_def [symmetric] same three
    using world(1) by (simp add: trace_record_def)
qed

section \<open>The harness\<close>

lemma agent_turn:
  assumes "env_ok E" and "world_ok (ctx_world ctx)" and "agent \<in> {ForgedProofAgent E, ReplayAgent E, RaceAgent E}"
  shows "turn_ok ctx (agent_act agent ctx)"
  using assms forged_proof_turn replay_turn race_turn
  by (auto simp: env_ok_def ForgedProofAgent_def ReplayAgent_def RaceAgent_def)

text \<open>
  What the harness relies on of the implementations of \<open>AdversarialAgent\<close> it is given: every turn
  is defended and leaves the verdict and the world in order.
\<close>

locale defended_agents =
  fixes pool :: "('g, 'vk) sim_env \<Rightarrow> 'g adversarial_agent set"
  assumes turn: "env_ok E \<Longrightarrow> world_ok (ctx_world ctx) \<Longrightarrow> agent \<in> pool E \<Longrightarrow> turn_ok ctx (agent_act agent ctx)"
begin

lemma run_agents_defended:
  "env_ok E \<Longrightarrow> world_ok (sh_world h) \<Longrightarrow> set agents \<subseteq> pool E \<Longrightarrow>
     trace_ok (sh_trace h) \<Longrightarrow>
     \<exists>more h'. run_agents agents h summaries = Some (summaries @ more, h') \<and>
       map fst more = map agent_name agents \<and> trace_ok (sh_trace h') \<and> sh_config h' = sh_config h"
proof (induction agents arbitrary: h summaries)
  case (Cons agent agents)
  let ?ctx = "\<lparr>ctx_seed = sc_seed (sh_config h), ctx_rng = sh_rng h, ctx_clock = sh_clock h,
    ctx_world = sh_world h, ctx_trace = sh_trace h\<rparr>"
  have "turn_ok ?ctx (agent_act agent ?ctx)" using Cons.prems by (intro turn) auto
  then obtain summary ctx where turn: "agent_act agent ?ctx = Some (Defended summary, ctx)"
    "trace_ok (ctx_trace ctx)" "world_ok (ctx_world ctx)"
    using Cons.prems(2,4) by (auto simp: turn_ok_def trace_ok_def)
  let ?h = "h\<lparr>sh_rng := ctx_rng ctx, sh_world := ctx_world ctx, sh_trace := ctx_trace ctx, sh_clock := mock_advance (ctx_clock ctx) 1\<rparr>"
  obtain more h' where "run_agents agents ?h (summaries @ [(agent_name agent, summary)]) =
      Some ((summaries @ [(agent_name agent, summary)]) @ more, h')"
    "map fst more = map agent_name agents" "trace_ok (sh_trace h')" "sh_config h' = sh_config h"
    using Cons.IH [of ?h "summaries @ [(agent_name agent, summary)]"] Cons.prems turn(2,3) by auto
  then show ?case using turn(1) by (intro exI [of _ "(agent_name agent, summary) # more"] exI [of _ h']) (simp add: Let_def)
qed simp

lemma harness_run_defended:
  assumes "env_ok E" and "set agents \<subseteq> pool E"
  shows "\<exists>report h. harness_run agents (harness_new E cfg) = Some (report, h) \<and> report_ok report \<and>
    rep_seed report = sc_seed cfg \<and> map fst (agent_summaries report) = map agent_name agents"
proof -
  let ?h = "harness_new E cfg"
  let ?h1 = "?h\<lparr>sh_trace := trace_record (sh_trace ?h) (mock_now_secs (sh_clock ?h)) ''harness'' ''run_start''
            (''seed='' @ show_u64 (sc_seed (sh_config ?h)) @ '' agents='' @ show_nat (length agents))\<rparr>"
  have "world_ok (sh_world ?h1)" "trace_ok (sh_trace ?h1)" and cfg: "sh_config ?h1 = cfg"
    by (simp_all add: harness_new_def world_ok_new trace_ok_def trace_record_def trace_default_def)
  then obtain more h' where "run_agents agents ?h1 [] = Some ([] @ more, h')"
    "map fst more = map agent_name agents" "trace_ok (sh_trace h')" "sh_config h' = cfg"
    using run_agents_defended [OF assms(1) _ assms(2), of ?h1 "[]"] by metis
  then show ?thesis
    by (simp add: harness_run_def Let_def report_ok_def trace_ok_def trace_record_def)
qed

end

interpretation three: defended_agents "\<lambda>E. {ForgedProofAgent E, ReplayAgent E, RaceAgent E}"
  by unfold_locales (rule agent_turn)

end
