(* ===== verification/Sim_Properties.thy ===== *)
theory Sim_Properties
  imports Sim_Laws
begin

text \<open>
  The simulation end to end: no run of the adversarial agents against the detector and the
  resolver reports a violation, whatever the seed.
\<close>

text \<open>
  Whatever agents of the three are run, in whatever order and number, on whatever seed and
  account: the run ends, no agent panics, every attack is defended and no invariant violation is
  recorded.  Assumed of the environment: a relay proof made for one message verifies for no
  other, three random draws in a row differ, shuffling permutes, and the hash map iterates over
  its entries.
\<close>

theorem adversarial_run_defended:
  assumes "env_ok E" and "set agents \<subseteq> {ForgedProofAgent E, ReplayAgent E, RaceAgent E}"
  shows "\<exists>report h. harness_run agents (harness_new E cfg) = Some (report, h) \<and> report_ok report \<and>
    rep_seed report = sc_seed cfg \<and> map fst (agent_summaries report) = map agent_name agents"
  by (rule three.harness_run_defended [OF assms])

definition sample_env :: "(bytes32, bytes32) sim_env" where
  "sample_env = \<lparr>seed_from_u64 = ucast, fill_bytes32 = (\<lambda>g. (g, g + 2)), shuffle_slots = (\<lambda>g xs. (rev xs, g)),
     hex32 = (\<lambda>w. show_nat (unat w)), hex64 = (\<lambda>w. show_nat (unat w)), verifying_key_bytes = id,
     sign_proof = (\<lambda>key mid chain sq. \<lparr>chain_hash = chain, proof_sequence = sq, proof_signature = ucast mid\<rparr>),
     key_of_bytes = Some, proof_verifies = (\<lambda>p vk mid. proof_signature p = ucast mid), hash_order = rev,
     error_debug = id\<rparr>"

lemma parity_of_bytes: "0 < n \<Longrightarrow> odd (of_be_bytes (replicate n b)) \<longleftrightarrow> odd (unat b)"
  by (cases n) (simp_all add: of_be_bytes_def replicate_append_same)

lemma sample_tags: "odd (of_be_bytes (replicate 32 0xA1))" "even (of_be_bytes (replicate 32 0xB2))"
  using parity_of_bytes [of 32 "0xA1"] parity_of_bytes [of 32 "0xB2"] by simp_all

lemma ucast_512: "ucast (x :: bytes32) = (ucast y :: 512 word) \<longleftrightarrow> x = y"
proof
  assume "ucast x = (ucast y :: 512 word)"
  then have "(ucast (ucast x :: 512 word) :: bytes32) = ucast (ucast y :: 512 word)" by simp
  then show "x = y" by (simp add: ucast_up_ucast_id is_up)
qed simp

lemma sample_env_ok: "env_ok sample_env"
proof -
  have bound: "proofs_bound sample_env"
    by (simp add: proofs_bound_def sample_env_def ucast_512)
  have "fst (tagged_message_id sample_env 0xA1 g) \<noteq>
      fst (tagged_message_id sample_env 0xB2 (snd (tagged_message_id sample_env 0xA1 g)))" for g
  proof
    let ?A = "word_of_nat (of_be_bytes (replicate 32 0xA1)) :: bytes32"
    let ?B = "word_of_nat (of_be_bytes (replicate 32 0xB2)) :: bytes32"
    assume "fst (tagged_message_id sample_env 0xA1 g) =
      fst (tagged_message_id sample_env 0xB2 (snd (tagged_message_id sample_env 0xA1 g)))"
    then have "?A XOR g = ?B XOR (g + 2)" by (simp add: tagged_message_id_def sample_env_def)
    then have "bit (?A XOR g) 0 = bit (?B XOR (g + 2)) 0" by simp
    then show False using sample_tags by (simp add: bit_xor_iff bit_0 even_xor_iff)
  qed
  moreover have "(g :: bytes32) \<noteq> g + 2 + 2" "g \<noteq> g + 2" for g by (simp_all add: add.assoc)
  ultimately have "fresh_draws sample_env"
    unfolding fresh_draws_def by (simp add: sample_env_def)
  then show ?thesis using bound by (simp add: env_ok_def shuffle_permutes_def rearranges_def sample_env_def)
qed

theorem adversarial_run_defended_witness:
  "\<exists>report h. harness_run [RaceAgent sample_env, ForgedProofAgent sample_env, RaceAgent sample_env, ReplayAgent sample_env]
      (harness_new sample_env sim_config_default) = Some (report, h) \<and> report_ok report"
  using adversarial_run_defended [OF sample_env_ok, of "[RaceAgent sample_env, ForgedProofAgent sample_env,
      RaceAgent sample_env, ReplayAgent sample_env]" sim_config_default] by auto

section \<open>Sweeps\<close>

lemma sweep_seeds_clean:
  assumes "env_ok E"
  shows "\<exists>n \<le> length offsets. sweep_seeds E elapsed cfg offsets r =
    Some (r\<lparr>seeds_run := seeds_run r + word_of_nat n,
            hit_budget := hit_budget r \<or> n < length offsets\<rparr>) \<and>
    (\<forall>i < n. \<not> duration_le (time_budget cfg) (elapsed (offsets ! i))) \<and>
    (n < length offsets \<longrightarrow> duration_le (time_budget cfg) (elapsed (offsets ! n)))"
proof (induction offsets arbitrary: r)
  case Nil
  show ?case by simp
next
  case (Cons i offsets)
  show ?case
  proof (cases "duration_le (time_budget cfg) (elapsed i)")
    case True
    then show ?thesis by (intro exI [of _ 0]) simp
  next
    case False
    obtain report h where "harness_run [ForgedProofAgent E, ReplayAgent E, RaceAgent E]
        (harness_new E (with_seed sim_config_default (start_seed cfg + word_of_nat i))) = Some (report, h)"
      "report_ok report"
      using three.harness_run_defended [OF assms, of "[ForgedProofAgent E, ReplayAgent E, RaceAgent E]"
        "with_seed sim_config_default (start_seed cfg + word_of_nat i)"] by auto
    then have step: "sweep_seeds E elapsed cfg (i # offsets) r =
        sweep_seeds E elapsed cfg offsets (r\<lparr>seeds_run := seeds_run r + 1\<rparr>)"
      using False by (simp add: Let_def)
    obtain n where n: "n \<le> length offsets"
      "sweep_seeds E elapsed cfg offsets (r\<lparr>seeds_run := seeds_run r + 1\<rparr>) =
        Some (r\<lparr>seeds_run := seeds_run r + 1 + word_of_nat n, hit_budget := hit_budget r \<or> n < length offsets\<rparr>)"
      "\<forall>j < n. \<not> duration_le (time_budget cfg) (elapsed (offsets ! j))"
      "n < length offsets \<longrightarrow> duration_le (time_budget cfg) (elapsed (offsets ! n))"
      using Cons [of "r\<lparr>seeds_run := seeds_run r + 1\<rparr>"] by auto
    show ?thesis
      by (intro exI [of _ "Suc n"]) (use n step False in \<open>auto simp: less_Suc_eq_0_disj add.assoc\<close>)
  qed
qed



end
