(* ===== verification/Hex_Codec.thy ===== *)
theory Hex_Codec
  imports Text_Laws
begin

text \<open>
  The hexadecimal text of the \<open>hex\<close> crate, which the command line tool and the C interface
  exchange identifiers in, is a parameter with its documented behaviour: decoding what was
  encoded gives the bytes back, and the text consists of the digits of the base.  The lower-case
  encoding of the crate's documentation shows that the two can hold.
\<close>

record hex_codec =
  hex_enc :: "bytes \<Rightarrow> string"
  hex_dec :: "string \<Rightarrow> bytes option"

definition hex_digits :: string where
  "hex_digits = ''0123456789abcdef''"

definition hex_ok :: "hex_codec \<Rightarrow> bool" where
  "hex_ok H \<longleftrightarrow> (\<forall>bs. hex_dec H (hex_enc H bs) = Some bs \<and> set (hex_enc H bs) \<subseteq> set hex_digits)"

lemma hex_ok_dec [simp]: "hex_ok H \<Longrightarrow> hex_dec H (hex_enc H bs) = Some bs"
  by (simp add: hex_ok_def)

lemma hex_ok_inj: "hex_ok H \<Longrightarrow> hex_enc H bs = hex_enc H cs \<longleftrightarrow> bs = cs"
  by (metis hex_ok_dec option.inject)

lemma hex_ok_char: "hex_ok H \<Longrightarrow> c \<in> set (hex_enc H bs) \<Longrightarrow> c \<in> set hex_digits"
  by (auto simp: hex_ok_def)

section \<open>The lower-case encoding\<close>

definition nibble_char :: "nat \<Rightarrow> char" where
  "nibble_char n = hex_digits ! n"

fun char_nibble :: "char \<Rightarrow> string \<Rightarrow> nat option" where
  "char_nibble c [] = None"
| "char_nibble c (d # ds) = (if c = d then Some 0 else map_option Suc (char_nibble c ds))"

definition lower_hex :: "bytes \<Rightarrow> string" where
  "lower_hex bs = concat (map (\<lambda>b. [nibble_char (unat b div 16), nibble_char (unat b mod 16)]) bs)"

fun unhex :: "string \<Rightarrow> bytes option" where
  "unhex [] = Some []"
| "unhex [c] = None"
| "unhex (c # d # cs) =
     (case (char_nibble c hex_digits, char_nibble d hex_digits, unhex cs) of
        (Some h, Some l, Some bs) \<Rightarrow> Some (word_of_nat (16 * h + l) # bs)
      | _ \<Rightarrow> None)"

definition sample_hex :: hex_codec where
  "sample_hex = \<lparr>hex_enc = lower_hex, hex_dec = unhex\<rparr>"

lemma char_nibble_nth: "distinct ds \<Longrightarrow> n < length ds \<Longrightarrow> char_nibble (ds ! n) ds = Some n"
proof (induction ds arbitrary: n)
  case (Cons d ds)
  then show ?case by (cases n) auto
qed simp

lemma length_hex_digits: "length hex_digits = 16" "distinct hex_digits"
  by (simp_all add: hex_digits_def)

lemma nibble_round: "n < 16 \<Longrightarrow> char_nibble (nibble_char n) hex_digits = Some n"
  by (simp add: nibble_char_def char_nibble_nth length_hex_digits)

lemma byte_nibbles: "unat (b :: u8) div 16 < 16"
  using unat_bound [of b] by (simp add: div_less_iff_less_mult)

lemma unhex_lower_hex: "unhex (lower_hex bs) = Some bs"
proof (induction bs)
  case (Cons b bs)
  have "word_of_nat (16 * (unat b div 16) + unat b mod 16) = b" by simp
  then show ?case using Cons byte_nibbles [of b] by (simp add: lower_hex_def nibble_round)
qed (simp add: lower_hex_def)

lemma sample_hex_ok: "hex_ok sample_hex"
proof -
  have "nibble_char n \<in> set hex_digits" if "n < 16" for n
    using that by (simp add: nibble_char_def length_hex_digits)
  then have "set (lower_hex bs) \<subseteq> set hex_digits" for bs
    using byte_nibbles by (auto simp: lower_hex_def)
  then show ?thesis by (simp add: hex_ok_def sample_hex_def unhex_lower_hex)
qed

end
