(* ===== verification/Violation_Display.thy ===== *)
theory Violation_Display
  imports Settlement Hex_Codec
begin

text \<open>
  The messages of \<open>src/settlement/invariants/mod.rs\<close>: what \<open>Display\<close> prints for each violation.  The
  derived \<open>Debug\<close> of a status is the name of its variant, and of a vector its elements in brackets.
\<close>

fun status_debug :: "settlement_status \<Rightarrow> string" where
  "status_debug Queued = ''Queued''"
| "status_debug Propagating = ''Propagating''"
| "status_debug Settled = ''Settled''"
| "status_debug Failed = ''Failed''"
| "status_debug Disputed = ''Disputed''"

definition statuses_debug :: "settlement_status list \<Rightarrow> string" where
  "statuses_debug ss = ''['' @ intercalate '', '' (map status_debug ss) @ '']''"

fun violation_display :: "hex_codec \<Rightarrow> invariant_violation \<Rightarrow> string" where
  "violation_display H (TerminalStateMutated mid current attempted) =
     ''Terminal state mutation: message '' @ hex_enc H (to_vec mid) @ '' is '' @ as_str current @
     '' but attempted to transition to '' @ as_str attempted"
| "violation_display H (StuckState mid st legal) =
     ''Stuck state: message '' @ hex_enc H (to_vec mid) @ '' is '' @ as_str st @
     '' but has no legal outgoing transitions (legal: '' @ statuses_debug legal @ '')''"
| "violation_display H (UnknownState mid st) =
     ''Unknown state: message '' @ hex_enc H (to_vec mid) @ '' has unknown status '' @ status_debug st"
| "violation_display H (DuplicateEntry mid) =
     ''Duplicate entry: message '' @ hex_enc H (to_vec mid) @ '' appears multiple times''"
| "violation_display H (UnreachableState mid st history) =
     ''Unreachable state: message '' @ hex_enc H (to_vec mid) @ '' is '' @ as_str st @
     '' but no legal path exists (history: '' @ statuses_debug history @ '')''"

end
