(* ===== verification/Payment_Errors.thy ===== *)
theory Payment_Errors
  imports Engine_Properties
begin

text \<open>
  Every way \<open>SyncEngine::queue_payment\<close> can fail: which error, in which order the conditions are
  tested, and what is left behind.
\<close>

text \<open>The number the next payment of an account must carry; an unknown account starts at 0.\<close>

definition next_number :: "sync_engine \<Rightarrow> string \<Rightarrow> i64" where
  "next_number e account = (case last_reserved (eng_sequences e) account of None \<Rightarrow> 0 | Some l \<Rightarrow> l) + 1"

definition payment_refusal ::
  "third_party \<Rightarrow> sync_engine \<Rightarrow> string \<Rightarrow> string \<Rightarrow> fault \<Rightarrow> sync_engine_error option" where
  "payment_refusal X e account xdr fault =
     (case extract_source_account_and_sequence X xdr of
        Inl err \<Rightarrow> Some err
      | Inr (actual, sq) \<Rightarrow>
          if account \<noteq> actual then Some (SourceAccountMismatch account actual)
          else if sq \<noteq> next_number e account then Some (SequenceMismatch account (next_number e account) sq)
          else if fault \<noteq> None then Some io_error else None)"

definition with_baseline :: "sync_engine \<Rightarrow> string \<Rightarrow> sequence_reservation_manager" where
  "with_baseline e account =
     (if last_reserved (eng_sequences e) account = None then seed (eng_sequences e) account 0 else eng_sequences e)"

lemma reserve_with_baseline:
  obtains m' where "reserve_next (with_baseline e account) account = Inr (next_number e account, m')"
  by (cases "last_reserved (eng_sequences e) account")
    (auto simp: with_baseline_def next_number_def reserve_next_Inr last_reserved_ops)

text \<open>The builder's verdict, for the number that comes next.\<close>

lemma build_and_sign_verdict:
  assumes "reserve_next m account = Inr (next, m')"
  shows "build_and_sign X now m account key ClassicalOnly xdr ttl =
    (case extract_source_account_and_sequence X xdr of
       Inl err \<Rightarrow> (Inl err, m)
     | Inr (actual, sq) \<Rightarrow>
         if account \<noteq> actual then (Inl (SourceAccountMismatch account actual), m)
         else if sq \<noteq> next then (Inl (SequenceMismatch account next sq), m)
         else (Inr (sign_hybrid X ClassicalOnly (seal X now key (verifying_key X key) xdr ttl), sq), m'))"
  using assms release_reserve_next [OF assms] by (auto simp: build_and_sign_def split: sum.splits)

lemma enqueue_plain:
  "encryption_key_of db = None \<Longrightarrow> fst (enqueue_transaction S db nonce env a sq p t fault) = (if fault = None then Inr () else Inl io_error)"
  by (simp add: enqueue_transaction_def encrypt_if_enabled_def Let_def)

lemma queue_payment_outcome:
  assumes guard: "emergency_guard_of (eng_queue e) = None" and key: "encryption_key_of (eng_db e) = None"
    and run: "queue_payment X S now nonce e account k xdr priority ttl fault = (r, e')"
  shows "case payment_refusal X e account xdr fault of
      Some err \<Rightarrow> r = Inl err \<and> e' = e\<lparr>eng_sequences := with_baseline e account\<rparr>
    | None \<Rightarrow> r = Inr (seal X now k (verifying_key X k) xdr ttl)"
proof -
  obtain m' where res: "reserve_next (with_baseline e account) account = Inr (next_number e account, m')"
    by (rule reserve_with_baseline)
  note verdict = build_and_sign_verdict [OF res, of X now k xdr ttl]
  show ?thesis
    using run guard
  proof (cases rule: queue_payment_cases)
    case (failed err)
    have "payment_refusal X e account xdr fault = Some err"
    proof (cases "extract_source_account_and_sequence X xdr")
      case (Inl x)
      then show ?thesis using run verdict failed(1)
        by (simp add: queue_payment_def with_baseline_def [symmetric] payment_refusal_def Let_def)
    next
      case (Inr n)
      obtain actual sq where n: "n = (actual, sq)" by (cases n)
      show ?thesis
      proof (cases "account = actual \<and> sq = next_number e account")
        case False
        then show ?thesis using run verdict failed(1) Inr n
          by (auto simp: queue_payment_def with_baseline_def [symmetric] payment_refusal_def Let_def)
      next
        case True
        obtain er db where enq: "enqueue_transaction S (eng_db e) nonce (seal X now k (verifying_key X k) xdr ttl) account sq priority now fault = (er, db)"
          by fastforce
        then have "er = (if fault = None then Inr () else Inl io_error)" using enqueue_plain [OF key] by (metis fst_conv)
        then show ?thesis using run verdict failed(1) Inr n True enq guard
          by (auto simp: queue_payment_def with_baseline_def [symmetric] payment_refusal_def Let_def
              push_at_unguarded sign_hybrid_def split: if_splits)
      qed
    qed
    then show ?thesis using failed by (simp add: with_baseline_def)
  next
    case (queued env sq db seqs1)
    have "sq = next_number e account" using queued(4) res by (simp add: with_baseline_def)
    moreover have "fault = None" using queued(5) by (rule enqueue_transaction_Inr)
    ultimately have "payment_refusal X e account xdr fault = None" using queued(3) by (simp add: payment_refusal_def)
    then show ?thesis using queued(1,2) by simp
  qed
qed

text \<open>
  C15. The errors of a payment, on an engine as every run leaves it (no guard on the queue, no key on
  the database).  A transaction that cannot be read, one of another account, one with another
  number than the next free one, and a failing statement are refused, tested in this order, each
  with its own error; everything else is queued.  After a refusal nothing is stored, queued or
  tracked, and the account's next number is the same as before.
\<close>

theorem queue_payment_errors:
  assumes "emergency_guard_of (eng_queue e) = None" and "encryption_key_of (eng_db e) = None"
    and "queue_payment X S now nonce e account k xdr priority ttl fault = (r, e')"
  shows "(\<forall>err. r = Inl err \<longleftrightarrow> payment_refusal X e account xdr fault = Some err) \<and>
    (\<forall>env. r = Inr env \<longleftrightarrow> payment_refusal X e account xdr fault = None \<and> env = seal X now k (verifying_key X k) xdr ttl) \<and>
    (\<not> is_ok r \<longrightarrow> eng_db e' = eng_db e \<and> eng_queue e' = eng_queue e \<and> eng_settlement e' = eng_settlement e \<and>
       (\<forall>b. next_number e' b = next_number e b))"
proof -
  have kept: "next_number (e\<lparr>eng_sequences := with_baseline e account\<rparr>) b = next_number e b" for b
    by (auto simp: next_number_def with_baseline_def last_reserved_ops split: option.splits)
  show ?thesis
    using queue_payment_outcome [OF assms] kept by (auto split: option.splits)
qed

theorem queue_payment_errors_witness:
  "fst (queue_payment sample_party sample_codec 10 0 sample_seeded ''G1'' 7 ''a'' Normal 3 (Some 0)) = Inl io_error \<and>
   fst (queue_payment sample_party sample_codec 10 0 sample_seeded ''G2'' 7 ''a'' Normal 3 None) =
     Inl (SourceAccountMismatch ''G2'' ''G1'')"
proof -
  have guard: "emergency_guard_of (eng_queue sample_seeded) = None" by (simp add: sample_seeded_state queue_new_def)
  note errors = queue_payment_errors [OF guard sample_seeded_state(3) prod.collapse [symmetric]]
  have "next_number sample_seeded ''G1'' = 5" by (simp add: next_number_def sample_seeded_state)
  then have "payment_refusal sample_party sample_seeded ''G1'' ''a'' (Some 0) = Some io_error"
    and "payment_refusal sample_party sample_seeded ''G2'' ''a'' None = Some (SourceAccountMismatch ''G2'' ''G1'')"
    by (simp_all add: payment_refusal_def)
  then show ?thesis
    using errors [of sample_party sample_codec 10 0 "''G1''" 7 "''a''" Normal 3 "Some 0"]
      errors [of sample_party sample_codec 10 0 "''G2''" 7 "''a''" Normal 3 None] by blast
qed

end
