(* ===== verification/Cli.thy ===== *)
theory Cli
  imports Storage_Properties Hex_Codec Error_Display
begin

text \<open>
  \<open>src/cli.rs\<close>: the inspector of a database file - the commands, the views they assemble from the
  storage and their rendering as tables.

  Parameters: the hexadecimal codec, the JSON printer of \<open>serde_json\<close> (one function per view) and,
  as for the storage, the serialisation, the state of the file and the faults of its statements.
  Parsing \<open>argv\<close> (derived by \<open>clap\<close>) and printing are not modelled.
\<close>

section \<open>Commands\<close>

datatype cli_error =
    InvalidMessageId string
  | SyncEngineFailed sync_engine_error
  | JsonFailed string

fun cli_error_display :: "(string \<Rightarrow> string) \<Rightarrow> cli_error \<Rightarrow> string" where
  "cli_error_display debug_str (InvalidMessageId s) =
     ''invalid message id '' @ [CHR 0x27] @ s @ [CHR 0x27] @ '': expected 64 hex characters (32 bytes)''"
| "cli_error_display debug_str (SyncEngineFailed e) = error_display debug_str e"
| "cli_error_display debug_str (JsonFailed s) = ''failed to serialize output as JSON: '' @ s"

datatype priority_arg = ArgLow | ArgNormal | ArgEmergency

fun priority_of_arg :: "priority_arg \<Rightarrow> tx_priority" where
  "priority_of_arg ArgLow = Low"
| "priority_of_arg ArgNormal = Normal"
| "priority_of_arg ArgEmergency = Emergency"

datatype queue_action = QueueList (ql_account: "string option") (ql_priority: "priority_arg option")

datatype settlement_action = SettlementStatusOf string

datatype conflicts_action = ConflictsList bool

datatype db_action = DbSummary

datatype command =
    QueueCommand queue_action
  | SettlementCommand settlement_action
  | ConflictsCommand conflicts_action
  | DbCommand db_action

record cli =
  cli_db_path :: string
  cli_json :: bool
  cli_command :: command

fun priority_label :: "tx_priority \<Rightarrow> string" where
  "priority_label Low = ''low''"
| "priority_label Normal = ''normal''"
| "priority_label Emergency = ''emergency''"

definition parse_message_id :: "hex_codec \<Rightarrow> string \<Rightarrow> cli_error + bytes32" where
  "parse_message_id H s =
     (case hex_dec H s of
        None \<Rightarrow> Inl (InvalidMessageId s)
      | Some bs \<Rightarrow> (case try_into32 bs of None \<Rightarrow> Inl (InvalidMessageId s) | Some mid \<Rightarrow> Inr mid))"

section \<open>Views\<close>

record queue_entry_view =
  qv_message_id :: string
  qv_source_account :: string
  qv_sequence :: i64
  qv_priority :: string
  qv_enqueued_at :: u64

definition queue_entry_view_of :: "hex_codec \<Rightarrow> queued_envelope_record \<Rightarrow> queue_entry_view" where
  "queue_entry_view_of H r =
     \<lparr>qv_message_id = hex_enc H (to_vec (message_id (rec_envelope r))),
      qv_source_account = rec_source_account r, qv_sequence = rec_sequence r,
      qv_priority = priority_label (rec_priority r), qv_enqueued_at = rec_enqueued_at r\<rparr>"

definition record_matches :: "string option \<Rightarrow> tx_priority option \<Rightarrow> queued_envelope_record \<Rightarrow> bool" where
  "record_matches account priority r \<longleftrightarrow>
     (case account of Some acc \<Rightarrow> rec_source_account r = acc | None \<Rightarrow> True) \<and>
     (case priority of Some p \<Rightarrow> rec_priority r = p | None \<Rightarrow> True)"

definition queue_list ::
  "'z serde_scheme \<Rightarrow> hex_codec \<Rightarrow> sync_engine_db \<Rightarrow> string option \<Rightarrow> tx_priority option \<Rightarrow> fault
     \<Rightarrow> cli_error + queue_entry_view list" where
  "queue_list S H db account priority fault =
     (case list_queued_envelopes S db fault of
        Inl e \<Rightarrow> Inl (SyncEngineFailed e)
      | Inr records \<Rightarrow>
          Inr (map (queue_entry_view_of H) (filter (record_matches account priority)
            (sort_key (\<lambda>r. (unat (rec_enqueued_at r), message_id (rec_envelope r))) records))))"

record history_entry_view =
  hv_from_status :: string
  hv_to_status :: string
  hv_timestamp :: u64

record settlement_status_view =
  sv_message_id :: string
  sv_current_status :: "string option"
  sv_history :: "history_entry_view list"

text \<open>Two reads, the second one after the first.\<close>

definition cli_settlement_status ::
  "hex_codec \<Rightarrow> sync_engine_db \<Rightarrow> string \<Rightarrow> fault \<Rightarrow> cli_error + settlement_status_view" where
  "cli_settlement_status H db message_id_hex fault =
     (case parse_message_id H message_id_hex of
        Inl e \<Rightarrow> Inl e
      | Inr mid \<Rightarrow>
          (case get_settlement_status db mid (if fault = Some 0 then fault else None) of
             Inl e \<Rightarrow> Inl (SyncEngineFailed e)
           | Inr st \<Rightarrow>
               (case history_for db mid (fault_after 1 fault) of
                  Inl e \<Rightarrow> Inl (SyncEngineFailed e)
                | Inr entries \<Rightarrow> Inr
                    \<lparr>sv_message_id = hex_enc H (to_vec mid), sv_current_status = map_option as_str st,
                     sv_history = map (\<lambda>h. \<lparr>hv_from_status = he_from_status h, hv_to_status = he_to_status h,
                                           hv_timestamp = he_timestamp h\<rparr>) entries\<rparr>)))"

record conflict_view =
  cv_id :: i64
  cv_source_account :: string
  cv_sequence :: i64
  cv_envelope_a :: string
  cv_envelope_b :: string
  cv_detected_at :: u64
  cv_resolved :: bool

definition conflicts_list ::
  "hex_codec \<Rightarrow> sync_engine_db \<Rightarrow> bool \<Rightarrow> fault \<Rightarrow> cli_error + conflict_view list" where
  "conflicts_list H db unresolved_only fault =
     (case list_all_conflicts db fault of
        Inl e \<Rightarrow> Inl (SyncEngineFailed e)
      | Inr all \<Rightarrow> Inr (map (\<lambda>c. \<lparr>cv_id = cr_id c, cv_source_account = cr_source_account c,
            cv_sequence = cr_sequence c, cv_envelope_a = hex_enc H (to_vec (cr_envelope_a c)),
            cv_envelope_b = hex_enc H (to_vec (cr_envelope_b c)), cv_detected_at = cr_detected_at c,
            cv_resolved = cr_resolved c\<rparr>)
          (filter (\<lambda>c. \<not> unresolved_only \<or> \<not> cr_resolved c) all)))"

record db_summary_view =
  dv_queued_envelopes_count :: nat
  dv_settlement_status_count :: nat
  dv_sequence_reservations_count :: nat
  dv_conflicts_count :: nat
  dv_unresolved_conflicts_count :: nat
  dv_oldest_queued_at :: "u64 option"
  dv_newest_queued_at :: "u64 option"

definition cli_db_summary :: "sync_engine_db \<Rightarrow> fault \<Rightarrow> cli_error + db_summary_view" where
  "cli_db_summary db fault =
     (case summary db fault of
        Inl e \<Rightarrow> Inl (SyncEngineFailed e)
      | Inr s \<Rightarrow> Inr \<lparr>dv_queued_envelopes_count = queued_envelopes_count s,
          dv_settlement_status_count = settlement_status_count s,
          dv_sequence_reservations_count = sequence_reservations_count s,
          dv_conflicts_count = conflicts_count s,
          dv_unresolved_conflicts_count = unresolved_conflicts_count s,
          dv_oldest_queued_at = oldest_queued_at s, dv_newest_queued_at = newest_queued_at s\<rparr>)"

section \<open>Rendering\<close>

text \<open>
  A character of a UTF-8 string is a byte that does not continue another one; \<open>{:width$}\<close> pads
  to a number of characters, while the widths are byte lengths.
\<close>

definition char_count :: "string \<Rightarrow> nat" where
  "char_count s = length (filter (\<lambda>c. (of_char c :: nat) < 128 \<or> 192 \<le> (of_char c :: nat)) s)"

definition pad_cell :: "nat \<Rightarrow> string \<Rightarrow> string" where
  "pad_cell width c = c @ replicate (width - char_count c) CHR '' ''"

text \<open>
  \<open>trim_end\<close> on the ASCII white space; no line of a table ends in any other, since the last cell
  is a header, a number or a truth value.
\<close>

definition trim_end :: "string \<Rightarrow> string" where
  "trim_end s = rev (dropWhile (\<lambda>c. c = CHR '' '' \<or> 9 \<le> (of_char c :: nat) \<and> (of_char c :: nat) \<le> 13) (rev s))"

text \<open>\<open>None\<close> is the panic of \<open>widths[i]\<close> on a row with more cells than there are headers.\<close>

fun widen :: "nat list \<Rightarrow> string list \<Rightarrow> nat list option" where
  "widen widths [] = Some widths"
| "widen [] (c # cs) = None"
| "widen (w # ws) (c # cs) = map_option ((#) (max w (length c))) (widen ws cs)"

fun table_widths :: "nat list \<Rightarrow> string list list \<Rightarrow> nat list option" where
  "table_widths widths [] = Some widths"
| "table_widths widths (row # rows) =
     (case widen widths row of None \<Rightarrow> None | Some ws \<Rightarrow> table_widths ws rows)"

definition render_row :: "nat list \<Rightarrow> string list \<Rightarrow> string" where
  "render_row widths cells = intercalate ''  '' (map2 pad_cell widths cells)"

definition render_table :: "string list \<Rightarrow> string list list \<Rightarrow> string option" where
  "render_table headers rows =
     (case table_widths (map length headers) rows of
        None \<Rightarrow> None
      | Some widths \<Rightarrow> Some
          (trim_end (render_row widths headers) @ newline @
           intercalate ''  '' (map (\<lambda>w. replicate w CHR ''-'') widths) @ newline @
           (if rows = [] then ''(no rows)'' @ newline
            else concat (map (\<lambda>row. trim_end (render_row widths row) @ newline) rows))))"

definition queue_row :: "queue_entry_view \<Rightarrow> string list" where
  "queue_row r = [qv_message_id r, qv_source_account r, show_i64 (qv_sequence r), qv_priority r, show_u64 (qv_enqueued_at r)]"

definition render_queue_table :: "queue_entry_view list \<Rightarrow> string option" where
  "render_queue_table rows =
     render_table [''MESSAGE_ID'', ''SOURCE_ACCOUNT'', ''SEQUENCE'', ''PRIORITY'', ''ENQUEUED_AT''] (map queue_row rows)"

definition render_settlement_status :: "settlement_status_view \<Rightarrow> string option" where
  "render_settlement_status view =
     (case render_table [''FROM_STATUS'', ''TO_STATUS'', ''TIMESTAMP'']
             (map (\<lambda>h. [hv_from_status h, hv_to_status h, show_u64 (hv_timestamp h)]) (sv_history view)) of
        None \<Rightarrow> None
      | Some table \<Rightarrow> Some
          (''message_id:     '' @ sv_message_id view @ newline @
           ''current_status: '' @ (case sv_current_status view of Some s \<Rightarrow> s | None \<Rightarrow> ''(untracked)'') @ newline @
           ''history:'' @ newline @ table))"

definition conflict_row_cells :: "conflict_view \<Rightarrow> string list" where
  "conflict_row_cells c = [show_i64 (cv_id c), cv_source_account c, show_i64 (cv_sequence c), cv_envelope_a c,
     cv_envelope_b c, show_u64 (cv_detected_at c), show_bool (cv_resolved c)]"

definition render_conflicts_table :: "conflict_view list \<Rightarrow> string option" where
  "render_conflicts_table rows =
     render_table [''ID'', ''SOURCE_ACCOUNT'', ''SEQUENCE'', ''ENVELOPE_A'', ''ENVELOPE_B'', ''DETECTED_AT'', ''RESOLVED'']
       (map conflict_row_cells rows)"

definition render_summary :: "db_summary_view \<Rightarrow> string" where
  "render_summary view =
     (let shown = (\<lambda>v. case v of Some x \<Rightarrow> show_u64 x | None \<Rightarrow> ''(none)'') in
      ''queued_envelopes:      '' @ show_nat (dv_queued_envelopes_count view) @ newline @
      ''settlement_status:     '' @ show_nat (dv_settlement_status_count view) @ newline @
      ''sequence_reservations: '' @ show_nat (dv_sequence_reservations_count view) @ newline @
      ''conflicts:             '' @ show_nat (dv_conflicts_count view) @ '' ('' @
        show_nat (dv_unresolved_conflicts_count view) @ '' unresolved)'' @ newline @
      ''oldest_queued_at:      '' @ shown (dv_oldest_queued_at view) @ newline @
      ''newest_queued_at:      '' @ shown (dv_newest_queued_at view) @ newline)"

section \<open>Dispatch\<close>

record json_printer =
  json_queue :: "queue_entry_view list \<Rightarrow> string + string"
  json_settlement :: "settlement_status_view \<Rightarrow> string + string"
  json_conflicts :: "conflict_view list \<Rightarrow> string + string"
  json_summary :: "db_summary_view \<Rightarrow> string + string"

definition to_json :: "('v \<Rightarrow> string + string) \<Rightarrow> 'v \<Rightarrow> cli_error + string" where
  "to_json print v = (case print v of Inl e \<Rightarrow> Inl (JsonFailed e) | Inr s \<Rightarrow> Inr s)"

text \<open>One of the two renderings of a view that was assembled, \<open>None\<close> for a panic.\<close>

definition render ::
  "bool \<Rightarrow> ('v \<Rightarrow> string + string) \<Rightarrow> ('v \<Rightarrow> string option) \<Rightarrow> cli_error + 'v \<Rightarrow> (cli_error + string) option" where
  "render json print table result =
     (case result of
        Inl e \<Rightarrow> Some (Inl e)
      | Inr view \<Rightarrow> if json then Some (to_json print view) else map_option Inr (table view))"

definition cli_dispatch ::
  "'z serde_scheme \<Rightarrow> hex_codec \<Rightarrow> json_printer \<Rightarrow> sync_engine_db \<Rightarrow> command \<Rightarrow> bool \<Rightarrow> fault
     \<Rightarrow> (cli_error + string) option" where
  "cli_dispatch S H J db cmd json fault =
     (case cmd of
        QueueCommand (QueueList account priority) \<Rightarrow>
          render json (json_queue J) render_queue_table
            (queue_list S H db account (map_option priority_of_arg priority) fault)
      | SettlementCommand (SettlementStatusOf mid) \<Rightarrow>
          render json (json_settlement J) render_settlement_status (cli_settlement_status H db mid fault)
      | ConflictsCommand (ConflictsList unresolved_only) \<Rightarrow>
          render json (json_conflicts J) render_conflicts_table (conflicts_list H db unresolved_only fault)
      | DbCommand DbSummary \<Rightarrow>
          render json (json_summary J) (\<lambda>v. Some (render_summary v)) (cli_db_summary db fault))"

definition cli_run ::
  "'z serde_scheme \<Rightarrow> hex_codec \<Rightarrow> json_printer \<Rightarrow> database option \<Rightarrow> cli \<Rightarrow> fault
     \<Rightarrow> (cli_error + string) option" where
  "cli_run S H J disk c fault =
     (case init (cli_db_path c) disk (if fault = Some 0 then fault else None) of
        Inl e \<Rightarrow> Some (Inl (SyncEngineFailed e))
      | Inr db \<Rightarrow> cli_dispatch S H J db (cli_command c) (cli_json c) (fault_after 1 fault))"

end
