(* ===== verification/Cli_Properties.thy ===== *)
theory Cli_Properties
  imports Cli
begin

text \<open>
  The inspector's contracts: what \<open>queue list\<close> shows and in which order, that the identifiers it
  prints are those its other commands accept, that no command panics, and that the cells of a table
  can be read back from their columns.
\<close>

section \<open>Listing the queue\<close>

lemma parse_hex_id: "hex_ok H \<Longrightarrow> parse_message_id H (hex_enc H (to_vec mid)) = Inr mid"
  by (simp add: parse_message_id_def)

text \<open>
  \<open>queue list\<close> shows exactly the stored envelopes that pass both filters, oldest first and by
  identifier among equals; every identifier it prints is accepted by \<open>settlement status\<close>, which
  then reports the status and the history stored for that envelope.
\<close>

theorem queue_list_exact:
  assumes "hex_ok H" and "list_queued_envelopes S db None = Inr records"
  shows "\<exists>shown. queue_list S H db account priority None = Inr (map (queue_entry_view_of H) shown) \<and>
    mset shown = filter_mset (record_matches account priority) (mset records) \<and>
    sorted (map (\<lambda>r. (unat (rec_enqueued_at r), message_id (rec_envelope r))) shown) \<and>
    (\<forall>r \<in> set shown. \<forall>st entries.
      get_settlement_status db (message_id (rec_envelope r)) None = Inr st \<and>
      history_for db (message_id (rec_envelope r)) None = Inr entries \<longrightarrow>
      (\<exists>view. cli_settlement_status H db (qv_message_id (queue_entry_view_of H r)) None = Inr view \<and>
        sv_message_id view = qv_message_id (queue_entry_view_of H r) \<and>
        sv_current_status view = map_option as_str st \<and> length (sv_history view) = length entries))"
proof -
  let ?key = "\<lambda>r. (unat (rec_enqueued_at r), message_id (rec_envelope r))"
  let ?shown = "filter (record_matches account priority) (sort_key ?key records)"
  have "sorted (map ?key (sort_key ?key records))" by simp
  then have "sorted (map ?key ?shown)" by (rule sorted_filter)
  moreover have "\<exists>view. cli_settlement_status H db (qv_message_id (queue_entry_view_of H r)) None = Inr view \<and>
        sv_message_id view = qv_message_id (queue_entry_view_of H r) \<and>
        sv_current_status view = map_option as_str st \<and> length (sv_history view) = length entries"
    if "get_settlement_status db (message_id (rec_envelope r)) None = Inr st"
      "history_for db (message_id (rec_envelope r)) None = Inr entries" for r st entries
    using that assms(1) by (simp add: cli_settlement_status_def queue_entry_view_of_def parse_hex_id)
  ultimately show ?thesis
    using assms(2) by (intro exI [of _ ?shown]) (simp add: queue_list_def)
qed

text \<open>A database with one queued payment, and what listing it prints.\<close>

definition sample_listed_db :: sync_engine_db where
  "sample_listed_db = (new_db None)\<lparr>conn := (conn (new_db None))\<lparr>queued_envelopes :=
     [envelope_row (sample_envelope 5) ''A'' 7 Emergency 100
       (envelope_to_vec (sample_serde (take_snapshot empty_database)) (sample_envelope 5))]\<rparr>\<rparr>"

lemma sample_listed:
  "list_queued_envelopes (sample_serde (take_snapshot empty_database)) sample_listed_db None =
     Inr [\<lparr>rec_envelope = sample_envelope 5, rec_source_account = ''A'', rec_sequence = 7, rec_priority = Emergency, rec_enqueued_at = 100\<rparr>]"
proof -
  let ?S = "sample_serde (take_snapshot empty_database)"
  have "encrypt_if_enabled ?S (new_db None) 0 (envelope_to_vec ?S (sample_envelope 5)) =
      Inr (envelope_to_vec ?S (sample_envelope 5))"
    by (simp add: encrypt_if_enabled_def)
  from decode_record_envelope_row [OF _ sample_serde_codec this, of sample_listed_db "''A''" 7 Emergency 100]
  show ?thesis
    by (simp add: list_queued_envelopes_def sample_listed_db_def sample_cipher_ok)
qed

theorem queue_list_exact_witness:
  "\<exists>views. queue_list (sample_serde (take_snapshot empty_database)) sample_hex sample_listed_db (Some ''A'') (Some Emergency) None =
     Inr views \<and> length views = 1"
  using queue_list_exact [OF sample_hex_ok sample_listed, of "Some ''A''" "Some Emergency"]
  by (auto simp: record_matches_def dest: mset_eq_length)

section \<open>Tables\<close>

definition white :: "char \<Rightarrow> bool" where
  "white c \<longleftrightarrow> c = CHR '' '' \<or> 9 \<le> (of_char c :: nat) \<and> (of_char c :: nat) \<le> 13"

definition plain :: "string \<Rightarrow> bool" where
  "plain c \<longleftrightarrow> (\<forall>x \<in> set c. (of_char x :: nat) < 128) \<and> (c \<noteq> [] \<longrightarrow> \<not> white (last c))"

text \<open>Reading the cells of a line back, given the widths of the columns.\<close>

fun read_cells :: "nat list \<Rightarrow> string \<Rightarrow> string list" where
  "read_cells [] s = []"
| "read_cells (w # ws) s = trim_end (take w s) # read_cells ws (drop (w + 2) s)"

lemma trim_end_white: "trim_end s = rev (dropWhile white (rev s))"
  unfolding trim_end_def white_def [abs_def] ..

lemma trim_end_split: "\<exists>u. s = trim_end s @ u \<and> (\<forall>c \<in> set u. white c)"
proof -
  have "rev s = takeWhile white (rev s) @ dropWhile white (rev s)" by simp
  then have "s = trim_end s @ rev (takeWhile white (rev s))"
    unfolding trim_end_white by (metis rev_append rev_rev_ident)
  then show ?thesis by (metis set_rev set_takeWhileD)
qed

lemma trim_end_append: "\<forall>c \<in> set u. white c \<Longrightarrow> trim_end (s @ u) = trim_end s"
  by (simp add: trim_end_white dropWhile_append)

lemma trim_end_plain: "plain c \<Longrightarrow> trim_end c = c"
  by (cases c rule: rev_cases) (simp_all add: trim_end_white plain_def)

lemma read_cells_append: "\<forall>c \<in> set u. white c \<Longrightarrow> read_cells ws (s @ u) = read_cells ws s"
proof (induction ws arbitrary: s u)
  case (Cons w ws)
  have "trim_end (take w s @ take (w - length s) u) = trim_end (take w s)"
    using Cons.prems by (intro trim_end_append) (auto dest: in_set_takeD)
  moreover have "read_cells ws (drop (w + 2) s @ drop (w + 2 - length s) u) = read_cells ws (drop (w + 2) s)"
    using Cons.prems by (intro Cons.IH) (auto dest: in_set_dropD)
  ultimately show ?case by simp
qed simp

lemma read_cells_trim: "read_cells ws (trim_end s) = read_cells ws s"
  using trim_end_split [of s] read_cells_append by metis

lemma pad_plain: "plain c \<Longrightarrow> pad_cell w c = c @ replicate (w - length c) CHR '' ''"
  by (simp add: pad_cell_def char_count_def plain_def)

lemma intercalate_Cons: "intercalate sep (x # xs) = x @ (if xs = [] then [] else sep @ intercalate sep xs)"
  by (simp add: intercalate_def split: list.splits)

lemma read_render_row:
  "list_all2 (\<lambda>c w. length c \<le> w) row widths \<Longrightarrow> \<forall>c \<in> set row. plain c \<Longrightarrow>
     read_cells widths (render_row widths row) = row"
proof (induction row widths rule: list_all2_induct)
  case (Cons c row w widths)
  let ?pad = "pad_cell w c"
  have pad: "?pad = c @ replicate (w - length c) CHR '' ''" "length ?pad = w"
    using Cons pad_plain by simp_all
  have cell: "trim_end ?pad = c"
    using trim_end_append [of "replicate (w - length c) CHR '' ''" c] trim_end_plain [of c] Cons.prems pad(1)
    by (simp add: white_def)
  show ?case
  proof (cases "row = []")
    case True
    then have "widths = []" using Cons(2) by simp
    then show ?thesis using True cell pad(2) by (simp add: render_row_def intercalate_Cons)
  next
    case False
    then have "widths \<noteq> []" using Cons(2) by auto
    then have "render_row (w # widths) (c # row) = ?pad @ ''  '' @ render_row widths row"
      using False by (simp add: render_row_def intercalate_Cons)
    then show ?thesis using Cons cell pad(2) by simp
  qed
qed (simp add: render_row_def)

lemma widen_spec:
  "length row = length ws \<Longrightarrow> \<exists>ws'. widen ws row = Some ws' \<and> list_all2 (\<le>) ws ws' \<and>
     list_all2 (\<lambda>c w. length c \<le> w) row ws'"
  by (induction ws row rule: widen.induct) auto

lemma table_widths_spec:
  "\<forall>row \<in> set rows. length row = length ws \<Longrightarrow>
     \<exists>ws'. table_widths ws rows = Some ws' \<and> list_all2 (\<le>) ws ws' \<and>
       (\<forall>row \<in> set rows. list_all2 (\<lambda>c w. length c \<le> w) row ws')"
proof (induction rows arbitrary: ws)
  case Nil
  show ?case by (simp add: list_all2_refl)
next
  case (Cons row rows)
  obtain ws1 where ws1: "widen ws row = Some ws1" "list_all2 (\<le>) ws ws1" "list_all2 (\<lambda>c w. length c \<le> w) row ws1"
    using widen_spec [of row ws] Cons.prems by auto
  have "length ws1 = length ws" using ws1(2) by (simp add: list_all2_lengthD)
  then obtain ws2 where ws2: "table_widths ws1 rows = Some ws2" "list_all2 (\<le>) ws1 ws2"
    "\<forall>row \<in> set rows. list_all2 (\<lambda>c w. length c \<le> w) row ws2"
    using Cons.IH [of ws1] Cons.prems by auto
  have "list_all2 (\<le>) ws ws2" by (rule list_all2_trans [OF _ ws1(2) ws2(2)]) simp
  moreover have "list_all2 (\<lambda>c w. length c \<le> w) row ws2" by (rule list_all2_trans [OF _ ws1(3) ws2(2)]) simp
  ultimately show ?case using ws1(1) ws2(1,3) by auto
qed

text \<open>
  A table loses nothing: it has one line per row under a header and a rule, every column starts
  at the same place in all of them, and cutting a line at the widths gives its cells back - for
  cells of ASCII text that do not end in white space, the only ones the width counts are right for.
\<close>

theorem render_table_roundtrip:
  assumes "\<forall>row \<in> set rows. length row = length headers" and "\<forall>c \<in> set (concat rows). plain c"
  shows "\<exists>widths. length widths = length headers \<and>
    render_table headers rows = Some
      (trim_end (render_row widths headers) @ newline @
       intercalate ''  '' (map (\<lambda>w. replicate w CHR ''-'') widths) @ newline @
       (if rows = [] then ''(no rows)'' @ newline
        else concat (map (\<lambda>row. trim_end (render_row widths row) @ newline) rows))) \<and>
    (\<forall>row \<in> set rows. read_cells widths (trim_end (render_row widths row)) = row)"
proof -
  obtain widths where widths: "table_widths (map length headers) rows = Some widths"
    "list_all2 (\<le>) (map length headers) widths" "\<forall>row \<in> set rows. list_all2 (\<lambda>c w. length c \<le> w) row widths"
    using table_widths_spec [of rows "map length headers"] assms(1) by auto
  have "length widths = length headers" using list_all2_lengthD [OF widths(2)] by simp
  moreover have "read_cells widths (trim_end (render_row widths row)) = row" if "row \<in> set rows" for row
    unfolding read_cells_trim using that widths(3) assms(2) by (intro read_render_row) auto
  ultimately show ?thesis using widths(1) by (intro exI [of _ widths]) (simp add: render_table_def)
qed

theorem render_table_roundtrip_witness:
  "\<exists>widths. length widths = 2 \<and> read_cells widths (trim_end (render_row widths [''a1'', ''17''])) = [''a1'', ''17'']"
  using render_table_roundtrip [of "[[''a1'', ''17''], [''b'', ''2'']]" "[''ID'', ''SEQUENCE'']"]
  by (auto simp: plain_def white_def numeral_2_eq_2)

lemma render_table_total:
  assumes "\<forall>row \<in> set rows. length row = length headers"
  shows "render_table headers rows \<noteq> None"
  using table_widths_spec [of rows "map length headers"] assms by (auto simp: render_table_def)

section \<open>Dispatch\<close>

definition cli_view_fails :: "'z serde_scheme \<Rightarrow> hex_codec \<Rightarrow> sync_engine_db \<Rightarrow> command \<Rightarrow> fault \<Rightarrow> bool" where
  "cli_view_fails S H db cmd fault \<longleftrightarrow>
     (case cmd of
        QueueCommand (QueueList account priority) \<Rightarrow>
          \<not> is_ok (queue_list S H db account (map_option priority_of_arg priority) fault)
      | SettlementCommand (SettlementStatusOf mid) \<Rightarrow> \<not> is_ok (cli_settlement_status H db mid fault)
      | ConflictsCommand (ConflictsList unresolved_only) \<Rightarrow> \<not> is_ok (conflicts_list H db unresolved_only fault)
      | DbCommand DbSummary \<Rightarrow> \<not> is_ok (cli_db_summary db fault))"

lemma render_tables_total:
  "render_queue_table views \<noteq> None" "render_settlement_status view \<noteq> None" "render_conflicts_table cviews \<noteq> None"
  using render_table_total [of "map queue_row views"] render_table_total [of "map conflict_row_cells cviews"]
    render_table_total [of "map (\<lambda>h. [hv_from_status h, hv_to_status h, show_u64 (hv_timestamp h)]) (sv_history view)"]
  by (auto simp: render_queue_table_def render_settlement_status_def render_conflicts_table_def queue_row_def
      conflict_row_cells_def split: option.splits)

text \<open>
  No command panics, whatever is stored and whichever statement fails: each prints a text or
  reports an error, and the table form fails exactly when the data could not be read.
\<close>

theorem cli_never_panics:
  "cli_run S H J disk c fault \<noteq> None \<and> cli_dispatch S H J db cmd json fault \<noteq> None \<and>
   (\<exists>r. cli_dispatch S H J db cmd False fault = Some r \<and> (is_ok r \<longleftrightarrow> \<not> cli_view_fails S H db cmd fault))"
proof -
  have total: "cli_dispatch S H J db cmd json fault \<noteq> None" for db cmd json fault
    using render_tables_total
    by (auto simp: cli_dispatch_def render_def split: command.splits queue_action.splits settlement_action.splits
        conflicts_action.splits db_action.splits sum.splits)
  have "cli_run S H J disk c fault \<noteq> None" using total by (auto simp: cli_run_def split: sum.splits)
  moreover have "\<exists>r. cli_dispatch S H J db cmd False fault = Some r \<and> (is_ok r \<longleftrightarrow> \<not> cli_view_fails S H db cmd fault)"
    using total [of db cmd False fault]
    by (auto simp: cli_dispatch_def render_def cli_view_fails_def is_ok_def split: command.splits queue_action.splits
        settlement_action.splits conflicts_action.splits db_action.splits sum.splits)
  ultimately show ?thesis using total by blast
qed

end
