(* ===== verification/Engine_Clients.thy ===== *)
theory Engine_Clients
  imports Cli_Properties Detector Engine_Properties
begin

text \<open>
  The engine together with the components that look at what it stored: the inspector of
  \<open>src/cli.rs\<close> opened on the engine's database file, and the conflict detector of
  \<open>src/conflict/detector.rs\<close> run over the engine's own envelopes.
\<close>

section \<open>Every stored envelope has a stored status\<close>

definition rows_tracked :: "database \<Rightarrow> bool" where
  "rows_tracked d \<longleftrightarrow>
     qe_message_id ` set (queued_envelopes d) \<subseteq> ss_message_id ` set (settlement_status_table d)"

lemma keys_replace_row: "key ` set (replace_row key r rows) = insert (key r) (key ` set rows)"
  by (auto simp: replace_row_def)

lemma rows_tracked_frame:
  "queued_envelopes d' = queued_envelopes d \<Longrightarrow>
   ss_message_id ` set (settlement_status_table d) \<subseteq> ss_message_id ` set (settlement_status_table d') \<Longrightarrow>
   rows_tracked d \<Longrightarrow> rows_tracked d'"
  by (auto simp: rows_tracked_def)

lemma rows_tracked_enqueue:
  assumes "rows_tracked (conn db)"
    and "enqueue_transaction S db nonce env a sq p t fault = (r, db')"
  shows "rows_tracked (conn db')"
proof (cases r)
  case (Inl err)
  then show ?thesis using assms enqueue_transaction_Inl by metis
next
  case (Inr u)
  then have "enqueue_transaction S db nonce env a sq p t fault = (Inr (), db')" using assms(2) by simp
  then obtain bs where "queued_envelopes (conn db') =
       replace_row qe_message_id (envelope_row env a sq p t bs) (queued_envelopes (conn db))"
    and "settlement_status_table (conn db') = replace_row ss_message_id
       \<lparr>ss_message_id = to_vec (message_id env), ss_status = as_str Queued, ss_updated_at = t\<rparr>
       (settlement_status_table (conn db))"
    by (rule enqueue_transaction_Inr)
  then have "qe_message_id ` set (queued_envelopes (conn db')) =
      insert (to_vec (message_id env)) (qe_message_id ` set (queued_envelopes (conn db)))"
    and "ss_message_id ` set (settlement_status_table (conn db')) =
      insert (to_vec (message_id env)) (ss_message_id ` set (settlement_status_table (conn db)))"
    by (simp_all add: keys_replace_row envelope_row_def)
  then show ?thesis using assms(1) unfolding rows_tracked_def by (simp only: insert_mono)
qed

lemma rows_tracked_set_status:
  assumes "rows_tracked (conn db)"
  shows "rows_tracked (conn (snd (set_settlement_status db mid st t fault)))"
proof -
  have "rows_tracked ((conn db)\<lparr>settlement_status_table := replace_row ss_message_id
      \<lparr>ss_message_id = to_vec mid, ss_status = as_str st, ss_updated_at = t\<rparr> (settlement_status_table (conn db))\<rparr>)"
    by (rule rows_tracked_frame [OF _ _ assms]) (simp_all add: keys_replace_row subset_insertI)
  moreover have "rows_tracked d'" if "insert_history a b c i d = Some d'" "rows_tracked d" for a b c i d d'
    using insert_history_Some [OF that(1)] that(2) by (simp add: rows_tracked_def)
  ultimately show ?thesis
    using assms by (auto simp: set_settlement_status_def Let_def split: option.splits)
qed

lemma rows_tracked_pay:
  assumes "rows_tracked (conn (eng_db e))"
    and "queue_payment X S now nonce e account key xdr priority ttl fault = (r, e')"
  shows "rows_tracked (conn (eng_db e'))"
  using assms rows_tracked_enqueue [OF assms(1)]
  by (auto simp: queue_payment_def Let_def split: sum.splits prod.splits)

lemma rows_tracked_marker:
  assumes "rows_tracked (conn (eng_db e))" and "persist_dispatch_status e mid now fault = (r, e')"
  shows "rows_tracked (conn (eng_db e'))"
proof (rule rows_tracked_frame [OF _ _ assms(1)])
  show "queued_envelopes (conn (eng_db e')) = queued_envelopes (conn (eng_db e))"
    using assms(2) by (auto simp: persist_dispatch_status_def split: if_splits)
  show "ss_message_id ` set (settlement_status_table (conn (eng_db e))) \<subseteq>
      ss_message_id ` set (settlement_status_table (conn (eng_db e')))"
    using assms(2) by (auto simp: persist_dispatch_status_def keys_replace_row split: if_splits simp del: as_str.simps)
qed

lemma rows_tracked_dispatch:
  assumes "rows_tracked (conn (eng_db e))" and "next_to_dispatch hex now e fault = Some (out, e')"
  shows "rows_tracked (conn (eng_db e'))"
proof (cases "peek (eng_queue e)")
  case None
  then show ?thesis using assms by (simp add: next_to_dispatch_def)
next
  case (Some first)
  obtain r e1 where p: "persist_dispatch_status e (message_id first) now fault = (r, e1)" by fastforce
  have "eng_db e' = eng_db e1"
    using assms(2) Some p by (auto simp: next_to_dispatch_def Let_def split: sum.splits prod.splits option.splits)
  then show ?thesis using rows_tracked_marker [OF assms(1) p] by simp
qed

lemma rows_tracked_settle:
  assumes "rows_tracked (conn (eng_db e))" and "mark_settlement hex e mid nxt now fault = (r, e')"
  shows "rows_tracked (conn (eng_db e'))"
  using assms(2)
  by (cases rule: mark_settlement_cases)
    (use assms(1) rows_tracked_set_status [OF assms(1), of mid nxt now fault] in auto)

lemma rows_tracked_seed:
  assumes "rows_tracked (conn (eng_db e))" and "seed_account e account n fault = (r, e')"
  shows "rows_tracked (conn (eng_db e'))"
  by (rule rows_tracked_frame [OF _ _ assms(1)])
    (use assms(2) in \<open>auto simp: seed_account_def save_sequence_reservation_def Let_def split: if_splits\<close>)

lemma rows_tracked_conflict:
  assumes "rows_tracked (conn (eng_db e))" and "engine_record_conflict e c now fault = (r, e')"
  shows "rows_tracked (conn (eng_db e'))"
  by (rule rows_tracked_frame [OF _ _ assms(1)])
    (use assms(2) in \<open>auto simp: engine_record_conflict_def record_conflict_def split: if_splits option.splits\<close>)

text \<open>Opening writes nothing.\<close>

lemma engine_open_conn:
  assumes "engine_open S path disk None = Inr e"
  shows "conn (eng_db e) = (case disk of Some d \<Rightarrow> if path = '':memory:'' then empty_database else d | None \<Rightarrow> empty_database)"
  using assms
  by (auto simp: engine_open_def init_def Let_def split: sum.splits option.splits)

lemma engine_run_rows_tracked:
  assumes "engine_run X S hex path P e D A" and "path \<noteq> '':memory:''"
  shows "rows_tracked (conn (eng_db e))"
  using assms(1)
proof induction
  case (run_start e)
  then show ?case by (simp add: engine_open_conn rows_tracked_def empty_database_def)
next
  case run_pay
  then show ?case using rows_tracked_pay by blast
next
  case run_dispatch
  then show ?case using rows_tracked_dispatch by blast
next
  case (run_dispatch_crash e D A first now e1 e')
  then show ?case using rows_tracked_marker [of e] assms(2) by (simp add: engine_open_conn)
next
  case run_settle
  then show ?case using rows_tracked_settle by blast
next
  case (run_settle_crash e D A mid nxt now fault r e1 e')
  then show ?case using rows_tracked_settle [of e] assms(2) by (simp add: engine_open_conn)
next
  case run_seed
  then show ?case using rows_tracked_seed by blast
next
  case run_conflict
  then show ?case using rows_tracked_conflict by blast
next
  case run_restart
  then show ?case using assms(2) by (simp add: engine_open_conn)
qed

lemma engine_run_stored_status:
  assumes "engine_run X S hex path P e D A" and "path \<noteq> '':memory:''" and "payments_ok X S P"
    and "engine_settlement_status e mid = Some s"
  shows "stored_status (conn (eng_db e)) mid = Some s"
proof -
  obtain rs where inv: "engine_inv S e rs" and "logs_inv X P (conn (eng_db e)) rs D A"
    using assms(1-3) by (rule engine_run_state)
  let ?d = "conn (eng_db e)"
  have mem: "mid \<in> rec_id ` set rs" and s: "s = current_status ?d mid"
    using engine_inv_parts(2) [OF inv] assms(4)
    by (auto simp: tracker_agrees_def engine_settlement_status_def split: if_splits)
  have ok: "statuses_ok ?d"
    and ids: "map qe_message_id (queued_envelopes ?d) = map (\<lambda>r. to_vec (rec_id r)) rs"
    using engine_inv_parts(1) [OF inv] by (simp_all add: disk_ok_def)
  have "to_vec mid \<in> qe_message_id ` set (queued_envelopes ?d)"
    using mem arg_cong [OF ids, of set] by auto
  then have "to_vec mid \<in> ss_message_id ` set (settlement_status_table ?d)"
    using engine_run_rows_tracked [OF assms(1,2)] by (auto simp: rows_tracked_def)
  then obtain row where row: "select_row ss_message_id (to_vec mid) (settlement_status_table ?d) = Some row"
    by (metis select_None not_None_eq)
  then have "row \<in> set (settlement_status_table ?d)" by (metis find_Some_iff nth_mem select_row_def)
  then obtain s' where "ss_status row = as_str s'" using ok by (auto simp: statuses_ok_def)
  then have "stored_status ?d mid = Some s'"
    by (simp add: stored_status_def row status_codec.dec_enc)
  then show ?thesis by (simp add: s current_status_def)
qed

section \<open>The inspector on the engine's file\<close>

lemma init_existing: "path \<noteq> '':memory:'' \<Longrightarrow> init path (Some d) None = Inr \<lparr>conn = d, encryption_key_of = None\<rparr>"
  by (simp add: init_def)

definition ask_status :: "string \<Rightarrow> string \<Rightarrow> cli" where
  "ask_status path mid_hex =
     \<lparr>cli_db_path = path, cli_json = False, cli_command = SettlementCommand (SettlementStatusOf mid_hex)\<rparr>"



section \<open>The engine's own envelopes\<close>

text \<open>What an engine tells the detector about an envelope it queued.\<close>

definition own_slot :: "queued_envelope_record \<Rightarrow> queued_slot" where
  "own_slot r = \<lparr>slot_source_account = rec_source_account r, slot_sequence = rec_sequence r, slot_message_id = rec_id r\<rparr>"

lemma own_claimants:
  "claimants (set (map own_slot rs)) k = rec_id ` {r \<in> set rs. rec_number r = k}"
  by (auto simp: claimants_def own_slot_def slot_key_def rec_number_def image_iff) force

lemma own_claimant_unique:
  assumes "distinct (map rec_number rs)" and "i \<in> claimants (set (map own_slot rs)) k" "j \<in> claimants (set (map own_slot rs)) k"
  shows "i = j"
  using assms unfolding own_claimants by (auto simp: distinct_map inj_on_def)

lemma foreign_claimants:
  "claimants (set (slots @ [f])) k = claimants (set slots) k \<union> (if slot_key f = k then {slot_message_id f} else {})"
  by (auto simp: claimants_def)

lemma no_conflict_below_two:
  assumes "rearranges order" and "\<And>k i j. i \<in> claimants (set slots) k \<Longrightarrow> j \<in> claimants (set slots) k \<Longrightarrow> i = j"
  shows "detect_conflicts order slots = [] \<and> detect_nway_conflicts order slots = []"
proof -
  have "c \<notin> set (detect_conflicts order slots)" for c
    unfolding set_detect_conflicts [OF assms(1)] using assms(2) by (metis less_irrefl)
  moreover have "n \<notin> set (detect_nway_conflicts order slots)" for n
  proof -
    let ?C = "claimants (set slots) (n_source_account n, n_sequence n)"
    have "card ?C \<le> 1" using assms(2) by (metis card_le_Suc0_iff_eq finite_claimants One_nat_def)
    then show ?thesis unfolding set_detect_nway [OF assms(1)] by simp
  qed
  ultimately show ?thesis by (metis ex_in_conv set_empty)
qed

definition pair_conflict :: "queued_slot \<Rightarrow> bytes32 \<Rightarrow> conflict" where
  "pair_conflict f i = \<lparr>c_source_account = slot_source_account f, c_sequence = slot_sequence f,
     envelope_a = min i (slot_message_id f), envelope_b = max i (slot_message_id f)\<rparr>"

lemma pair_conflict_iff:
  "(c_source_account c, c_sequence c) = slot_key f \<and> envelope_a c < envelope_b c \<and>
     (envelope_a c = i \<and> envelope_b c = slot_message_id f \<or> envelope_a c = slot_message_id f \<and> envelope_b c = i) \<longleftrightarrow>
   c = pair_conflict f i \<and> i \<noteq> slot_message_id f"
proof (cases i "slot_message_id f" rule: linorder_cases)
  case less
  then show ?thesis by (cases c) (auto simp: pair_conflict_def slot_key_def)
next
  case greater
  then show ?thesis by (cases c) (auto simp: pair_conflict_def slot_key_def)
qed auto

text \<open>One more slot adds the pairs it forms with the slots of its own account and number.\<close>

lemma detect_foreign:
  assumes ord: "rearranges order"
    and one: "\<And>k i j. i \<in> claimants (set own) k \<Longrightarrow> j \<in> claimants (set own) k \<Longrightarrow> i = j"
  shows "set (detect_conflicts order (own @ [f])) =
    pair_conflict f ` {i \<in> claimants (set own) (slot_key f). i \<noteq> slot_message_id f}"
proof (rule set_eqI)
  fix c :: conflict
  let ?k = "(c_source_account c, c_sequence c)"
  have "c \<in> set (detect_conflicts order (own @ [f])) \<longleftrightarrow>
      (\<exists>i \<in> claimants (set own) (slot_key f). ?k = slot_key f \<and> envelope_a c < envelope_b c \<and>
         (envelope_a c = i \<and> envelope_b c = slot_message_id f \<or> envelope_a c = slot_message_id f \<and> envelope_b c = i))"
  proof (cases "?k = slot_key f")
    case True
    then show ?thesis
      unfolding set_detect_conflicts [OF ord] foreign_claimants
      using one [of "envelope_a c" ?k "envelope_b c"] by auto
  next
    case False
    then show ?thesis
      unfolding set_detect_conflicts [OF ord] foreign_claimants
      using one [of "envelope_a c" ?k "envelope_b c"] by auto
  qed
  then show "c \<in> set (detect_conflicts order (own @ [f])) \<longleftrightarrow>
      c \<in> pair_conflict f ` {i \<in> claimants (set own) (slot_key f). i \<noteq> slot_message_id f}"
    unfolding pair_conflict_iff by blast
qed



end
