(* ===== verification/Ffi.thy ===== *)
theory Ffi
  imports Engine Hex_Codec
begin

text \<open>
  \<open>src/ffi.rs\<close>: the C interface over the engine.  Memory that crosses the boundary is an explicit
  store of live handles and live strings; a pointer is an address or null, and using an address
  that is not live is undefined behaviour, the outer \<open>None\<close> of a call.  A C string argument is its
  bytes before the terminator, or null.

  No engine operation panics, so \<open>catch_unwind\<close> never has anything to convert; the flag
  \<open>poisoned\<close> of the mutex is kept because every call tests it.  Logging, the shared runtime and
  the mutex's waiting are not modelled: a call is one step on the store.
\<close>

section \<open>Strings from C\<close>

definition cont :: "char \<Rightarrow> nat \<Rightarrow> nat \<Rightarrow> bool" where
  "cont c lo hi \<longleftrightarrow> lo \<le> (of_char c :: nat) \<and> (of_char c :: nat) \<le> hi"

text \<open>\<open>CStr::to_str\<close> accepts well-formed UTF-8: no overlong forms, surrogates or values past the range.\<close>

fun valid_utf8 :: "string \<Rightarrow> bool" where
  "valid_utf8 [] = True"
| "valid_utf8 (a # s) =
     (if cont a 0 0x7F then valid_utf8 s
      else (case s of
              [] \<Rightarrow> False
            | b # s1 \<Rightarrow>
                if cont a 0xC2 0xDF then cont b 0x80 0xBF \<and> valid_utf8 s1
                else (case s1 of
                        [] \<Rightarrow> False
                      | c # s2 \<Rightarrow>
                          if cont a 0xE0 0xEF
                          then cont b (if cont a 0xE0 0xE0 then 0xA0 else 0x80)
                                 (if cont a 0xED 0xED then 0x9F else 0xBF) \<and> cont c 0x80 0xBF \<and> valid_utf8 s2
                          else (case s2 of
                                  [] \<Rightarrow> False
                                | d # s3 \<Rightarrow>
                                    cont a 0xF0 0xF4 \<and>
                                    cont b (if cont a 0xF0 0xF0 then 0x90 else 0x80)
                                      (if cont a 0xF4 0xF4 then 0x8F else 0xBF) \<and>
                                    cont c 0x80 0xBF \<and> cont d 0x80 0xBF \<and> valid_utf8 s3))))"

type_synonym c_str = "string option"

definition cstr_to_str :: "c_str \<Rightarrow> string option" where
  "cstr_to_str p = (case p of None \<Rightarrow> None | Some s \<Rightarrow> if valid_utf8 s then Some s else None)"

definition decode_signing_key :: "hex_codec \<Rightarrow> string \<Rightarrow> signing_key option" where
  "decode_signing_key H seed_hex = (case hex_dec H seed_hex of None \<Rightarrow> None | Some bs \<Rightarrow> try_into32 bs)"

definition decode_message_id :: "hex_codec \<Rightarrow> string \<Rightarrow> bytes32 option" where
  "decode_message_id H hex_str = (case hex_dec H hex_str of None \<Rightarrow> None | Some bs \<Rightarrow> try_into32 bs)"

section \<open>JSON by hand\<close>

definition json_escape_char :: "char \<Rightarrow> string" where
  "json_escape_char ch =
     (let n = (of_char ch :: nat) in
      if ch = CHR 0x22 then [CHR 0x5C, CHR 0x22]
      else if ch = CHR 0x5C then [CHR 0x5C, CHR 0x5C]
      else if ch = CHR 0x0A then [CHR 0x5C, CHR ''n'']
      else if ch = CHR 0x0D then [CHR 0x5C, CHR ''r'']
      else if ch = CHR 0x09 then [CHR 0x5C, CHR ''t'']
      else if n < 0x20 then [CHR 0x5C] @ ''u00'' @ [nibble_char (n div 16), nibble_char (n mod 16)]
      else [ch])"

definition json_escape_string :: "string \<Rightarrow> string" where
  "json_escape_string s = [CHR 0x22] @ concat (map json_escape_char s) @ [CHR 0x22]"

definition quoted :: "string \<Rightarrow> string" where
  "quoted s = [CHR 0x22] @ s @ [CHR 0x22]"

definition conflict_to_json :: "hex_codec \<Rightarrow> conflict \<Rightarrow> string" where
  "conflict_to_json H c =
     ''{'' @ quoted ''source_account'' @ '':'' @ json_escape_string (c_source_account c) @ '','' @
     quoted ''sequence'' @ '':'' @ show_i64 (c_sequence c) @ '','' @
     quoted ''envelope_a'' @ '':'' @ quoted (hex_enc H (to_vec (envelope_a c))) @ '','' @
     quoted ''envelope_b'' @ '':'' @ quoted (hex_enc H (to_vec (envelope_b c))) @ ''}''"

definition conflicts_to_json :: "hex_codec \<Rightarrow> conflict list \<Rightarrow> string" where
  "conflicts_to_json H cs = ''['' @ intercalate '','' (map (conflict_to_json H) cs) @ '']''"

section \<open>The store\<close>

record sse_engine_handle =
  handle_inner :: sync_engine
  poisoned :: bool

record ffi_store =
  live_handles :: "nat \<rightharpoonup> sse_engine_handle"
  live_strings :: "nat \<rightharpoonup> string"
  next_address :: nat

definition store_empty :: ffi_store where
  "store_empty = \<lparr>live_handles = Map.empty, live_strings = Map.empty, next_address = 0\<rparr>"

type_synonym ptr = "nat option"

text \<open>\<open>CString::new(s)\<close> and \<open>into_raw\<close>: null when the text contains the terminator.\<close>

definition new_c_string :: "string \<Rightarrow> ffi_store \<Rightarrow> ptr \<times> ffi_store" where
  "new_c_string s st =
     (if CHR 0x00 \<in> set s then (None, st)
      else (Some (next_address st),
        st\<lparr>live_strings := (live_strings st)(next_address st \<mapsto> s), next_address := next_address st + 1\<rparr>))"

definition set_engine :: "nat \<Rightarrow> sync_engine \<Rightarrow> ffi_store \<Rightarrow> ffi_store" where
  "set_engine a e st =
     st\<lparr>live_handles := (live_handles st)(a \<mapsto> \<lparr>handle_inner = e, poisoned = False\<rparr>)\<rparr>"

text \<open>
  \<open>handle.as_ref()\<close>, then the arguments, then the lock: \<open>args\<close> is \<open>None\<close> when an argument is
  refused; each of the three early returns gives \<open>fail\<close>.
\<close>

definition with_engine ::
  "ptr \<Rightarrow> ffi_store \<Rightarrow> 'r \<Rightarrow> 'a option \<Rightarrow> (nat \<Rightarrow> sync_engine \<Rightarrow> 'a \<Rightarrow> 'r \<times> ffi_store) \<Rightarrow> ('r \<times> ffi_store) option" where
  "with_engine h st fail args f =
     (case h of
        None \<Rightarrow> Some (fail, st)
      | Some a \<Rightarrow>
          (case live_handles st a of
             None \<Rightarrow> None
           | Some handle \<Rightarrow>
               (case args of
                  None \<Rightarrow> Some (fail, st)
                | Some x \<Rightarrow> if poisoned handle then Some (fail, st) else Some (f a (handle_inner handle) x))))"

section \<open>The exported functions\<close>

definition sse_engine_open ::
  "'z serde_scheme \<Rightarrow> c_str \<Rightarrow> database option \<Rightarrow> fault \<Rightarrow> ffi_store \<Rightarrow> ptr \<times> ffi_store" where
  "sse_engine_open S db_path_ptr disk fault st =
     (case cstr_to_str db_path_ptr of
        None \<Rightarrow> (None, st)
      | Some db_path \<Rightarrow>
          (case engine_open S db_path disk fault of
             Inl _ \<Rightarrow> (None, st)
           | Inr engine \<Rightarrow> (Some (next_address st),
               (set_engine (next_address st) engine st)\<lparr>next_address := next_address st + 1\<rparr>)))"

definition sse_engine_close :: "ptr \<Rightarrow> ffi_store \<Rightarrow> ffi_store option" where
  "sse_engine_close h st =
     (case h of
        None \<Rightarrow> Some st
      | Some a \<Rightarrow> if live_handles st a = None then None
                  else Some (st\<lparr>live_handles := (live_handles st)(a := None)\<rparr>))"

definition sse_seed_account :: "ptr \<Rightarrow> c_str \<Rightarrow> i64 \<Rightarrow> fault \<Rightarrow> ffi_store \<Rightarrow> (bool \<times> ffi_store) option" where
  "sse_seed_account h source_account_ptr current_chain_sequence fault st =
     with_engine h st False (cstr_to_str source_account_ptr)
       (\<lambda>a engine account.
          case seed_account engine account current_chain_sequence fault of
            (r, engine1) \<Rightarrow> (is_ok r, set_engine a engine1 st))"

text \<open>The arguments of a payment in the order they are checked.\<close>

definition payment_args ::
  "hex_codec \<Rightarrow> c_str \<Rightarrow> c_str \<Rightarrow> c_str \<Rightarrow> u8 \<Rightarrow> (string \<times> signing_key \<times> string \<times> tx_priority) option" where
  "payment_args H source_account_ptr signing_seed_hex_ptr tx_xdr_ptr priority =
     (case cstr_to_str source_account_ptr of None \<Rightarrow> None | Some account \<Rightarrow>
     (case cstr_to_str signing_seed_hex_ptr of None \<Rightarrow> None | Some seed_hex \<Rightarrow>
     (case cstr_to_str tx_xdr_ptr of None \<Rightarrow> None | Some xdr \<Rightarrow>
     (case decode_signing_key H seed_hex of None \<Rightarrow> None | Some key \<Rightarrow>
     (case priority_try_from (ucast priority) of Inl _ \<Rightarrow> None | Inr p \<Rightarrow>
        Some (account, key, xdr, p))))))"

definition sse_queue_payment ::
  "third_party \<Rightarrow> 'z serde_scheme \<Rightarrow> hex_codec \<Rightarrow> u64 \<Rightarrow> encryption_nonce \<Rightarrow> fault \<Rightarrow> ptr \<Rightarrow> c_str \<Rightarrow> c_str
     \<Rightarrow> c_str \<Rightarrow> u8 \<Rightarrow> u8 \<Rightarrow> ffi_store \<Rightarrow> (ptr \<times> ffi_store) option" where
  "sse_queue_payment X S H now nonce fault h source_account_ptr signing_seed_hex_ptr tx_xdr_ptr priority ttl st =
     with_engine h st None (payment_args H source_account_ptr signing_seed_hex_ptr tx_xdr_ptr priority)
       (\<lambda>a engine (account, key, xdr, p).
          case queue_payment X S now nonce engine account key xdr p ttl fault of
            (Inr envelope, engine1) \<Rightarrow>
              new_c_string (hex_enc H (to_vec (message_id envelope))) (set_engine a engine1 st)
          | (Inl _, engine1) \<Rightarrow> (None, set_engine a engine1 st))"

definition sse_settlement_status :: "hex_codec \<Rightarrow> ptr \<Rightarrow> c_str \<Rightarrow> ffi_store \<Rightarrow> (ptr \<times> ffi_store) option" where
  "sse_settlement_status H h message_id_hex_ptr st =
     with_engine h st None
       (case cstr_to_str message_id_hex_ptr of None \<Rightarrow> None | Some s \<Rightarrow> decode_message_id H s)
       (\<lambda>a engine mid.
          case engine_settlement_status engine mid of
            Some s \<Rightarrow> new_c_string (as_str s) st
          | None \<Rightarrow> (None, st))"

definition sse_list_unresolved_conflicts :: "hex_codec \<Rightarrow> fault \<Rightarrow> ptr \<Rightarrow> ffi_store \<Rightarrow> (ptr \<times> ffi_store) option" where
  "sse_list_unresolved_conflicts H fault h st =
     with_engine h st None (Some ())
       (\<lambda>a engine _.
          case engine_list_unresolved_conflicts engine fault of
            Inr cs \<Rightarrow> new_c_string (conflicts_to_json H cs) st
          | Inl _ \<Rightarrow> (None, st))"

definition sse_free_string :: "ptr \<Rightarrow> ffi_store \<Rightarrow> ffi_store option" where
  "sse_free_string p st =
     (case p of
        None \<Rightarrow> Some st
      | Some a \<Rightarrow> if live_strings st a = None then None
                  else Some (st\<lparr>live_strings := (live_strings st)(a := None)\<rparr>))"

end
