(* ===== verification/Ffi_Properties.thy ===== *)
theory Ffi_Properties
  imports Ffi Engine_Properties
begin

text \<open>
  The C interface's contracts: the JSON of the conflicts can be told apart whatever an account
  contains, a payment queued through the interface is known to it under the identifier it
  returned, and a client that uses only what it was given and not yet released never meets
  undefined behaviour.
\<close>

section \<open>JSON text\<close>

fun read_char :: "string \<Rightarrow> (char \<times> string) option" where
  "read_char [] = None"
| "read_char (c # s) =
     (if c \<noteq> CHR 0x5C then Some (c, s)
      else (case s of
              [] \<Rightarrow> None
            | d # s1 \<Rightarrow>
                if d = CHR ''n'' then Some (CHR 0x0A, s1)
                else if d = CHR ''r'' then Some (CHR 0x0D, s1)
                else if d = CHR ''t'' then Some (CHR 0x09, s1)
                else if d = CHR ''u'' then
                  (case (char_nibble (s1 ! 2) hex_digits, char_nibble (s1 ! 3) hex_digits) of
                     (Some h, Some l) \<Rightarrow> Some (char_of (16 * h + l), drop 4 s1)
                   | _ \<Rightarrow> None)
                else Some (d, s1)))"

lemma escape_cases:
  obtains (quote) "c = CHR 0x22" "json_escape_char c = [CHR 0x5C, CHR 0x22]"
  | (backslash) "c = CHR 0x5C" "json_escape_char c = [CHR 0x5C, CHR 0x5C]"
  | (named) d where "json_escape_char c = [CHR 0x5C, d]" "(d, c) \<in> {(CHR ''n'', CHR 0x0A), (CHR ''r'', CHR 0x0D), (CHR ''t'', CHR 0x09)}"
  | (control) "(of_char c :: nat) < 32"
      "json_escape_char c = CHR 0x5C # CHR ''u'' # CHR ''0'' # CHR ''0'' # [nibble_char (of_char c div 16), nibble_char (of_char c mod 16)]"
  | (plain) "c \<noteq> CHR 0x22" "c \<noteq> CHR 0x5C" "json_escape_char c = [c]"
proof -
  consider "c = CHR 0x22" | "c = CHR 0x5C" | "c = CHR 0x0A" | "c = CHR 0x0D" | "c = CHR 0x09"
    | "c \<notin> {CHR 0x22, CHR 0x5C, CHR 0x0A, CHR 0x0D, CHR 0x09}" "(of_char c :: nat) < 32"
    | "c \<notin> {CHR 0x22, CHR 0x5C, CHR 0x0A, CHR 0x0D, CHR 0x09}" "\<not> (of_char c :: nat) < 32"
    by blast
  then show thesis
  proof cases
    case 1 then show thesis using quote by (simp add: json_escape_char_def)
  next
    case 2 then show thesis using backslash by (simp add: json_escape_char_def)
  next
    case 3 then show thesis using named [of "CHR ''n''"] by (simp add: json_escape_char_def)
  next
    case 4 then show thesis using named [of "CHR ''r''"] by (simp add: json_escape_char_def)
  next
    case 5 then show thesis using named [of "CHR ''t''"] by (simp add: json_escape_char_def)
  next
    case 6 then show thesis using control by (simp add: json_escape_char_def Let_def)
  next
    case 7 then show thesis using plain by (simp add: json_escape_char_def Let_def)
  qed
qed

lemma read_char_escape: "read_char (json_escape_char c @ r) = Some (c, r)"
proof (cases rule: escape_cases [of c])
  case control
  then have "(of_char c :: nat) div 16 < 16" "(of_char c :: nat) mod 16 < 16"
    by (simp_all add: div_less_iff_less_mult)
  then have "char_nibble (nibble_char (of_char c div 16)) hex_digits = Some (of_char c div 16)"
    "char_nibble (nibble_char (of_char c mod 16)) hex_digits = Some (of_char c mod 16)"
    by (simp_all only: nibble_round)
  moreover have "drop 4 (CHR ''0'' # CHR ''0'' # h # l # r) = r" "(CHR ''0'' # CHR ''0'' # h # l # r) ! 2 = h"
    "(CHR ''0'' # CHR ''0'' # h # l # r) ! 3 = l" for h l :: char
    by (simp_all add: eval_nat_numeral)
  ultimately show ?thesis unfolding control(2) by simp
qed auto

lemma escape_not_quote: "json_escape_char c \<noteq> [] \<and> hd (json_escape_char c) \<noteq> CHR 0x22"
  by (cases rule: escape_cases [of c]) auto

lemma escape_body_ends:
  "concat (map json_escape_char s) @ CHR 0x22 # r = concat (map json_escape_char t) @ CHR 0x22 # r' \<Longrightarrow> s = t \<and> r = r'"
proof (induction s arbitrary: t)
  case Nil
  then show ?case
  proof (cases t)
    case (Cons d t')
    have "hd (concat (map json_escape_char t) @ CHR 0x22 # r') \<noteq> CHR 0x22"
      using escape_not_quote [of d] by (simp add: Cons hd_append)
    then show ?thesis using Nil by (metis append_Nil concat.simps(1) list.sel(1) list.simps(8))
  qed simp
next
  case (Cons c s)
  show ?case
  proof (cases t)
    case Nil
    have "hd (concat (map json_escape_char (c # s)) @ CHR 0x22 # r) \<noteq> CHR 0x22"
      using escape_not_quote [of c] by (simp add: hd_append)
    then show ?thesis using Cons.prems Nil by (metis append_Nil concat.simps(1) list.sel(1) list.simps(8))
  next
    case t: (Cons d t')
    have "read_char (concat (map json_escape_char (c # s)) @ CHR 0x22 # r) = Some (c, concat (map json_escape_char s) @ CHR 0x22 # r)"
      by (simp add: read_char_escape)
    moreover have "read_char (concat (map json_escape_char t) @ CHR 0x22 # r') = Some (d, concat (map json_escape_char t') @ CHR 0x22 # r')"
      by (simp add: t read_char_escape)
    ultimately have "c = d" "concat (map json_escape_char s) @ CHR 0x22 # r = concat (map json_escape_char t') @ CHR 0x22 # r'"
      using Cons.prems by (metis option.inject prod.inject)+
    then show ?thesis using Cons.IH t by blast
  qed
qed

lemma json_escape_ends: "json_escape_string s @ r = json_escape_string t @ r' \<Longrightarrow> s = t \<and> r = r'"
  using escape_body_ends [of s r t r'] by (simp add: json_escape_string_def)

definition number_char :: "char \<Rightarrow> bool" where
  "number_char c \<longleftrightarrow> is_digit c \<or> c = CHR ''-''"

lemma show_i64_chars: "list_all number_char (show_i64 x)"
  using show_nat_digits by (auto simp: show_i64_def show_int_def number_char_def list_all_iff)

lemma show_i64_ends: "show_i64 x @ c # r = show_i64 y @ c # s \<Longrightarrow> \<not> number_char c \<Longrightarrow> x = y \<and> r = s"
  using run_ends [of "show_i64 x" c r "show_i64 y" c s number_char] show_i64_chars by simp

lemma hex_ends:
  assumes "hex_ok H" and "hex_enc H bs @ CHR 0x22 # r = hex_enc H cs @ CHR 0x22 # s"
  shows "bs = cs \<and> r = s"
proof -
  have "list_all (\<lambda>c. c \<in> set hex_digits) (hex_enc H ds)" for ds
    using hex_ok_char [OF assms(1)] by (auto simp: list_all_iff)
  moreover have "CHR 0x22 \<notin> set hex_digits" by (simp add: hex_digits_def)
  ultimately have "hex_enc H bs = hex_enc H cs \<and> r = s"
    using run_ends [OF assms(2), of "\<lambda>c. c \<in> set hex_digits"] by blast
  then show ?thesis using hex_ok_inj [OF assms(1)] by blast
qed

lemma conflict_json_ends:
  assumes "hex_ok H" and "conflict_to_json H c @ r = conflict_to_json H d @ s"
  shows "c = d \<and> r = s"
proof -
  define tail where "tail c r = '','' @ quoted ''sequence'' @ '':'' @ show_i64 (c_sequence c) @ '','' @
     quoted ''envelope_a'' @ '':'' @ quoted (hex_enc H (to_vec (envelope_a c))) @ '','' @
     quoted ''envelope_b'' @ '':'' @ quoted (hex_enc H (to_vec (envelope_b c))) @ ''}'' @ r" for c :: conflict and r
  have "json_escape_string (c_source_account c) @ tail c r = json_escape_string (c_source_account d) @ tail d s"
    using assms(2) by (simp add: conflict_to_json_def tail_def quoted_def)
  then have acc: "c_source_account c = c_source_account d" and tails: "tail c r = tail d s"
    using json_escape_ends by blast+
  define tail2 where "tail2 c r = quoted ''envelope_a'' @ '':'' @ quoted (hex_enc H (to_vec (envelope_a c))) @ '','' @
     quoted ''envelope_b'' @ '':'' @ quoted (hex_enc H (to_vec (envelope_b c))) @ ''}'' @ r" for c :: conflict and r
  have "show_i64 (c_sequence c) @ CHR '','' # tail2 c r = show_i64 (c_sequence d) @ CHR '','' # tail2 d s"
    using tails by (simp add: tail_def tail2_def quoted_def)
  then have sq: "c_sequence c = c_sequence d" and tails2: "tail2 c r = tail2 d s"
    using show_i64_ends [of "c_sequence c" "CHR '',''" "tail2 c r" "c_sequence d" "tail2 d s"]
    by (simp_all add: number_char_def is_digit_def)
  define tail3 where "tail3 c r = '','' @ quoted ''envelope_b'' @ '':'' @ quoted (hex_enc H (to_vec (envelope_b c))) @ ''}'' @ r" for c :: conflict and r
  have "hex_enc H (to_vec (envelope_a c)) @ CHR 0x22 # tail3 c r = hex_enc H (to_vec (envelope_a d)) @ CHR 0x22 # tail3 d s"
    using tails2 by (simp add: tail2_def tail3_def quoted_def)
  then have a: "envelope_a c = envelope_a d" and tails3: "tail3 c r = tail3 d s"
    using hex_ends [OF assms(1)] to_vec_inj by blast+
  have "hex_enc H (to_vec (envelope_b c)) @ CHR 0x22 # ''}'' @ r = hex_enc H (to_vec (envelope_b d)) @ CHR 0x22 # ''}'' @ s"
    using tails3 by (simp add: tail3_def quoted_def)
  then have "envelope_b c = envelope_b d" and "r = s"
    using hex_ends [OF assms(1)] to_vec_inj by blast+
  then show ?thesis using acc sq a by simp
qed


lemma conflict_json_head: "\<exists>t. conflict_to_json H c = CHR ''{'' # t"
  by (simp add: conflict_to_json_def)

lemma conflicts_tail_ends:
  "hex_ok H \<Longrightarrow> concat (map (\<lambda>q. '','' @ q) (map (conflict_to_json H) cs)) @ '']'' =
     concat (map (\<lambda>q. '','' @ q) (map (conflict_to_json H) ds)) @ '']'' \<Longrightarrow> cs = ds"
proof (induction cs arbitrary: ds)
  case Nil
  then show ?case by (cases ds) auto
next
  case (Cons c cs)
  then obtain d ds' where ds: "ds = d # ds'" by (cases ds) auto
  have "conflict_to_json H c @ concat (map (\<lambda>q. '','' @ q) (map (conflict_to_json H) cs)) @ '']'' =
      conflict_to_json H d @ concat (map (\<lambda>q. '','' @ q) (map (conflict_to_json H) ds')) @ '']''"
    using Cons.prems(2) by (simp add: ds)
  then show ?case using conflict_json_ends [OF Cons.prems(1)] Cons.IH [OF Cons.prems(1)] ds by blast
qed

lemma conflicts_to_json_inj:
  assumes "hex_ok H" and "conflicts_to_json H cs = conflicts_to_json H ds"
  shows "cs = ds"
proof (cases cs)
  case Nil
  show ?thesis
  proof (cases ds)
    case (Cons d ds')
    then show ?thesis using assms(2) Nil conflict_json_head [of H d]
      by (auto simp: conflicts_to_json_def intercalate_def)
  qed (simp add: Nil)
next
  case c: (Cons c cs')
  show ?thesis
  proof (cases ds)
    case Nil
    then show ?thesis using assms(2) c conflict_json_head [of H c]
      by (auto simp: conflicts_to_json_def intercalate_def)
  next
    case d: (Cons d ds')
    have "conflict_to_json H c @ concat (map (\<lambda>q. '','' @ q) (map (conflict_to_json H) cs')) @ '']'' =
        conflict_to_json H d @ concat (map (\<lambda>q. '','' @ q) (map (conflict_to_json H) ds')) @ '']''"
      using assms(2) by (simp add: c d conflicts_to_json_def intercalate_def comp_def)
    then show ?thesis
      using conflict_json_ends [OF assms(1)] conflicts_tail_ends [OF assms(1)] c d by blast
  qed
qed

text \<open>No text the interface returns contains the terminator, so \<open>CString::new\<close> never fails.\<close>

definition nul_free :: "string \<Rightarrow> bool" where
  "nul_free s \<longleftrightarrow> CHR 0x00 \<notin> set s"

lemma nul_free_simps [simp]:
  "nul_free []" "nul_free (c # s) \<longleftrightarrow> c \<noteq> CHR 0x00 \<and> nul_free s" "nul_free (s @ t) \<longleftrightarrow> nul_free s \<and> nul_free t"
  "nul_free (concat ss) \<longleftrightarrow> list_all nul_free ss"
  by (auto simp: nul_free_def list_all_iff)

lemma nul_free_hex: "hex_ok H \<Longrightarrow> nul_free (hex_enc H bs)"
  using hex_ok_char [of H "CHR 0x00" bs] by (auto simp: nul_free_def hex_digits_def)

lemma nul_free_nibble: "n < 16 \<Longrightarrow> nibble_char n \<noteq> CHR 0x00"
proof -
  assume "n < 16"
  then have "nibble_char n \<in> set hex_digits" by (simp add: nibble_char_def length_hex_digits)
  then show ?thesis by (auto simp: hex_digits_def)
qed

lemma nul_free_escape: "nul_free (json_escape_char c)"
proof (cases rule: escape_cases [of c])
  case control
  then have "(of_char c :: nat) div 16 < 16" "(of_char c :: nat) mod 16 < 16"
    by (simp_all add: div_less_iff_less_mult)
  then show ?thesis unfolding control(2) by (simp add: nul_free_nibble)
next
  case plain
  then show ?thesis by (cases "c = CHR 0x00") (simp_all add: json_escape_char_def)
qed auto

lemma nul_free_i64: "nul_free (show_i64 x)"
proof -
  have "\<not> number_char (CHR 0x00)" by (simp add: number_char_def is_digit_def)
  then show ?thesis using show_i64_chars [of x] by (auto simp: nul_free_def list_all_iff)
qed

lemma nul_free_conflicts: "hex_ok H \<Longrightarrow> nul_free (conflicts_to_json H cs)"
proof -
  assume H: "hex_ok H"
  have one: "nul_free (conflict_to_json H c)" for c
    by (simp add: conflict_to_json_def quoted_def json_escape_string_def nul_free_escape nul_free_hex H
        nul_free_i64 list_all_iff)
  then show ?thesis
    by (cases cs) (simp_all add: conflicts_to_json_def intercalate_def list_all_iff)
qed


lemma new_c_string_ok: "nul_free s \<Longrightarrow> new_c_string s st =
   (Some (next_address st),
    st\<lparr>live_strings := (live_strings st)(next_address st \<mapsto> s), next_address := next_address st + 1\<rparr>)"
  by (simp add: new_c_string_def nul_free_def)

text \<open>
  C39. The JSON a caller reads determines the open conflicts, whatever characters an account holds.
\<close>

lemma sse_conflicts_exact:
  assumes "hex_ok H" and "live_handles st a = Some handle" and "\<not> poisoned handle"
    and "engine_list_unresolved_conflicts (handle_inner handle) fault = Inr cs"
  shows "\<exists>st' text. sse_list_unresolved_conflicts H fault (Some a) st = Some (Some (next_address st), st') \<and>
    live_strings st' = (live_strings st)(next_address st \<mapsto> text) \<and> live_handles st' = live_handles st \<and>
    (\<forall>ds. conflicts_to_json H ds = text \<longleftrightarrow> ds = cs)"
  using assms conflicts_to_json_inj [OF assms(1), of _ cs]
  by (auto simp: sse_list_unresolved_conflicts_def with_engine_def nul_free_conflicts new_c_string_ok)

definition awkward :: conflict where
  "awkward = \<lparr>c_source_account = [CHR 0x22, CHR 0x00, CHR 0x5C], c_sequence = 5, envelope_a = 1, envelope_b = 2\<rparr>"

lemma sse_conflicts_exact_witness:
  defines "engine \<equiv> snd (engine_record_conflict sample_start awkward 0 None)"
  shows "\<exists>st' text. sse_list_unresolved_conflicts sample_hex None (Some 0) (set_engine 0 engine store_empty) =
      Some (Some 0, st') \<and> live_strings st' 0 = Some text \<and>
      (\<forall>ds. conflicts_to_json sample_hex ds = text \<longleftrightarrow> ds = [awkward])"
proof -
  have "live_handles (set_engine 0 engine store_empty) 0 = Some \<lparr>handle_inner = engine, poisoned = False\<rparr>"
    by (simp add: set_engine_def)
  moreover have "engine_list_unresolved_conflicts engine None = Inr [awkward]"
    by (simp add: engine_def engine_record_conflict_def engine_list_unresolved_conflicts_def record_conflict_def
        list_unresolved_conflicts_def sample_start_def empty_database_def awkward_def id_or_zero_def next_id_def Let_def)
  moreover have "next_address (set_engine 0 engine store_empty) = 0"
    by (simp add: set_engine_def store_empty_def)
  ultimately show ?thesis
    using sse_conflicts_exact [OF sample_hex_ok, of "set_engine 0 engine store_empty" 0 _ None "[awkward]"] by fastforce
qed

section \<open>A payment through the interface\<close>

lemma hex_text_valid: "set s \<subseteq> set hex_digits \<Longrightarrow> valid_utf8 s"
proof (induction s)
  case (Cons c s)
  then have "cont c 0 0x7F" by (auto simp: hex_digits_def cont_def)
  then show ?case using Cons by simp
qed simp

lemma decode_own_id:
  assumes "hex_ok H"
  shows "cstr_to_str (Some (hex_enc H (to_vec mid))) = Some (hex_enc H (to_vec mid))"
    and "decode_message_id H (hex_enc H (to_vec mid)) = Some mid"
proof -
  have "valid_utf8 (hex_enc H (to_vec mid))" by (rule hex_text_valid) (use assms in \<open>simp add: hex_ok_def\<close>)
  then show "cstr_to_str (Some (hex_enc H (to_vec mid))) = Some (hex_enc H (to_vec mid))" by (simp add: cstr_to_str_def)
  show "decode_message_id H (hex_enc H (to_vec mid)) = Some mid" using assms by (simp add: decode_message_id_def)
qed

lemma nul_free_status: "nul_free (as_str s)"
  by (cases s) simp_all

lemma sse_queue_payment_Some:
  assumes "sse_queue_payment X S H now nonce fault (Some a) acct key_hex xdr pr ttl st = Some (Some p, st')"
  obtains e account key x prio env e' where "payment_args H acct key_hex xdr pr = Some (account, key, x, prio)"
    and "live_handles st a = Some \<lparr>handle_inner = e, poisoned = False\<rparr>"
    and "queue_payment X S now nonce e account key x prio ttl fault = (Inr env, e')"
    and "new_c_string (hex_enc H (to_vec (message_id env))) (set_engine a e' st) = (Some p, st')"
proof -
  obtain handle where h: "live_handles st a = Some handle"
    using assms by (auto simp: sse_queue_payment_def with_engine_def split: option.splits)
  obtain account key x prio where args: "payment_args H acct key_hex xdr pr = Some (account, key, x, prio)"
    using assms h by (auto simp: sse_queue_payment_def with_engine_def split: option.splits)
  have np: "\<not> poisoned handle"
    using assms h args by (auto simp: sse_queue_payment_def with_engine_def)
  obtain r e' where pay: "queue_payment X S now nonce (handle_inner handle) account key x prio ttl fault = (r, e')"
    by (cases "queue_payment X S now nonce (handle_inner handle) account key x prio ttl fault") blast
  have "handle = \<lparr>handle_inner = handle_inner handle, poisoned = False\<rparr>" using np by simp
  with h have h': "live_handles st a = Some \<lparr>handle_inner = handle_inner handle, poisoned = False\<rparr>" by simp
  show thesis
  proof (cases r)
    case (Inl err)
    then show thesis using assms h args np pay by (simp add: sse_queue_payment_def with_engine_def)
  next
    case (Inr env)
    then show thesis using assms h args np pay
      by (intro that [OF args h', of env e']) (simp_all add: sse_queue_payment_def with_engine_def)
  qed
qed

text \<open>
  The text the interface returns for a payment is one its own status query accepts, and the
  query answers that the payment is queued.
\<close>

lemma sse_payment_known:
  assumes "hex_ok H"
    and "sse_queue_payment X S H now nonce fault (Some a) acct key_hex xdr pr ttl st = Some (Some p, st')"
  shows "\<exists>st2. sse_settlement_status H (Some a) (live_strings st' p) st' = Some (Some (next_address st'), st2) \<and>
    live_strings st2 (next_address st') = Some ''queued'' \<and> live_handles st2 = live_handles st'"
proof -
  obtain e account key x prio env e' where
      pay: "queue_payment X S now nonce e account key x prio ttl fault = (Inr env, e')"
    and out: "new_c_string (hex_enc H (to_vec (message_id env))) (set_engine a e' st) = (Some p, st')"
    using assms(2) by (rule sse_queue_payment_Some)
  have body: "live_strings st' p = Some (hex_enc H (to_vec (message_id env)))"
    and handle: "live_handles st' a = Some \<lparr>handle_inner = e', poisoned = False\<rparr>"
    using out by (auto simp: new_c_string_ok nul_free_hex [OF assms(1)] set_engine_def)
  have "sse_settlement_status H (Some a) (live_strings st' p) st' = Some (new_c_string (as_str Queued) st')"
    using decode_own_id [OF assms(1), of "message_id env"] queue_payment_tracked [OF pay]
    by (simp only: sse_settlement_status_def with_engine_def body handle option.case sse_engine_handle.simps if_False simp_thms)
  then show ?thesis by (simp add: new_c_string_ok)
qed

definition sample_seed_hex :: string where
  "sample_seed_hex = lower_hex (to_vec 7)"

lemma sse_payment_known_witness:
  defines "call \<equiv> sse_queue_payment sample_party sample_codec sample_hex 10 0 None (Some 0) (Some ''G1'')
      (Some sample_seed_hex) (Some ''a'') 1 3 (set_engine 0 sample_seeded store_empty)"
  shows "\<exists>p st' st2. call = Some (Some p, st') \<and>
      sse_settlement_status sample_hex (Some 0) (live_strings st' p) st' = Some (Some (next_address st'), st2) \<and>
      live_strings st2 (next_address st') = Some ''queued''"
proof -
  have "cstr_to_str (Some sample_seed_hex) = Some sample_seed_hex" "decode_signing_key sample_hex sample_seed_hex = Some 7"
    using decode_own_id [OF sample_hex_ok, of 7]
    by (simp_all add: sample_seed_hex_def sample_hex_def decode_signing_key_def decode_message_id_def)
  moreover have literals: "cstr_to_str (Some ''G1'') = Some ''G1''" "cstr_to_str (Some ''a'') = Some ''a''"
    by (simp_all add: cstr_to_str_def cont_def)
  ultimately have args: "payment_args sample_hex (Some ''G1'') (Some sample_seed_hex) (Some ''a'') 1 = Some (''G1'', 7, ''a'', Normal)"
    by (simp add: payment_args_def literals priority_try_from_def)
  have "\<exists>p st'. call = Some (Some p, st')"
    unfolding call_def sse_queue_payment_def args
    by (simp add: with_engine_def set_engine_def sample_pay new_c_string_ok nul_free_hex [OF sample_hex_ok])
  then obtain p st' where call: "call = Some (Some p, st')" by blast
  show ?thesis using sse_payment_known [OF sample_hex_ok, OF call [unfolded call_def]] call by blast
qed


section \<open>Memory safety\<close>

text \<open>
  A client that keeps the handles \<open>hs\<close> and the strings \<open>ss\<close> it was given, passes only those or null,
  and forgets what it gives back.  The answers of every call are whatever the arguments make them.
\<close>

inductive ffi_client :: "third_party \<Rightarrow> 'z serde_scheme \<Rightarrow> hex_codec \<Rightarrow> ffi_store \<Rightarrow> nat set \<Rightarrow> nat set \<Rightarrow> bool"
  for X S H where
  client_start: "ffi_client X S H store_empty {} {}"
| client_open: "ffi_client X S H st hs ss \<Longrightarrow> sse_engine_open S path disk fault st = (p, st') \<Longrightarrow>
    ffi_client X S H st' (hs \<union> set_option p) ss"
| client_close: "ffi_client X S H st hs ss \<Longrightarrow> set_option h \<subseteq> hs \<Longrightarrow> sse_engine_close h st = Some st' \<Longrightarrow>
    ffi_client X S H st' (hs - set_option h) ss"
| client_seed: "ffi_client X S H st hs ss \<Longrightarrow> set_option h \<subseteq> hs \<Longrightarrow>
    sse_seed_account h account sq fault st = Some (b, st') \<Longrightarrow> ffi_client X S H st' hs ss"
| client_pay: "ffi_client X S H st hs ss \<Longrightarrow> set_option h \<subseteq> hs \<Longrightarrow>
    sse_queue_payment X S H now nonce fault h account key xdr pr ttl st = Some (p, st') \<Longrightarrow>
    ffi_client X S H st' hs (ss \<union> set_option p)"
| client_status: "ffi_client X S H st hs ss \<Longrightarrow> set_option h \<subseteq> hs \<Longrightarrow>
    sse_settlement_status H h mid st = Some (p, st') \<Longrightarrow> ffi_client X S H st' hs (ss \<union> set_option p)"
| client_list: "ffi_client X S H st hs ss \<Longrightarrow> set_option h \<subseteq> hs \<Longrightarrow>
    sse_list_unresolved_conflicts H fault h st = Some (p, st') \<Longrightarrow> ffi_client X S H st' hs (ss \<union> set_option p)"
| client_free: "ffi_client X S H st hs ss \<Longrightarrow> set_option p \<subseteq> ss \<Longrightarrow> sse_free_string p st = Some st' \<Longrightarrow>
    ffi_client X S H st' hs (ss - set_option p)"

text \<open>The store owns exactly what the client holds, below the next address, and no lock is poisoned.\<close>

definition owns :: "ffi_store \<Rightarrow> nat set \<Rightarrow> nat set \<Rightarrow> bool" where
  "owns st hs ss \<longleftrightarrow> dom (live_handles st) = hs \<and> dom (live_strings st) = ss \<and>
     (\<forall>a\<in>hs \<union> ss. a < next_address st) \<and> hs \<inter> ss = {} \<and>
     (\<forall>a handle. live_handles st a = Some handle \<longrightarrow> \<not> poisoned handle)"

lemma owns_store_empty: "owns store_empty {} {}"
  by (simp add: owns_def store_empty_def)

lemma owns_new_c_string:
  "owns st hs ss \<Longrightarrow> new_c_string s st = (p, st') \<Longrightarrow> owns st' hs (ss \<union> set_option p)"
  by (auto simp: owns_def new_c_string_def less_Suc_eq split: if_splits)

lemma owns_set_engine: "owns st hs ss \<Longrightarrow> a \<in> hs \<Longrightarrow> owns (set_engine a e st) hs ss"
  by (auto simp: owns_def set_engine_def split: if_splits)

lemma owns_open:
  "owns st hs ss \<Longrightarrow> sse_engine_open S path disk fault st = (p, st') \<Longrightarrow> owns st' (hs \<union> set_option p) ss"
  by (auto simp: owns_def sse_engine_open_def set_engine_def less_Suc_eq split: option.splits sum.splits if_splits)

lemma owns_close:
  "owns st hs ss \<Longrightarrow> sse_engine_close h st = Some st' \<Longrightarrow> owns st' (hs - set_option h) ss"
  by (auto simp: owns_def sse_engine_close_def split: option.splits if_splits)

lemma owns_free:
  "owns st hs ss \<Longrightarrow> sse_free_string p st = Some st' \<Longrightarrow> owns st' hs (ss - set_option p)"
  by (auto simp: owns_def sse_free_string_def split: option.splits if_splits)

text \<open>What \<open>with_engine\<close> keeps: either nothing happened, or the body ran on a held handle.\<close>

lemma with_engine_Some:
  assumes "with_engine h st fail args f = Some (r, st')"
  obtains "r = fail" "st' = st"
  | a handle x where "h = Some a" "live_handles st a = Some handle" "args = Some x"
      "f a (handle_inner handle) x = (r, st')"
  using assms by (auto simp: with_engine_def split: option.splits if_splits)

lemma owns_seed:
  assumes "owns st hs ss" and "sse_seed_account h account sq fault st = Some (b, st')"
  shows "owns st' hs ss"
  using assms(2) unfolding sse_seed_account_def
proof (cases rule: with_engine_Some)
  case 1
  then show ?thesis using assms(1) by simp
next
  case (2 a handle x)
  then have "a \<in> hs" using assms(1) by (auto simp: owns_def)
  then show ?thesis using 2 owns_set_engine [OF assms(1)] by (auto split: prod.splits)
qed

lemma owns_pay:
  assumes "owns st hs ss" and "sse_queue_payment X S H now nonce fault h account key xdr pr ttl st = Some (p, st')"
  shows "owns st' hs (ss \<union> set_option p)"
  using assms(2) unfolding sse_queue_payment_def
proof (cases rule: with_engine_Some)
  case 1
  then show ?thesis using assms(1) by simp
next
  case (2 a handle x)
  then have "a \<in> hs" using assms(1) by (auto simp: owns_def)
  then have "owns (set_engine a e st) hs ss" for e by (rule owns_set_engine [OF assms(1)])
  then show ?thesis using 2 by (auto split: prod.splits sum.splits intro: owns_new_c_string)
qed

lemma owns_status:
  assumes "owns st hs ss" and "sse_settlement_status H h mid st = Some (p, st')"
  shows "owns st' hs (ss \<union> set_option p)"
  using assms(2) unfolding sse_settlement_status_def
  by (cases rule: with_engine_Some) (use assms(1) owns_new_c_string in \<open>auto split: option.splits\<close>)

lemma owns_list:
  assumes "owns st hs ss" and "sse_list_unresolved_conflicts H fault h st = Some (p, st')"
  shows "owns st' hs (ss \<union> set_option p)"
  using assms(2) unfolding sse_list_unresolved_conflicts_def
  by (cases rule: with_engine_Some) (use assms(1) owns_new_c_string in \<open>auto split: sum.splits\<close>)

lemma ffi_client_owns: "ffi_client X S H st hs ss \<Longrightarrow> owns st hs ss"
proof (induction rule: ffi_client.induct)
  case client_start
  show ?case by (rule owns_store_empty)
next
  case client_open
  note step = this
  show ?case by (rule owns_open [OF step(3) step(2)])
next
  case client_close
  note step = this
  show ?case by (rule owns_close [OF step(4) step(3)])
next
  case client_seed
  note step = this
  show ?case by (rule owns_seed [OF step(4) step(3)])
next
  case client_pay
  note step = this
  show ?case by (rule owns_pay [OF step(4) step(3)])
next
  case client_status
  note step = this
  show ?case by (rule owns_status [OF step(4) step(3)])
next
  case client_list
  note step = this
  show ?case by (rule owns_list [OF step(4) step(3)])
next
  case client_free
  note step = this
  show ?case by (rule owns_free [OF step(4) step(3)])
qed

lemma with_engine_defined:
  "owns st hs ss \<Longrightarrow> set_option h \<subseteq> hs \<Longrightarrow> with_engine h st fail args f \<noteq> None"
  by (auto simp: owns_def with_engine_def split: option.splits)

text \<open>
  C14. Such a client never causes undefined behaviour, nothing it gave back is reachable, nothing
  leaks, and no address is given out twice while it is held.
\<close>

lemma ffi_memory_safe:
  assumes "ffi_client X S H st hs ss"
  shows "(set_option h \<subseteq> hs \<longleftrightarrow> sse_engine_close h st \<noteq> None) \<and>
    (set_option p \<subseteq> ss \<longleftrightarrow> sse_free_string p st \<noteq> None) \<and>
    (set_option h \<subseteq> hs \<longrightarrow>
      sse_seed_account h account sq fault st \<noteq> None \<and>
      sse_queue_payment X S H now nonce fault h account key xdr pr ttl st \<noteq> None \<and>
      sse_settlement_status H h mid st \<noteq> None \<and> sse_list_unresolved_conflicts H fault h st \<noteq> None) \<and>
    dom (live_handles st) = hs \<and> dom (live_strings st) = ss \<and> next_address st \<notin> hs \<union> ss"
proof -
  have own: "owns st hs ss" using assms by (rule ffi_client_owns)
  show ?thesis
  proof (intro impI conjI)
    show "set_option h \<subseteq> hs \<longleftrightarrow> sse_engine_close h st \<noteq> None"
      using own by (cases h) (auto simp: owns_def sse_engine_close_def)
    show "set_option p \<subseteq> ss \<longleftrightarrow> sse_free_string p st \<noteq> None"
      using own by (cases p) (auto simp: owns_def sse_free_string_def)
    show "dom (live_handles st) = hs" "dom (live_strings st) = ss" "next_address st \<notin> hs \<union> ss"
      using own by (auto simp: owns_def)
    assume h: "set_option h \<subseteq> hs"
    show "sse_seed_account h account sq fault st \<noteq> None"
      unfolding sse_seed_account_def by (rule with_engine_defined [OF own h])
    show "sse_queue_payment X S H now nonce fault h account key xdr pr ttl st \<noteq> None"
      unfolding sse_queue_payment_def by (rule with_engine_defined [OF own h])
    show "sse_settlement_status H h mid st \<noteq> None"
      unfolding sse_settlement_status_def by (rule with_engine_defined [OF own h])
    show "sse_list_unresolved_conflicts H fault h st \<noteq> None"
      unfolding sse_list_unresolved_conflicts_def by (rule with_engine_defined [OF own h])
  qed
qed

text \<open>A client that opened an engine and read its empty list of conflicts.\<close>

definition opened_store :: ffi_store where
  "opened_store = (set_engine 0 sample_start store_empty)\<lparr>next_address := 1\<rparr>"

lemma ffi_memory_safe_witness:
  "\<exists>st. ffi_client sample_party sample_codec sample_hex st {0} {1} \<and>
     sse_engine_close (Some 0) st \<noteq> None \<and> sse_free_string (Some 1) st \<noteq> None \<and>
     sse_engine_close (Some 1) st = None \<and> sse_free_string (Some 0) st = None"
proof -
  have "sse_engine_open sample_codec (Some ''db'') None None store_empty = (Some 0, opened_store)"
    by (simp add: sse_engine_open_def cstr_to_str_def cont_def sample_open opened_store_def store_empty_def)
  from client_open [OF client_start this]
  have opened: "ffi_client sample_party sample_codec sample_hex opened_store {0} {}" by simp
  obtain st where "sse_list_unresolved_conflicts sample_hex None (Some 0) opened_store = Some (Some 1, st)"
    by (simp add: sse_list_unresolved_conflicts_def with_engine_def opened_store_def set_engine_def
        engine_list_unresolved_conflicts_def list_unresolved_conflicts_def new_c_string_ok
        nul_free_conflicts [OF sample_hex_ok])
  from client_list [OF opened _ this]
  have run: "ffi_client sample_party sample_codec sample_hex st {0} {1}" by simp
  show ?thesis
    using run ffi_memory_safe [OF run, of "Some 0" "Some 1"] ffi_memory_safe [OF run, of "Some 1" "Some 0"] by auto
qed

end
