(* ===== verification/Ffi_Sessions.thy ===== *)
theory Ffi_Sessions
  imports Ffi_Properties
begin

text \<open>
  A C client that works through one handle is a run of the engine: what the engine promises of
  its runs holds of what the client sees.
\<close>

section \<open>Sessions\<close>

definition engine_at :: "ffi_store \<Rightarrow> nat \<Rightarrow> sync_engine \<Rightarrow> bool" where
  "engine_at st a e \<longleftrightarrow> live_handles st a = Some \<lparr>handle_inner = e, poisoned = False\<rparr>"

text \<open>The text a returned pointer leads to, and the number the payment used.\<close>

definition text_at :: "ptr \<Rightarrow> ffi_store \<Rightarrow> string list" where
  "text_at p st = (case p of None \<Rightarrow> [] | Some q \<Rightarrow> (case live_strings st q of None \<Rightarrow> [] | Some s \<Rightarrow> [s]))"

definition number_used :: "third_party \<Rightarrow> c_str \<Rightarrow> ptr \<Rightarrow> (string \<times> i64) list" where
  "number_used X tx p =
     (case (p, cstr_to_str tx) of
        (Some _, Some xdr) \<Rightarrow> (case extract_source_account_and_sequence X xdr of Inl _ \<Rightarrow> [] | Inr n \<Rightarrow> [n])
      | _ \<Rightarrow> [])"

text \<open>
  One client of one database file.  It may pass anything to the payment function; when the
  arguments are accepted the transaction belongs to the payments \<open>P\<close> and the account's numbers
  are not used up.  It seeds no account below a number already used, and goes on only after a
  seeding that was stored.  Everything that leaves the handle alone (queries, releasing strings,
  other handles) may happen in between, and the process may stop and open the file again.
\<close>

inductive ffi_session ::
  "third_party \<Rightarrow> 'z serde_scheme \<Rightarrow> hex_codec \<Rightarrow> string \<Rightarrow> payment set
     \<Rightarrow> nat \<Rightarrow> ffi_store \<Rightarrow> string list \<Rightarrow> (string \<times> i64) list \<Rightarrow> bool"
  for X S H path P where
  session_open: "sse_engine_open S (Some path) None None st = (Some a, st') \<Longrightarrow> ffi_session X S H path P a st' [] []"
| session_pay: "ffi_session X S H path P a st ids A \<Longrightarrow>
    (\<And>account k xdr p. payment_args H acct key_hex tx pr = Some (account, k, xdr, p) \<Longrightarrow>
       (now, k, xdr, ttl) \<in> P \<and>
       (\<forall>e l. engine_at st a e \<longrightarrow> last_reserved (eng_sequences e) account = Some l \<longrightarrow> sint l < i64_max)) \<Longrightarrow>
    sse_queue_payment X S H now nonce fault (Some a) acct key_hex tx pr ttl st = Some (p, st') \<Longrightarrow>
    ffi_session X S H path P a st' (ids @ text_at p st') (A @ number_used X tx p)"
| session_seed: "ffi_session X S H path P a st ids A \<Longrightarrow>
    (\<And>e account l. engine_at st a e \<Longrightarrow> cstr_to_str acct = Some account \<Longrightarrow>
       last_reserved_sequence e account None = Inr (Some l) \<Longrightarrow> sint l \<le> sint n) \<Longrightarrow>
    sse_seed_account (Some a) acct n fault st = Some (True, st') \<Longrightarrow>
    ffi_session X S H path P a st' ids A"
| session_other: "ffi_session X S H path P a st ids A \<Longrightarrow> live_handles st' a = live_handles st a \<Longrightarrow>
    ffi_session X S H path P a st' ids A"
| session_reopen: "ffi_session X S H path P a st ids A \<Longrightarrow> engine_at st a e \<Longrightarrow>
    sse_engine_open S (Some path) (Some (conn (eng_db e))) None st1 = (Some b, st') \<Longrightarrow>
    ffi_session X S H path P b st' ids A"

text \<open>Queries, releases and calls on other handles are such steps.\<close>

lemma other_steps:
  "sse_settlement_status H h mid st = Some (p, st') \<Longrightarrow> live_handles st' = live_handles st"
  "sse_list_unresolved_conflicts H fault h st = Some (p, st') \<Longrightarrow> live_handles st' = live_handles st"
  "sse_free_string p st = Some st' \<Longrightarrow> live_handles st' = live_handles st"
  "b \<noteq> a \<Longrightarrow> sse_engine_close (Some b) st = Some st' \<Longrightarrow> live_handles st' a = live_handles st a"
  "b \<noteq> a \<Longrightarrow> sse_seed_account (Some b) acct n fault st = Some (r, st') \<Longrightarrow> live_handles st' a = live_handles st a"
  by (auto simp: sse_settlement_status_def sse_list_unresolved_conflicts_def sse_free_string_def sse_engine_close_def
      sse_seed_account_def with_engine_def new_c_string_def set_engine_def
      split: option.splits if_splits sum.splits prod.splits)

section \<open>A session is a run\<close>

lemma session_pay_cases:
  assumes hex: "hex_ok H" and at: "engine_at st a e"
    and call: "sse_queue_payment X S H now nonce fault (Some a) acct key_hex tx pr ttl st = Some (p, st')"
  obtains (refused) "payment_args H acct key_hex tx pr = None" and "p = None" and "st' = st"
  | (ran) account k xdr prio r e' where "payment_args H acct key_hex tx pr = Some (account, k, xdr, prio)"
      and "cstr_to_str tx = Some xdr"
      and "queue_payment X S now nonce e account k xdr prio ttl fault = (r, e')" and "engine_at st' a e'"
      and "text_at p st' = (case r of Inl _ \<Rightarrow> [] | Inr env \<Rightarrow> [hex_enc H (to_vec (message_id env))])"
      and "p \<noteq> None \<longleftrightarrow> is_ok r"
proof (cases "payment_args H acct key_hex tx pr")
  case None
  then show thesis using refused call at by (simp add: sse_queue_payment_def with_engine_def engine_at_def)
next
  case (Some args)
  obtain account k xdr prio where args: "args = (account, k, xdr, prio)" by (cases args)
  obtain r e' where pay: "queue_payment X S now nonce e account k xdr prio ttl fault = (r, e')" by fastforce
  have tx: "cstr_to_str tx = Some xdr"
    using Some args by (auto simp: payment_args_def split: option.splits sum.splits)
  have out: "(case r of Inr env \<Rightarrow> new_c_string (hex_enc H (to_vec (message_id env))) (set_engine a e' st)
      | Inl _ \<Rightarrow> (None, set_engine a e' st)) = (p, st')"
    using call at Some args pay by (simp add: sse_queue_payment_def with_engine_def engine_at_def split: sum.splits)
  show thesis
    by (rule ran [OF Some [unfolded args] tx pay])
      (use out in \<open>auto simp: engine_at_def set_engine_def new_c_string_ok nul_free_hex [OF hex] text_at_def split: sum.splits\<close>)
qed

lemma session_open_engine:
  assumes "sse_engine_open S (Some path) disk None st = (Some a, st')"
  obtains e where "engine_open S path disk None = Inr e" and "engine_at st' a e"
  using assms that
  by (auto simp: sse_engine_open_def cstr_to_str_def engine_at_def set_engine_def split: if_splits sum.splits)

lemma session_seed_engine:
  assumes "engine_at st a e" and "sse_seed_account (Some a) acct n fault st = Some (True, st')"
  obtains account e' where "cstr_to_str acct = Some account" and "seed_account e account n fault = (Inr (), e')"
    and "engine_at st' a e'"
proof -
  obtain account where acct: "cstr_to_str acct = Some account"
    using assms by (auto simp: sse_seed_account_def with_engine_def engine_at_def split: option.splits)
  obtain r e' where run: "seed_account e account n fault = (r, e')" by fastforce
  have "is_ok r" "st' = set_engine a e' st"
    using assms acct run by (simp_all add: sse_seed_account_def with_engine_def engine_at_def)
  then have "seed_account e account n fault = (Inr (), e')" "engine_at st' a e'"
    using run by (cases r; simp add: engine_at_def set_engine_def)+
  then show thesis using that acct by blast
qed

lemma engine_at_unique: "engine_at st a e \<Longrightarrow> engine_at st a e' \<Longrightarrow> e' = e"
  by (simp add: engine_at_def)

lemma queue_payment_settlement:
  "queue_payment X S now nonce e account key xdr priority ttl fault = (Inr env, e') \<Longrightarrow>
   eng_settlement e' = track (eng_settlement e) (message_id env)"
  by (auto simp: queue_payment_def Let_def split: sum.splits prod.splits)

definition session_inv ::
  "third_party \<Rightarrow> 'z serde_scheme \<Rightarrow> hex_codec \<Rightarrow> hex_encode \<Rightarrow> string \<Rightarrow> payment set
     \<Rightarrow> sync_engine \<Rightarrow> bytes32 list \<Rightarrow> (string \<times> i64) list \<Rightarrow> bool" where
  "session_inv X S H hex path P e mids A \<longleftrightarrow>
     engine_run X S hex path P e [] A \<and> distinct mids \<and> length mids = length A \<and>
     (\<forall>m \<in> set mids. engine_settlement_status e m \<noteq> None)"

lemma session_inv_pay:
  assumes inv: "session_inv X S H hex path P e mids A" and path: "path \<noteq> '':memory:''" and ok: "payments_ok X S P"
    and p: "(now, key, xdr, ttl) \<in> P"
    and room: "\<forall>l. last_reserved (eng_sequences e) account = Some l \<longrightarrow> sint l < i64_max"
    and run: "queue_payment X S now nonce e account key xdr priority ttl fault = (r, e')"
  shows "session_inv X S H hex path P e'
    (mids @ (case r of Inl _ \<Rightarrow> [] | Inr env \<Rightarrow> [message_id env])) (A @ assigned X xdr r)"
proof -
  have old: "engine_run X S hex path P e [] A" using inv by (simp add: session_inv_def)
  then obtain rs where ri: "engine_inv S e rs" and logs: "logs_inv X P (conn (eng_db e)) rs [] A"
    using path ok by (rule engine_run_state)
  have new: "engine_run X S hex path P e' [] (A @ assigned X xdr r)" by (rule run_pay [OF old p room run])
  show ?thesis
  proof (cases rule: pay_step [OF ri logs ok p room run, case_names failed queued])
    case (failed err)
    then show ?thesis
      using inv new by (auto simp: session_inv_def assigned_def engine_settlement_status_def)
  next
    case (queued sq l)
    let ?env = "sealed X (now, key, xdr, ttl)"
    have "engine_settlement_status e (message_id ?env) = None"
      using queued(3) engine_inv_parts(2) [OF ri] by (simp add: tracker_agrees_def engine_settlement_status_def)
    then have "message_id ?env \<notin> set mids" using inv by (auto simp: session_inv_def)
    moreover have "eng_settlement e' = track (eng_settlement e) (message_id ?env)"
      using queue_payment_settlement [OF run [unfolded queued(1)]] .
    ultimately show ?thesis
      using inv new queued(1,4) by (auto simp: session_inv_def assigned_def engine_settlement_status_def status_ops)
  qed
qed

lemma session_inv_reopen:
  assumes inv: "session_inv X S H hex path P e mids A" and path: "path \<noteq> '':memory:''" and ok: "payments_ok X S P"
    and run: "engine_open S path (Some (conn (eng_db e))) None = Inr e'"
  shows "session_inv X S H hex path P e' mids A"
proof -
  have old: "engine_run X S hex path P e [] A" using inv by (simp add: session_inv_def)
  then obtain rs where ri: "engine_inv S e rs" and "logs_inv X P (conn (eng_db e)) rs [] A"
    using path ok by (rule engine_run_state)
  obtain e2 where "engine_open S path (Some (conn (eng_db e))) None = Inr e2"
    and "engine_settlement_status e2 = engine_settlement_status e"
    by (rule reopen [OF ri path])
  then have "engine_settlement_status e' = engine_settlement_status e" using run by simp
  then show ?thesis using inv run_restart [OF old run] by (simp add: session_inv_def)
qed

lemma session_state:
  assumes "ffi_session X S H path P a st ids A" and H: "hex_ok H" and path: "path \<noteq> '':memory:''" and ok: "payments_ok X S P"
  shows "\<exists>e mids. engine_at st a e \<and> session_inv X S H hex path P e mids A \<and>
    ids = map (\<lambda>m. hex_enc H (to_vec m)) mids"
  using assms(1)
proof induction
  case (session_open st a st')
  then obtain e where "engine_open S path None None = Inr e" "engine_at st' a e" by (rule session_open_engine)
  then show ?case using run_start by (intro exI [of _ e] exI [of _ "[]"]) (auto simp: session_inv_def)
next
  case (session_pay a st ids A acct key_hex tx pr now ttl nonce fault p st')
  then obtain e mids where at: "engine_at st a e" and inv: "session_inv X S H hex path P e mids A"
    and ids: "ids = map (\<lambda>m. hex_enc H (to_vec m)) mids" by blast
  show ?case
  proof (cases rule: session_pay_cases [OF H at session_pay(3), case_names refused ran])
    case refused
    then show ?thesis using at inv ids by (intro exI [of _ e] exI [of _ mids]) (simp add: text_at_def number_used_def)
  next
    case (ran account k xdr prio r e')
    from session_pay(2) [OF ran(1)] at have "(now, k, xdr, ttl) \<in> P"
      and "\<forall>l. last_reserved (eng_sequences e) account = Some l \<longrightarrow> sint l < i64_max" by blast+
    from session_inv_pay [OF inv path ok this ran(3)]
    have "session_inv X S H hex path P e' (mids @ (case r of Inl _ \<Rightarrow> [] | Inr env \<Rightarrow> [message_id env])) (A @ assigned X xdr r)" .
    moreover have "number_used X tx p = assigned X xdr r"
      using ran(2,6) by (auto simp: number_used_def assigned_def split: option.splits sum.splits)
    ultimately show ?thesis
      using ran(4,5) ids
      by (intro exI [of _ e'] exI [of _ "mids @ (case r of Inl _ \<Rightarrow> [] | Inr env \<Rightarrow> [message_id env])"])
        (simp split: sum.splits)
  qed
next
  case (session_seed a st ids A acct n fault st')
  then obtain e mids where at: "engine_at st a e" and inv: "session_inv X S H hex path P e mids A"
    and ids: "ids = map (\<lambda>m. hex_enc H (to_vec m)) mids" by blast
  obtain account e' where acct: "cstr_to_str acct = Some account" and run: "seed_account e account n fault = (Inr (), e')"
    and at': "engine_at st' a e'"
    by (rule session_seed_engine [OF at session_seed(3)])
  have "engine_run X S hex path P e' [] A"
    by (rule run_seed [OF _ run]) (use inv session_seed(2) [OF at acct] in \<open>auto simp: session_inv_def\<close>)
  moreover have "eng_settlement e' = eng_settlement e"
    using run by (auto simp: seed_account_def Let_def split: sum.splits prod.splits)
  ultimately show ?case
    using inv at' ids by (intro exI [of _ e'] exI [of _ mids]) (simp add: session_inv_def engine_settlement_status_def)
next
  case (session_other a st ids A st')
  then show ?case by (auto simp: engine_at_def)
next
  case (session_reopen a st ids A e st1 b st')
  then obtain mids where inv: "session_inv X S H hex path P e mids A"
    and ids: "ids = map (\<lambda>m. hex_enc H (to_vec m)) mids" using engine_at_unique by blast
  obtain e' where "engine_open S path (Some (conn (eng_db e))) None = Inr e'" "engine_at st' b e'"
    using session_reopen(3) by (rule session_open_engine)
  then show ?case using session_inv_reopen [OF inv path ok] ids by blast
qed


lemma sample_session:
  obtains st ids where "ffi_session sample_party sample_codec sample_hex ''db'' sample_payments 0 st ids [(''G1'', 5)]"
proof -
  have start: "sse_engine_open sample_codec (Some ''db'') None None store_empty = (Some 0, opened_store)"
    by (simp add: sse_engine_open_def cstr_to_str_def cont_def sample_open opened_store_def store_empty_def)
  have texts: "cstr_to_str (Some ''G1'') = Some ''G1''" "cstr_to_str (Some ''a'') = Some ''a''"
    by (simp_all add: cstr_to_str_def cont_def)
  have at0: "engine_at opened_store 0 e \<longleftrightarrow> e = sample_start" for e
    by (auto simp: engine_at_def opened_store_def set_engine_def)
  obtain st1 where seeded: "sse_seed_account (Some 0) (Some ''G1'') 4 None opened_store = Some (True, st1)"
    and at1: "st1 = set_engine 0 sample_seeded opened_store"
    using at0 [of sample_start] texts(1) sample_seed by (simp add: sse_seed_account_def with_engine_def engine_at_def)
  have key: "cstr_to_str (Some sample_seed_hex) = Some sample_seed_hex" "decode_signing_key sample_hex sample_seed_hex = Some 7"
    using decode_own_id [OF sample_hex_ok, of 7]
    by (simp_all add: sample_seed_hex_def sample_hex_def decode_signing_key_def decode_message_id_def)
  have args: "payment_args sample_hex (Some ''G1'') (Some sample_seed_hex) (Some ''a'') 1 = Some (''G1'', 7, ''a'', Normal)"
    by (simp add: payment_args_def key texts priority_try_from_def)
  have "\<exists>p st2. sse_queue_payment sample_party sample_codec sample_hex 10 0 None (Some 0) (Some ''G1'')
      (Some sample_seed_hex) (Some ''a'') 1 3 st1 = Some (Some p, st2)"
    unfolding sse_queue_payment_def args at1
    by (simp add: with_engine_def set_engine_def sample_pay new_c_string_ok nul_free_hex [OF sample_hex_ok])
  then obtain p st2 where paid: "sse_queue_payment sample_party sample_codec sample_hex 10 0 None (Some 0) (Some ''G1'')
      (Some sample_seed_hex) (Some ''a'') 1 3 st1 = Some (Some p, st2)" by blast
  have "last_reserved_sequence sample_start ''G1'' None = Inr None"
    by (simp add: last_reserved_sequence_def load_sequence_reservation_def sample_start_def empty_database_def select_row_def)
  then have s1: "ffi_session sample_party sample_codec sample_hex ''db'' sample_payments 0 st1 [] []"
    by (intro session_seed [OF session_open [OF start] _ seeded]) (auto simp: at0 texts)
  have at1': "engine_at st1 0 e \<longleftrightarrow> e = sample_seeded" for e
    by (auto simp: engine_at_def at1 set_engine_def)
  have "ffi_session sample_party sample_codec sample_hex ''db'' sample_payments 0 st2
      ([] @ text_at (Some p) st2) ([] @ number_used sample_party (Some ''a'') (Some p))"
    by (rule session_pay [OF s1 _ paid])
      (auto simp: args at1' sample_payments_def sample_seeded_state)
  then show thesis using that by (simp add: number_used_def texts)
qed


end
