(* ===== verification/Dispute_Pipeline.thy ===== *)
theory Dispute_Pipeline
  imports Detector Resolver Escalation Storage_Properties
begin

text \<open>
  A conflict from end to end: what \<open>src/conflict/detector.rs\<close> reports, \<open>resolver.rs\<close> decides, and
  otherwise \<open>escalation.rs\<close> prepares and \<open>src/storage/db.rs\<close> keeps until it has been submitted.
\<close>

lemma detected_slots:
  assumes "rearranges order" and "c \<in> set (detect_conflicts order slots)"
  obtains sa sb where "sa \<in> set slots" and "sb \<in> set slots" and "conflicts_between sa sb = Some c"
proof -
  have "envelope_a c \<in> claimants (set slots) (c_source_account c, c_sequence c)"
    "envelope_b c \<in> claimants (set slots) (c_source_account c, c_sequence c)" "envelope_a c \<noteq> envelope_b c"
    using assms set_detect_conflicts [OF assms(1)] by auto
  then show thesis
    using that by (cases c) (auto simp: claimants_def slot_key_def conflicts_between_def)
qed

lemma resolve_conflict_Inl: "resolve_conflict hex from_key verify c ev = Inl err \<Longrightarrow> classify err = RequiresEscalation"
  by (auto simp: resolve_conflict_def Let_def split: if_splits)

lemma build_escalation_total:
  assumes "ei_message_id a = envelope_a c" and "ei_message_id b = envelope_b c"
  shows "\<exists>esc. build_escalation hex strkey c a b = Inr esc \<and> de_tx_id esc \<in> {envelope_a c, envelope_b c} \<and>
    de_proof esc \<in> {ei_proof a, ei_proof b}"
  using assms by (cases "first_seen_locally_at a \<le> first_seen_locally_at b") (auto simp: build_escalation_def)

text \<open>Saving takes one escalation number and two history numbers, and fails only without them.\<close>

definition room_for_escalation :: "database \<Rightarrow> bool" where
  "room_for_escalation d \<longleftrightarrow> sint (escalations_counter d) < i64_max \<and> sint (history_counter d) + 1 < i64_max"

lemma save_escalation_succeeds:
  assumes "room_for_escalation (conn db)"
  shows "\<exists>i db'. save_escalation S db c esc t None = (Inr i, db')"
proof -
  have esc: "next_id (escalations_counter (conn db)) = Some (escalations_counter (conn db) + 1)"
    and first: "next_id (history_counter (conn db)) = Some (history_counter (conn db) + 1)"
    using assms by (auto simp: room_for_escalation_def next_id_def)
  have "sint (history_counter (conn db) + 1) = sint (history_counter (conn db)) + 1"
    using next_id_Some [OF first] by simp
  then have "next_id (history_counter (conn db) + 1) = Some (history_counter (conn db) + 1 + 1)"
    using assms by (auto simp: room_for_escalation_def next_id_def)
  then show ?thesis
    using esc first by (simp add: save_escalation_def set_settlement_status_def insert_history_def Let_def)
qed

text \<open>
  C25. Every reported conflict is between two envelopes that really claim the same account and number.
  It is either decided for one of the two, with a quorum of verified relays, or the error asks
  for escalation; then the escalation can be built from evidence for the two envelopes, saving it
  fails without a fault only when a table has run out of numbers, and once saved it
  is pending, both envelopes and no others are disputed, and submitting it takes exactly it off
  the list.
\<close>

theorem dispute_pipeline:
  assumes ord: "rearranges order" and found: "c \<in> set (detect_conflicts order slots)"
    and inv: "db_inv (conn db)" and pending: "list_pending_escalations S db None = Inr pending"
    and ids: "ei_message_id a = envelope_a c" "ei_message_id b = envelope_b c"
    and codec: "\<forall>p \<in> {ei_proof a, ei_proof b}. proof_from_slice S (proof_to_vec S p) = Some p"
  shows "(\<exists>sa \<in> set slots. \<exists>sb \<in> set slots. conflicts_between sa sb = Some c) \<and>
    (case resolve_conflict hex from_key verify c ev of
       Inr w \<Rightarrow> w = envelope_a c \<and> 2 \<le> weight_a from_key verify c ev \<or>
               w = envelope_b c \<and> 2 \<le> weight_b from_key verify c ev
     | Inl err \<Rightarrow> classify err = RequiresEscalation \<and>
         (\<exists>esc. build_escalation hex strkey c a b = Inr esc \<and> de_tx_id esc \<in> {envelope_a c, envelope_b c} \<and>
            (room_for_escalation (conn db) \<longrightarrow>
               (\<forall>t. \<exists>i db'. save_escalation S db c esc t None = (Inr i, db'))) \<and>
            (\<forall>t fault i db'. save_escalation S db c esc t fault = (Inr i, db') \<longrightarrow>
               list_pending_escalations S db' None =
                 Inr (pending @ [\<lparr>pe_id = i, pe_source_account = c_source_account c, pe_sequence = c_sequence c,
                   pe_envelope_a = envelope_a c, pe_envelope_b = envelope_b c, pe_escalation = esc, pe_created_at = t\<rparr>]) \<and>
               (\<forall>k. stored_status (conn db') k =
                 (if k \<in> {envelope_a c, envelope_b c} then Some Disputed else stored_status (conn db) k)) \<and>
               list_pending_escalations S (snd (mark_escalation_submitted db' i None)) None = Inr pending)))"
proof (intro conjI)
  show "\<exists>sa \<in> set slots. \<exists>sb \<in> set slots. conflicts_between sa sb = Some c"
    using detected_slots [OF ord found] by metis
  obtain esc where esc: "build_escalation hex strkey c a b = Inr esc" "de_tx_id esc \<in> {envelope_a c, envelope_b c}"
    and "de_proof esc \<in> {ei_proof a, ei_proof b}"
    using build_escalation_total [OF ids] by blast
  then have "proof_from_slice S (proof_to_vec S (de_proof esc)) = Some (de_proof esc)" using codec by blast
  note life = escalation_lifecycle [OF inv this pending]
  show "case resolve_conflict hex from_key verify c ev of
       Inr w \<Rightarrow> w = envelope_a c \<and> 2 \<le> weight_a from_key verify c ev \<or>
               w = envelope_b c \<and> 2 \<le> weight_b from_key verify c ev
     | Inl err \<Rightarrow> classify err = RequiresEscalation \<and>
         (\<exists>esc. build_escalation hex strkey c a b = Inr esc \<and> de_tx_id esc \<in> {envelope_a c, envelope_b c} \<and>
            (room_for_escalation (conn db) \<longrightarrow>
               (\<forall>t. \<exists>i db'. save_escalation S db c esc t None = (Inr i, db'))) \<and>
            (\<forall>t fault i db'. save_escalation S db c esc t fault = (Inr i, db') \<longrightarrow>
               list_pending_escalations S db' None =
                 Inr (pending @ [\<lparr>pe_id = i, pe_source_account = c_source_account c, pe_sequence = c_sequence c,
                   pe_envelope_a = envelope_a c, pe_envelope_b = envelope_b c, pe_escalation = esc, pe_created_at = t\<rparr>]) \<and>
               (\<forall>k. stored_status (conn db') k =
                 (if k \<in> {envelope_a c, envelope_b c} then Some Disputed else stored_status (conn db) k)) \<and>
               list_pending_escalations S (snd (mark_escalation_submitted db' i None)) None = Inr pending))"
  proof (cases "resolve_conflict hex from_key verify c ev")
    case (Inr w)
    have "w = envelope_a c \<and> 2 \<le> weight_a from_key verify c ev \<or>
        w = envelope_b c \<and> 2 \<le> weight_b from_key verify c ev"
      using Inr unfolding resolve_conflict_Inr by blast
    then show ?thesis by (simp add: Inr)
  next
    case (Inl err)
    show ?thesis using resolve_conflict_Inl [OF Inl] esc life save_escalation_succeeds [of db S c] by (auto simp: Inl)
  qed
qed

text \<open>Two rival envelopes and no relay votes: the conflict is escalated.\<close>

definition rival_slots :: "queued_slot list" where
  "rival_slots =
     [\<lparr>slot_source_account = ''A'', slot_sequence = 5, slot_message_id = 2\<rparr>,
      \<lparr>slot_source_account = ''A'', slot_sequence = 5, slot_message_id = 1\<rparr>]"

definition rival_evidence :: "bytes32 \<Rightarrow> u64 \<Rightarrow> escalation_input" where
  "rival_evidence m t =
     \<lparr>ei_message_id = m, ei_origin_pubkey = m, first_seen_locally_at = t, ei_proof = sample_proof\<rparr>"

abbreviation rival_conflict :: conflict where
  "rival_conflict \<equiv> \<lparr>c_source_account = ''A'', c_sequence = 5, envelope_a = 1, envelope_b = 2\<rparr>"

abbreviation no_votes :: conflict_evidence where
  "no_votes \<equiv> \<lparr>envelope_a_timestamp = 0, envelope_b_timestamp = 0, envelope_a_observations = [],
     envelope_b_observations = []\<rparr>"

lemma rival_conflict_detected: "rival_conflict \<in> set (detect_conflicts rev rival_slots)"
proof -
  have "claimants (set rival_slots) (''A'', 5) = {1, 2}"
    unfolding set_ids_at [symmetric] by (simp add: ids_at_def slot_key_def rival_slots_def insert_commute)
  then show ?thesis by (simp add: set_detect_conflicts rearranges_def)
qed

theorem dispute_pipeline_witness:
  "\<exists>esc. build_escalation (\<lambda>_. '''') (\<lambda>_. ''G'') rival_conflict (rival_evidence 1 7) (rival_evidence 2 9) = Inr esc \<and>
     de_tx_id esc \<in> {1, 2}"
proof -
  let ?S = "sample_serde (take_snapshot empty_database)"
  let ?r = "resolve_conflict (\<lambda>_. '''') Some (\<lambda>_ _ _. False) rival_conflict no_votes"
  have "?r \<noteq> Inr w" for w
    by (simp add: resolve_conflict_Inr weight_a_def weight_b_def valid_relays_def)
  then obtain err where r: "?r = Inl err" by (cases ?r) auto
  have none: "list_pending_escalations ?S (new_db None) None = Inr []"
    by (simp add: list_pending_escalations_def empty_database_def)
  have "rearranges rev" by (simp add: rearranges_def)
  from dispute_pipeline [OF this rival_conflict_detected db_inv_new(1) none, of "rival_evidence 1 7"
      "rival_evidence 2 9" "\<lambda>_. ''''" "\<lambda>_. ''G''" Some "\<lambda>_ _ _. False" no_votes]
  show ?thesis unfolding r by (auto simp: rival_evidence_def sample_serde_def)
qed

end
