(* ===== verification/Engine_History.thy ===== *)
theory Engine_History
  imports Engine_Properties
begin

text \<open>
  The settlement history (\<open>history_for\<close> of \<open>src/storage/db.rs\<close>) of an envelope that goes through the
  engine.  \<open>queue_payment\<close> and \<open>next_to_dispatch\<close> (\<open>src/engine.rs\<close>) write the status table without
  writing the history; only settlement reports are recorded.  The last sections are about
  a report whose history row cannot be written, and about seeding an account a second time.
\<close>

section \<open>What a step writes\<close>

definition stored_ids :: "database \<Rightarrow> bytes set" where
  "stored_ids d = qe_message_id ` set (queued_envelopes d)"

lemma stored_ids_eq:
  assumes "disk_ok S db rs"
  shows "stored_ids (conn db) = (\<lambda>r. to_vec (rec_id r)) ` set rs"
proof -
  have "map qe_message_id (queued_envelopes (conn db)) = map (\<lambda>r. to_vec (rec_id r)) rs"
    using assms by (simp add: disk_ok_def)
  then show ?thesis unfolding stored_ids_def by (metis list.set_map)
qed

lemma stored_ids_disk: "disk_ok S db rs \<Longrightarrow> to_vec mid \<in> stored_ids (conn db) \<longleftrightarrow> mid \<in> rec_id ` set rs"
  unfolding stored_ids_eq by auto

lemma enqueue_transaction_history:
  "enqueue_transaction S db nonce env a sq pr t fault = (r, db') \<Longrightarrow>
     settlement_history (conn db') = settlement_history (conn db)"
  by (auto simp: enqueue_transaction_def Let_def split: sum.splits if_splits)

lemma queue_payment_history:
  assumes "queue_payment X S now nonce e account key xdr priority ttl fault = (r, e')"
    and "emergency_guard_of (eng_queue e) = None"
  shows "settlement_history (conn (eng_db e')) = settlement_history (conn (eng_db e))"
  using assms
proof (cases rule: queue_payment_cases)
  case (queued env sq db seqs1)
  then show ?thesis using enqueue_transaction_history [OF queued(5)] by simp
qed simp

lemma persist_dispatch_history:
  "persist_dispatch_status e mid t fault = (r, e') \<Longrightarrow>
     settlement_history (conn (eng_db e')) = settlement_history (conn (eng_db e)) \<and>
     queued_envelopes (conn (eng_db e')) = queued_envelopes (conn (eng_db e))"
  by (auto simp: persist_dispatch_status_def split: if_splits)

lemma next_to_dispatch_history:
  "next_to_dispatch hex now e fault = Some (out, e') \<Longrightarrow>
     settlement_history (conn (eng_db e')) = settlement_history (conn (eng_db e)) \<and>
     queued_envelopes (conn (eng_db e')) = queued_envelopes (conn (eng_db e))"
  using persist_dispatch_history
  by (force simp: next_to_dispatch_def Let_def split: option.splits prod.splits sum.splits)

lemma seed_account_history:
  "seed_account e a n fault = (r, e') \<Longrightarrow>
     settlement_history (conn (eng_db e')) = settlement_history (conn (eng_db e)) \<and>
     queued_envelopes (conn (eng_db e')) = queued_envelopes (conn (eng_db e))"
  by (auto simp: seed_account_def save_sequence_reservation_def Let_def split: prod.splits sum.splits if_splits)

lemma record_conflict_history:
  "engine_record_conflict e c t fault = (r, e') \<Longrightarrow>
     settlement_history (conn (eng_db e')) = settlement_history (conn (eng_db e)) \<and>
     queued_envelopes (conn (eng_db e')) = queued_envelopes (conn (eng_db e))"
  by (auto simp: engine_record_conflict_def record_conflict_def Let_def
      split: prod.splits sum.splits if_splits option.splits)

lemma engine_open_file:
  "engine_open S path (Some d) None = Inr e \<Longrightarrow> path \<noteq> '':memory:'' \<Longrightarrow> conn (eng_db e) = d"
  by (auto simp: engine_open_def init_def Let_def split: sum.splits prod.splits)

text \<open>A report changes one status and records at most one row, which starts at the stored status.\<close>

lemma set_settlement_status_row:
  assumes "set_settlement_status db mid st t fault = (r, db')" and "statuses_ok (conn db)"
  shows "settlement_history (conn db') = settlement_history (conn db) \<or>
    (\<exists>i from. settlement_history (conn db') = settlement_history (conn db) @
       [\<lparr>sh_id = i, sh_message_id = to_vec mid, sh_from_status = from, sh_to_status = as_str st, sh_timestamp = t\<rparr>] \<and>
       from \<in> {'''', stored_str (conn db) mid} \<and> is_ok r)"
proof (cases r)
  case (Inl err)
  then show ?thesis
    using assms(1) by (auto simp: set_settlement_status_def Let_def split: if_splits option.splits)
next
  case (Inr u)
  then have "set_settlement_status db mid st t fault = (Inr (), db')" using assms(1) by simp
  from set_settlement_status_Inr(7) [OF this] stored_str_select [OF assms(2), of mid] Inr
  show ?thesis by auto
qed

section \<open>The invariant\<close>

text \<open>
  Every row belongs to a stored envelope that is no longer Queued and does not lead to Queued;
  the rows of an envelope handed to the mesh do not start at Queued either.
\<close>

definition trail_ok :: "database \<Rightarrow> bytes32 list \<Rightarrow> bool" where
  "trail_ok d D \<longleftrightarrow>
     (\<forall>h \<in> set (settlement_history d). sh_to_status h \<noteq> ''queued'' \<and>
        (\<forall>mid. sh_message_id h = to_vec mid \<longrightarrow>
           to_vec mid \<in> stored_ids d \<and> current_status d mid \<noteq> Queued \<and>
           (mid \<in> set D \<longrightarrow> sh_from_status h \<noteq> ''queued'')))"

lemma trail_ok_mono:
  assumes "trail_ok d D" and "settlement_history d' = settlement_history d" and "stored_ids d \<subseteq> stored_ids d'"
    and "\<And>k. to_vec k \<in> stored_ids d \<Longrightarrow> current_status d k \<noteq> Queued \<Longrightarrow> current_status d' k \<noteq> Queued"
  shows "trail_ok d' D"
  using assms unfolding trail_ok_def by auto

lemma trail_ok_dispatched:
  "trail_ok d D \<Longrightarrow> current_status d mid = Queued \<Longrightarrow> trail_ok d (D @ [mid])"
  by (auto simp: trail_ok_def)

lemma report_trail:
  assumes run: "mark_settlement hex e mid nxt t fault = (r, e')"
    and inv: "engine_inv S e rs" and logs: "logs_inv X P (conn (eng_db e)) rs D A"
    and trail: "trail_ok (conn (eng_db e)) D"
  shows "trail_ok (conn (eng_db e')) D"
proof -
  let ?d = "conn (eng_db e)"
  note disk = engine_inv_parts(1) [OF inv]
  have "trail_ok (conn db) D" if set: "set_settlement_status (eng_db e) mid nxt t fault = (res, db)"
    and st: "status (eng_settlement e) mid = Some s" and ok: "can_transition_to s nxt" for s res db
  proof -
    have mem: "mid \<in> rec_id ` set rs" and s: "s = current_status ?d mid"
      using st engine_inv_parts(2) [OF inv] by (auto simp: tracker_agrees_def split: if_splits)
    have nxt: "nxt \<noteq> Queued" "as_str nxt \<noteq> ''queued''" using ok by (cases s; cases nxt; simp)+
    have ids: "stored_ids (conn db) = stored_ids ?d"
      using set_settlement_status_any [OF set] by (simp add: stored_ids_def)
    note cs = set_status_disk_ok(3,4) [OF disk set]
    then have kept: "current_status ?d k \<noteq> Queued \<Longrightarrow> current_status (conn db) k \<noteq> Queued" for k
      using nxt(1) by (auto split: if_splits)
    have start: "stored_str ?d mid \<noteq> ''queued''" if "mid \<in> set D"
    proof -
      have "current_status ?d mid \<noteq> Queued" using logs that by (simp add: logs_inv_def)
      then show ?thesis
        by (cases "stored_status ?d mid"; cases "the (stored_status ?d mid)")
          (auto simp: stored_str_def current_status_def)
    qed
    have "statuses_ok ?d" using disk by (simp add: disk_ok_def)
    from set_settlement_status_row [OF set this] show ?thesis
    proof (elim disjE exE conjE)
      assume "settlement_history (conn db) = settlement_history ?d"
      then show ?thesis using trail_ok_mono [OF trail _ _ kept] ids by simp
    next
      fix i was
      assume h: "settlement_history (conn db) = settlement_history ?d @
          [\<lparr>sh_id = i, sh_message_id = to_vec mid, sh_from_status = was, sh_to_status = as_str nxt, sh_timestamp = t\<rparr>]"
        and "was \<in> {'''', stored_str ?d mid}" and "is_ok res"
      then have "was \<noteq> ''queued''" if "mid \<in> set D" using start that by auto
      moreover have "current_status (conn db) mid \<noteq> Queued" using cs(2) \<open>is_ok res\<close> nxt(1) by simp
      moreover have "to_vec mid \<in> stored_ids ?d" using stored_ids_disk [OF disk] mem by blast
      ultimately show ?thesis
        using trail kept nxt(2) unfolding trail_ok_def h ids by (auto simp del: as_str.simps)
    qed
  qed
  note any = this
  from run show ?thesis
  proof (cases rule: mark_settlement_cases)
    case refused
    then show ?thesis using trail by simp
  next
    case (stored s db)
    then show ?thesis using any [OF stored(4,2,3)] by simp
  next
    case (interrupted s err db)
    then show ?thesis using any [OF interrupted(4,2,3)] by simp
  qed
qed

lemma payment_trail:
  assumes inv: "engine_inv S e rs" and logs: "logs_inv X P (conn (eng_db e)) rs D A"
    and P: "payments_ok X S P" "(now, key, xdr, ttl) \<in> P"
    and room: "\<forall>l. last_reserved (eng_sequences e) account = Some l \<longrightarrow> sint l < i64_max"
    and run: "queue_payment X S now nonce e account key xdr priority ttl fault = (r, e')"
    and trail: "trail_ok (conn (eng_db e)) D"
  shows "trail_ok (conn (eng_db e')) D"
proof (cases rule: pay_step [OF inv logs P room run, case_names failed queued])
  case (failed err)
  then show ?thesis using trail by simp
next
  case (queued sq l)
  have "emergency_guard_of (eng_queue e) = None" using engine_inv_parts(3) [OF inv] by (simp add: queue_agrees_def)
  note history = queue_payment_history [OF run this]
  note ids = stored_ids_disk [OF engine_inv_parts(1) [OF inv]] stored_ids_disk [OF engine_inv_parts(1) [OF queued(2)]]
  show ?thesis
  proof (rule trail_ok_mono [OF trail history])
    fix k
    assume k: "to_vec k \<in> stored_ids (conn (eng_db e))" "current_status (conn (eng_db e)) k \<noteq> Queued"
    then have "k \<noteq> message_id (sealed X (now, key, xdr, ttl))" using queued(3) ids(1) [of k] by blast
    then show "current_status (conn (eng_db e')) k \<noteq> Queued" using k(2) by (simp add: queued(8))
  next
    show "stored_ids (conn (eng_db e)) \<subseteq> stored_ids (conn (eng_db e'))"
      unfolding stored_ids_eq [OF engine_inv_parts(1) [OF inv]] stored_ids_eq [OF engine_inv_parts(1) [OF queued(2)]]
      by (rule image_mono) auto
  qed
qed

lemma dispatch_trail:
  assumes inv: "engine_inv S e rs" and run: "next_to_dispatch hex now e fault = Some (out, e')"
    and trail: "trail_ok (conn (eng_db e)) D"
  shows "trail_ok (conn (eng_db e')) (D @ handed_out out)"
proof (cases out)
  case None
  then show ?thesis using next_to_dispatch_inv [OF inv run] trail by (simp add: handed_out_def)
next
  case (Some env)
  note frame = next_to_dispatch_history [OF run]
  from next_to_dispatch_inv [OF inv run] Some obtain r where r: "r \<in> set rs" "env = rec_envelope r"
    and was: "status (eng_settlement e) (message_id env) = Some Queued"
    and st: "\<And>k. status (eng_settlement e') k =
        (if k = message_id env then Some Propagating else status (eng_settlement e) k)"
    and inv': "engine_inv S e' rs" by auto
  note tr = engine_inv_parts(2) [OF inv] engine_inv_parts(2) [OF inv']
  have "current_status (conn (eng_db e)) (message_id env) = Queued"
    using was tr(1) by (auto simp: tracker_agrees_def split: if_splits)
  then have "trail_ok (conn (eng_db e)) (D @ [message_id env])" by (rule trail_ok_dispatched [OF trail])
  then show ?thesis
    unfolding Some handed_out_def option.case
  proof (rule trail_ok_mono)
    show "current_status (conn (eng_db e')) k \<noteq> Queued"
      if "to_vec k \<in> stored_ids (conn (eng_db e))" "current_status (conn (eng_db e)) k \<noteq> Queued" for k
      using that st [of k] tr stored_ids_disk [OF engine_inv_parts(1) [OF inv], of k]
      by (auto simp: tracker_agrees_def split: if_splits)
  qed (simp_all add: frame stored_ids_def)
qed

lemma engine_run_trail:
  assumes "engine_run X S hex path P e D A" and "path \<noteq> '':memory:''" and "payments_ok X S P"
  shows "trail_ok (conn (eng_db e)) D"
  using assms(1)
proof induction
  case (run_start e)
  then have "conn (eng_db e) = empty_database"
    using engine_open_file [OF _ assms(2)] open_new_file [OF assms(2), of S] by simp
  then show ?case by (simp add: trail_ok_def empty_database_def)
next
  case (run_pay e D A now key xdr ttl account nonce priority fault r e')
  obtain rs where "engine_inv S e rs" "logs_inv X P (conn (eng_db e)) rs D A"
    by (rule engine_run_state [OF run_pay(1) assms(2,3)])
  then show ?case using payment_trail [OF _ _ assms(3)] run_pay by blast
next
  case (run_dispatch e D A now fault out e')
  obtain rs where "engine_inv S e rs" by (rule engine_run_state [OF run_dispatch(1) assms(2,3)])
  then show ?case using dispatch_trail run_dispatch by blast
next
  case (run_dispatch_crash e D A first now e1 e')
  obtain rs where inv: "engine_inv S e rs" by (rule engine_run_state [OF run_dispatch_crash(1) assms(2,3)])
  have disk: "conn (eng_db e') = conn (eng_db e1)" using engine_open_file [OF run_dispatch_crash(4) assms(2)] .
  have "current_status (conn (eng_db e1)) = (current_status (conn (eng_db e)))(message_id first := Propagating)"
    using run_dispatch_crash(3) engine_inv_parts(5) [OF inv]
    by (intro current_status_fun)
      (auto simp: persist_dispatch_status_def stored_status_replace simp del: as_str.simps)
  then show ?case
    unfolding disk using persist_dispatch_history [OF run_dispatch_crash(3)]
    by (intro trail_ok_mono [OF run_dispatch_crash(5)]) (auto simp: stored_ids_def)
next
  case (run_settle e D A mid nxt now fault r e')
  obtain rs where "engine_inv S e rs" "logs_inv X P (conn (eng_db e)) rs D A"
    by (rule engine_run_state [OF run_settle(1) assms(2,3)])
  then show ?case using report_trail [OF run_settle(2)] run_settle by blast
next
  case (run_settle_crash e D A mid nxt now fault r e1 e')
  obtain rs where "engine_inv S e rs" "logs_inv X P (conn (eng_db e)) rs D A"
    by (rule engine_run_state [OF run_settle_crash(1) assms(2,3)])
  then show ?case
    using report_trail [OF run_settle_crash(2)] engine_open_file [OF run_settle_crash(3) assms(2)] run_settle_crash
    by metis
next
  case (run_seed e D A account n fault e')
  obtain rs where inv: "engine_inv S e rs" by (rule engine_run_state [OF run_seed(1) assms(2,3)])
  note frame = seed_account_history [OF run_seed(2)] seed_account_inv(5) [OF inv run_seed(2)]
  then show ?case by (intro trail_ok_mono [OF run_seed(4)]) (simp_all add: stored_ids_def)
next
  case (run_conflict e D A c now fault r e')
  obtain rs where inv: "engine_inv S e rs" by (rule engine_run_state [OF run_conflict(1) assms(2,3)])
  note frame = record_conflict_history [OF run_conflict(2)] engine_record_conflict_inv(3) [OF inv run_conflict(2)]
  then show ?case by (intro trail_ok_mono [OF run_conflict(3)]) (simp_all add: stored_ids_def)
next
  case (run_restart e D A e')
  then show ?case using engine_open_file [OF run_restart(2) assms(2)] by simp
qed

section \<open>What the history of an envelope holds\<close>

lemma history_for_mem:
  assumes "history_for db mid None = Inr es" and "db_inv (conn db)" and "h \<in> set es"
  shows "\<exists>row \<in> set (settlement_history (conn db)). sh_message_id row = to_vec mid \<and>
      he_from_status h = sh_from_status row \<and> he_to_status h = sh_to_status row"
  using assms(1,3) unfolding history_for_rows [OF assms(2)] history_rows_def by fastforce

lemma history_for_frame:
  "settlement_history (conn db') = settlement_history (conn db) \<Longrightarrow> history_for db' mid fault = history_for db mid fault"
  by (simp add: history_for_def)

lemma history_for_report:
  assumes inv: "engine_inv S e rs" and run: "mark_settlement hex e mid nxt t None = (Inr (), e')"
    and sent: "engine_settlement_status e mid \<noteq> Some Queued" and es: "history_for (eng_db e) mid None = Inr es"
  shows "\<exists>cur. engine_settlement_status e mid = Some cur \<and> can_transition_to cur nxt \<and>
     history_for (eng_db e') mid None = Inr (es @
       [\<lparr>he_message_id = mid, he_from_status = as_str cur, he_to_status = as_str nxt, he_timestamp = t\<rparr>])"
  using run
proof (cases rule: mark_settlement_cases)
  case (stored s db)
  let ?d = "conn (eng_db e)"
  have ok: "db_inv ?d" "statuses_ok ?d" using engine_inv_parts(1) [OF inv] by (simp_all add: disk_ok_def)
  have ok': "db_inv (conn db)" using set_settlement_status_inv [OF ok(1)] stored(4) by (metis snd_conv)
  have "current_status ?d mid = s" "s \<noteq> Queued"
    using stored(2) sent engine_inv_parts(2) [OF inv]
    by (auto simp: tracker_agrees_def engine_settlement_status_def split: if_splits)
  then have "stored_str ?d mid = as_str s"
    by (auto simp: stored_str_def current_status_def split: option.splits simp del: as_str.simps)
  then show ?thesis
    using stored set_settlement_status_Inr(7) [OF stored(4)] stored_str_select [OF ok(2), of mid] es
      history_for_rows [OF ok(1)] history_for_rows [OF ok']
    by (auto simp: history_rows_def engine_settlement_status_def simp del: as_str.simps)
qed simp_all

text \<open>
  C8. The settlement history is only about settlement reports.  Over any run the history of an
  envelope can be read; it is empty while the envelope is Queued, no entry leads to Queued, and no
  entry of an envelope handed to the mesh starts at Queued: queuing and dispatching are not in the
  history, and a dispatch call changes no history at all.  A report on a dispatched envelope that
  succeeds adds one entry, from the status reported so far to the new one.
\<close>

theorem history_misses_dispatch:
  assumes "engine_run X S hex path P e D A" and "path \<noteq> '':memory:''" and "payments_ok X S P"
  shows "\<exists>es. history_for (eng_db e) mid None = Inr es \<and>
     (\<forall>h \<in> set es. he_to_status h \<noteq> ''queued'' \<and> (mid \<in> set D \<longrightarrow> he_from_status h \<noteq> ''queued'')) \<and>
     (engine_settlement_status e mid \<in> {None, Some Queued} \<longrightarrow> es = []) \<and>
     (\<forall>now fault out e'. next_to_dispatch hex now e fault = Some (out, e') \<longrightarrow>
        history_for (eng_db e') mid None = Inr es) \<and>
     (\<forall>nxt t e'. mark_settlement hex e mid nxt t None = (Inr (), e') \<and>
          engine_settlement_status e mid \<noteq> Some Queued \<longrightarrow>
        (\<exists>cur. engine_settlement_status e mid = Some cur \<and> can_transition_to cur nxt \<and>
           history_for (eng_db e') mid None = Inr (es @
             [\<lparr>he_message_id = mid, he_from_status = as_str cur, he_to_status = as_str nxt, he_timestamp = t\<rparr>])))"
proof -
  obtain rs where inv: "engine_inv S e rs" by (rule engine_run_state [OF assms])
  note trail = engine_run_trail [OF assms]
  have db: "db_inv (conn (eng_db e))" using engine_inv_parts(1) [OF inv] by (simp add: disk_ok_def)
  obtain es where es: "history_for (eng_db e) mid None = Inr es" using history_for_rows [OF db] by blast
  note row = history_for_mem [OF es db]
  have entries: "he_to_status h \<noteq> ''queued'' \<and> (mid \<in> set D \<longrightarrow> he_from_status h \<noteq> ''queued'')" if "h \<in> set es" for h
    using row [OF that] trail unfolding trail_ok_def by metis
  have "es = []" if "engine_settlement_status e mid \<in> {None, Some Queued}"
  proof (rule ccontr)
    assume "es \<noteq> []"
    then obtain h where "h \<in> set es" by fastforce
    from row [OF this] trail have "to_vec mid \<in> stored_ids (conn (eng_db e))" "current_status (conn (eng_db e)) mid \<noteq> Queued"
      unfolding trail_ok_def by metis+
    then show False
      using that stored_ids_disk [OF engine_inv_parts(1) [OF inv], of mid] by (auto simp: statuses_current [OF inv])
  qed
  moreover have "history_for (eng_db e') mid None = Inr es"
    if "next_to_dispatch hex now e fault = Some (out, e')" for now fault out e'
    using history_for_frame next_to_dispatch_history [OF that] es by metis
  ultimately show ?thesis using entries es history_for_report [OF inv _ _ es] by blast
qed

text \<open>After a dispatch the history is still empty.\<close>

theorem history_misses_dispatch_witness:
  "\<exists>es. history_for (eng_db sample_dispatched) 1 None = Inr es \<and> (\<forall>h \<in> set es. he_from_status h \<noteq> ''queued'')"
  using history_misses_dispatch [OF sample_dispatched_run _ sample_payments_ok, of 1] by auto

section \<open>A report that fails half-way\<close>

text \<open>
  The three statements of \<open>set_settlement_status\<close> are not one transaction: when the last one fails, the
  new status is stored, the call reports an error and the tracker keeps the old status, until a
  restart reads the new one.  This is why a run follows such a report by a restart.
\<close>

lemma half_way_report_disagrees:
  assumes "engine_settlement_status e mid = Some cur" and "can_transition_to cur nxt"
  shows "\<exists>err e'. mark_settlement hex e mid nxt t (Some 2) = (Inl err, e') \<and>
     engine_settlement_status e' mid = Some cur \<and> stored_status (conn (eng_db e')) mid = Some nxt \<and> cur \<noteq> nxt"
proof -
  have "cur \<noteq> nxt" using assms(2) by (auto simp: can_transition_to_def)
  then show ?thesis
    using assms by (simp add: mark_settlement_def set_settlement_status_def engine_settlement_status_def
        stored_status_replace Let_def del: as_str.simps)
qed

section \<open>Seeding an account again\<close>

text \<open>
  \<open>seed_account\<close> overwrites the stored reservation.  Seeding again just below a number in use, as a
  wallet does that passes on the sequence it last saw on the chain, makes the engine sign a second
  payment with that number: this is why a run asks that no account is seeded below a number used.
\<close>

lemma reseeding_reuses_number:
  assumes run: "engine_run X S hex path P e D A" and path: "path \<noteq> '':memory:''" and P: "payments_ok X S P"
    and used: "(account, sq) \<in> set A" and seeded: "seed_account e account (sq - 1) None = (Inr (), e1)"
    and xdr: "extract_source_account_and_sequence X xdr = Inr (account, sq)"
  shows "\<exists>e2. queue_payment X S now nonce e1 account key xdr priority ttl None =
      (Inr (sealed X (now, key, xdr, ttl)), e2) \<and> last_reserved_sequence e2 account None = Inr (Some sq)"
proof -
  obtain rs where inv: "engine_inv S e rs" by (rule engine_run_state [OF run path P])
  note inv1 = seed_account_inv [OF inv seeded]
  let ?env = "seal X now key (verifying_key X key) xdr ttl"
  have "last_reserved (eng_sequences e1) account = Some (sq - 1)"
    using seeded by (auto simp: seed_account_def last_reserved_ops Let_def split: prod.splits sum.splits)
  then have "build_and_sign X now (if last_reserved (eng_sequences e1) account = None
      then seed (eng_sequences e1) account 0 else eng_sequences e1) account key ClassicalOnly xdr ttl =
      (Inr (sign_hybrid X ClassicalOnly ?env, sq), (eng_sequences e1)\<lparr>seq_reserved := (seq_reserved (eng_sequences e1))(account \<mapsto> sq)\<rparr>)"
    using xdr by (simp add: build_and_sign_Inr reserve_next_Inr)
  moreover have "encryption_key_of (eng_db e1) = None" "emergency_guard_of (eng_queue e1) = None"
    using engine_inv_parts(1,3) [OF inv1(1)] by (simp_all add: disk_ok_def queue_agrees_def)
  ultimately show ?thesis
    by (auto simp: queue_payment_def enqueue_transaction_def encrypt_if_enabled_def push_at_unguarded sign_hybrid_def
        sealed_def Let_def last_reserved_sequence_stored stored_reservation_def reservations.lookup_upsert)
qed

end
