(* ===== verification/Device_Migration.thy ===== *)
theory Device_Migration
  imports Engine_History
begin

text \<open>
  Moving an engine to another device: \<open>export_snapshot\<close> on the old one, \<open>import_snapshot\<close> into a new
  file (\<open>src/storage/db.rs\<close>), and \<open>SyncEngine::open\<close> on it (\<open>src/engine.rs\<close>).  The last section is about a
  database that is encrypted at rest, whose export carries ciphertext.
\<close>

section \<open>Databases with the same tables\<close>

lemma same_tables:
  assumes "take_snapshot d' = take_snapshot d"
  shows "queued_envelopes d' = queued_envelopes d" "settlement_status_table d' = settlement_status_table d"
    "sequence_reservations d' = sequence_reservations d" "settlement_history d' = settlement_history d"
    "conflicts d' = conflicts d" "dispute_escalations d' = dispute_escalations d"
  using assms by (simp_all add: take_snapshot_def)

lemma same_tables_disk:
  assumes "disk_ok S db rs" and "take_snapshot (conn db') = take_snapshot (conn db)" and "db_inv (conn db')"
    and "encryption_key_of db' = None"
  shows "disk_ok S db' rs"
proof -
  have "decode_record S db' = decode_record S db" using assms(1,4) by (intro decode_record_key) (simp add: disk_ok_def)
  then show ?thesis using assms same_tables [OF assms(2)] by (simp add: disk_ok_def statuses_ok_def)
qed

lemma same_tables_views:
  assumes "take_snapshot d' = take_snapshot d"
  shows "current_status d' = current_status d" and "stored_reservation d' = stored_reservation d"
  using stored_status_frame [OF same_tables(2) [OF assms]] stored_reservation_frame [OF same_tables(3) [OF assms]]
  by (simp_all add: current_status_def fun_eq_iff)

lemma import_own_export:
  assumes "snapshot_from_slice S data = Some (take_snapshot (conn src))" and "db_inv (conn src)"
    and e: "existing_rows (conn dst) = 0"
  obtains report d where "import_snapshot S dst data None = (Inr report, dst\<lparr>conn := d\<rparr>)"
    and "take_snapshot d = take_snapshot (conn src)" and "db_inv d"
proof -
  obtain d where d: "insert_snapshot (take_snapshot (conn src)) (conn dst) = Some d"
    "take_snapshot d = take_snapshot (conn src)" "db_inv d" by (rule insert_own_snapshot [OF assms(2) e])
  have "schema_version (take_snapshot (conn src)) = DB_SNAPSHOT_SCHEMA_VERSION" by (simp add: take_snapshot_def)
  then obtain report where "import_snapshot S dst data None = (Inr report, dst\<lparr>conn := d\<rparr>)"
    using assms(1) e d(1) by (simp add: import_snapshot_def)
  then show thesis using that d(2,3) by blast
qed

section \<open>Migration\<close>

lemma migrated_engine:
  assumes inv: "engine_inv S e rs" and new: "path' \<noteq> '':memory:''" "init path' None None = Inr db"
    and codec: "snapshot_from_slice S data = Some (take_snapshot (conn (eng_db e)))"
  obtains report db' e' where "import_snapshot S db data None = (Inr report, db')"
    and "engine_open S path' (Some (conn db')) None = Inr e'" and "engine_inv S e' rs"
    and "take_snapshot (conn (eng_db e')) = take_snapshot (conn (eng_db e))"
    and "\<And>a. last_reserved (eng_sequences e') a = stored_reservation (conn (eng_db e)) a"
proof -
  note disk = engine_inv_parts(1) [OF inv]
  have db: "db = \<lparr>conn = empty_database, encryption_key_of = None\<rparr>" using new by (simp add: init_def)
  have "db_inv (conn (eng_db e))" "existing_rows (conn db) = 0"
    using disk by (simp_all add: db existing_rows_def empty_database_def disk_ok_def)
  then obtain report d where imported: "import_snapshot S db data None = (Inr report, db\<lparr>conn := d\<rparr>)"
    and d: "take_snapshot d = take_snapshot (conn (eng_db e))" "db_inv d" by (rule import_own_export [OF codec])
  from imported have imported: "import_snapshot S db data None = (Inr report, \<lparr>conn = d, encryption_key_of = None\<rparr>)"
    by (simp add: db)
  have "disk_ok S \<lparr>conn = d, encryption_key_of = None\<rparr> rs" by (rule same_tables_disk [OF disk]) (simp_all add: d)
  from engine_open_ok [OF this new(1)] obtain e' where "engine_open S path' (Some d) None = Inr e'"
    "eng_db e' = \<lparr>conn = d, encryption_key_of = None\<rparr>" "engine_inv S e' rs"
    "\<forall>a. last_reserved (eng_sequences e') a = stored_reservation d a" by blast
  then show thesis
    by (intro that [OF imported, of e']) (simp_all add: d(1) same_tables_views [OF d(1)])
qed

text \<open>
  C9. A device can be replaced.  The export of an engine, imported into the file of a new device,
  opens as an engine with the same payments, statuses, queue, histories, conflicts, escalations and
  reservations; what the old device handed to the mesh is not handed out again, and the numbers it gave out are not given
  out again, provided the old device is given up.
\<close>

theorem device_migration:
  assumes run: "engine_run X S hex path P e D A" and path: "path \<noteq> '':memory:''" and P: "payments_ok X S P"
    and codec: "snapshot_from_slice S (snapshot_to_vec S (take_snapshot (conn (eng_db e)))) =
      Some (take_snapshot (conn (eng_db e)))"
    and new: "path' \<noteq> '':memory:''" "init path' None None = Inr db"
    and data: "export_snapshot S (eng_db e) None = Inr data"
  shows "\<exists>report db' e'. import_snapshot S db data None = (Inr report, db') \<and>
     engine_open S path' (Some (conn db')) None = Inr e' \<and>
     list_queued_envelopes S (eng_db e') None = list_queued_envelopes S (eng_db e) None \<and>
     engine_settlement_status e' = engine_settlement_status e \<and>
     queue_contents (eng_queue e') = queue_contents (eng_queue e) \<and>
     (\<forall>mid. history_for (eng_db e') mid None = history_for (eng_db e) mid None) \<and>
     engine_list_unresolved_conflicts e' None = engine_list_unresolved_conflicts e None \<and>
     list_pending_escalations S (eng_db e') None = list_pending_escalations S (eng_db e) None \<and>
     (\<forall>a. last_reserved_sequence e' a None = last_reserved_sequence e a None) \<and>
     (\<forall>now fault env e''. next_to_dispatch hex now e' fault = Some (Some env, e'') \<longrightarrow> message_id env \<notin> set D) \<and>
     (\<forall>(a, x) \<in> set A. \<exists>l. last_reserved (eng_sequences e') a = Some l \<and> sint x \<le> sint l)"
proof -
  obtain rs where inv: "engine_inv S e rs" and logs: "logs_inv X P (conn (eng_db e)) rs D A"
    by (rule engine_run_state [OF run path P])
  have "snapshot_from_slice S data = Some (take_snapshot (conn (eng_db e)))"
    using codec data by (simp add: export_snapshot_def)
  then obtain report db' e' where o: "import_snapshot S db data None = (Inr report, db')"
    "engine_open S path' (Some (conn db')) None = Inr e'" and inv': "engine_inv S e' rs"
    and same: "take_snapshot (conn (eng_db e')) = take_snapshot (conn (eng_db e))"
    and sr: "\<And>a. last_reserved (eng_sequences e') a = stored_reservation (conn (eng_db e)) a"
    by (rule migrated_engine [OF inv new]) blast
  note tables = same_tables [OF same] and views = same_tables_views [OF same]
  have st: "engine_settlement_status e' = engine_settlement_status e"
    unfolding statuses_current [OF inv] statuses_current [OF inv'] views by (rule refl)
  have "message_id env \<notin> set D" if "next_to_dispatch hex now e' fault = Some (Some env, e'')" for now fault env e''
  proof -
    have "engine_settlement_status e' (message_id env) = Some Queued"
      using next_to_dispatch_inv [OF inv' that] by (auto simp: engine_settlement_status_def)
    then show ?thesis using logs unfolding st by (auto simp: statuses_current [OF inv] logs_inv_def split: if_splits)
  qed
  moreover have "\<exists>l. last_reserved (eng_sequences e') a = Some l \<and> sint x \<le> sint l" if "(a, x) \<in> set A" for a x
    using that logs unfolding sr logs_inv_def by blast
  moreover have "queue_contents (eng_queue e') = queue_contents (eng_queue e)"
    using queue_contents_waiting [OF inv] queue_contents_waiting [OF inv'] by (simp add: waiting_def st)
  moreover have "history_for (eng_db e') mid None = history_for (eng_db e) mid None" for mid
    by (rule history_for_frame) (rule tables(4))
  ultimately show ?thesis
    using o st stored_records [OF engine_inv_parts(1) [OF inv]] stored_records [OF engine_inv_parts(1) [OF inv']]
    by (intro exI [of _ report] exI [of _ db'] exI [of _ e'])
      (auto simp: last_reserved_sequence_stored views engine_list_unresolved_conflicts_def
        list_unresolved_conflicts_def list_pending_escalations_def tables)
qed

text \<open>The example run of \<open>Engine_Properties\<close>, with a snapshot format that knows its last state.\<close>

definition moving_codec :: serde where
  "moving_codec = sample_codec\<lparr>snapshot_from_slice :=
     (\<lambda>bs. if bs = [1] then Some (take_snapshot (conn (eng_db sample_dispatched))) else None)\<rparr>"

lemma moving_codec_envelopes:
  "envelope_codec_ok moving_codec = envelope_codec_ok sample_codec"
  "enqueue_transaction moving_codec = enqueue_transaction sample_codec"
proof -
  have "cipher.truncate moving_codec = cipher.truncate sample_codec"
    and "envelope_to_vec moving_codec = envelope_to_vec sample_codec"
    and "envelope_from_slice moving_codec = envelope_from_slice sample_codec"
    by (simp_all add: moving_codec_def cipher.truncate_def)
  then show "envelope_codec_ok moving_codec = envelope_codec_ok sample_codec"
    "enqueue_transaction moving_codec = enqueue_transaction sample_codec"
    by (intro ext; simp only: envelope_codec_ok_def enqueue_transaction_def encrypt_if_enabled_def)+
qed

lemma moving_codec_ok:
  "payments_ok sample_party moving_codec sample_payments"
  "snapshot_from_slice moving_codec (snapshot_to_vec moving_codec (take_snapshot (conn (eng_db sample_dispatched)))) =
     Some (take_snapshot (conn (eng_db sample_dispatched)))"
  using sample_payments_ok by (simp only: payments_ok_def moving_codec_envelopes)
    (simp add: moving_codec_def sample_codec_def sample_serde_def)

lemma moving_run:
  "engine_run sample_party moving_codec (\<lambda>_. []) ''db'' sample_payments sample_dispatched [1] [(''G1'', 5)]"
proof -
  have "engine_open moving_codec ''db'' None None = Inr sample_start"
    by (simp add: engine_open_def init_def list_all_sequence_reservations_def list_queued_envelopes_def
        open_dispatch_connection_def sample_start_def empty_database_def Let_def)
  from run_seed [OF run_start [OF this] sample_seed]
  have "engine_run sample_party moving_codec (\<lambda>_. []) ''db'' sample_payments sample_seeded [] []"
    by (simp add: last_reserved_sequence_def load_sequence_reservation_def sample_start_def empty_database_def
        select_row_def)
  from run_pay [OF this, of 10 7 "''a''" 3 "''G1''" 0 Normal None]
  have "engine_run sample_party moving_codec (\<lambda>_. []) ''db'' sample_payments sample_queued [] [(''G1'', 5)]"
    using sample_pay unfolding queue_payment_def moving_codec_envelopes
    by (simp only: sample_payments_def assigned_def sample_seeded_state) simp
  from run_dispatch [OF this sample_dispatch] show ?thesis
    by (simp add: handed_out_def sealed_def sample_party_def)
qed

theorem device_migration_witness:
  "\<exists>report db' e'. import_snapshot moving_codec (new_db None) [1] None = (Inr report, db') \<and>
     engine_open moving_codec ''new'' (Some (conn db')) None = Inr e' \<and>
     engine_settlement_status e' = engine_settlement_status sample_dispatched"
proof -
  have "init ''new'' None None = Inr (new_db None)" by (simp add: init_def)
  moreover have "export_snapshot moving_codec (eng_db sample_dispatched) None = Inr [1]"
    by (simp add: export_snapshot_def moving_codec_def sample_codec_def sample_serde_def)
  ultimately show ?thesis
    using device_migration [OF moving_run _ moving_codec_ok, of "''new''" "new_db None" "[1]"] by auto
qed

section \<open>Encryption at rest\<close>

text \<open>
  The snapshot of an encrypted database holds the ciphertext of its envelopes and not the key, so
  the listing of the target decrypts the bytes with its own key, or decodes the ciphertext as it
  is: with the key of the source the listings agree.
\<close>

lemma imported_listing:
  assumes "take_snapshot (conn dst) = take_snapshot (conn src)" and "encryption_key_of dst = encryption_key_of src"
  shows "list_queued_envelopes S dst fault = list_queued_envelopes S src fault"
  using same_tables(1) [OF assms(1)] decode_record_key [OF assms(2), of S]
  by (simp add: list_queued_envelopes_def)

text \<open>An envelope encrypted under key 9, moved to a device without the key: it cannot be read there.\<close>

definition encrypted_source :: sync_engine_db where
  "encrypted_source = snd (enqueue_transaction (sample_serde (take_snapshot empty_database)) (new_db (Some 9)) 3
     (sample_envelope 1) ''A'' 5 Normal 100 None)"

lemma encrypted_export_unreadable:
  "\<exists>report dst r. import_snapshot (sample_serde (take_snapshot (conn encrypted_source))) (new_db None) [1] None = (Inr report, dst) \<and>
     export_snapshot (sample_serde (take_snapshot (conn encrypted_source))) encrypted_source None = Inr [1] \<and>
     list_queued_envelopes (sample_serde (take_snapshot (conn encrypted_source))) encrypted_source None = Inr [r] \<and>
     list_queued_envelopes (sample_serde (take_snapshot (conn encrypted_source))) dst None = Inl deserialization_error"
proof -
  let ?S = "sample_serde (take_snapshot (conn encrypted_source))" and ?bs = "nonce_bytes 3 @ to_vec 9 @ to_vec 1"
  let ?d = "empty_database\<lparr>queued_envelopes := [envelope_row (sample_envelope 1) ''A'' 5 Normal 100 ?bs],
      settlement_status_table := [\<lparr>ss_message_id = to_vec 1, ss_status = as_str Queued, ss_updated_at = 100\<rparr>],
      sequence_reservations := [\<lparr>sr_source_account = ''A'', sr_last_reserved = 5\<rparr>]\<rparr>"
  have src: "encrypted_source = \<lparr>conn = ?d, encryption_key_of = Some 9\<rparr>"
    by (simp add: encrypted_source_def enqueue_transaction_def encrypt_if_enabled_def encrypt_data_def encrypt_def
        sample_serde_def sample_cipher_def empty_database_def replace_row_def cipher.truncate_def Let_def del: as_str.simps)
  let ?row = "envelope_row (sample_envelope 1) ''A'' 5 Normal 100 ?bs"
  have snap: "snapshot_from_slice ?S [1] = Some (take_snapshot (conn encrypted_source))"
    and exported: "export_snapshot ?S encrypted_source None = Inr [1]"
    by (simp_all add: sample_serde_def export_snapshot_def)
  have "db_inv (conn encrypted_source)" by (simp add: src db_inv_def empty_database_def ids_ok_def)
  moreover have "existing_rows (conn (new_db None)) = 0" by (simp add: existing_rows_def empty_database_def)
  ultimately obtain report d where
    imported: "import_snapshot ?S (new_db None) [1] None = (Inr report, (new_db None)\<lparr>conn := d\<rparr>)"
    and d: "take_snapshot d = take_snapshot (conn encrypted_source)"
    by (rule import_own_export [OF snap])
  have "import_snapshot ?S (new_db None) [1] None = (Inr report, \<lparr>conn = d, encryption_key_of = None\<rparr>)"
    using imported by simp
  moreover have "is_ok (decode_record ?S encrypted_source ?row)"
    by (simp add: src decode_record_def decrypt_if_needed_def decrypt_data_def decrypt_def envelope_row_def
        sample_serde_def sample_cipher_def cipher.truncate_def priority_try_from_def)
  moreover have "decode_record ?S \<lparr>conn = d, encryption_key_of = None\<rparr> ?row = Inl deserialization_error"
    by (simp add: decode_record_def decrypt_if_needed_def envelope_row_def sample_serde_def try_into32_def)
  ultimately show ?thesis
    using same_tables(1) [OF d] exported
    by (cases "decode_record ?S encrypted_source ?row") (auto simp: list_queued_envelopes_def src)
qed

end
