(* ===== verification/Engine_Spendable.thy ===== *)
theory Engine_Spendable
  imports Engine_Properties
begin

text \<open>
  The balance a wallet shows (\<open>src/queue/spendable.rs\<close>) while the engine (\<open>src/engine.rs\<close>) runs: the
  estimate over the stored envelopes, with the statuses the engine answers and the amounts the
  wallet knows.
\<close>

definition engine_spends ::
  "sync_engine \<Rightarrow> queued_envelope_record list \<Rightarrow> (bytes32 \<Rightarrow> i64) \<Rightarrow> queued_envelope_spend list" where
  "engine_spends e rs amount =
     map (\<lambda>r. spend_new r (amount (rec_id r))
       (case engine_settlement_status e (rec_id r) of None \<Rightarrow> Queued | Some s \<Rightarrow> s)) rs"

definition in_flight_status :: "settlement_status \<Rightarrow> bool" where
  "in_flight_status s \<longleftrightarrow> s \<in> {Queued, Propagating, Disputed}"

text \<open>What one record sets aside of the account's balance.\<close>

definition set_aside :: "string \<Rightarrow> (bytes32 \<Rightarrow> i64) \<Rightarrow> settlement_status \<Rightarrow> queued_envelope_record \<Rightarrow> int" where
  "set_aside account amount s r =
     (if rec_source_account r = account \<and> in_flight_status s then max 0 (sint (amount (rec_id r))) else 0)"

definition committed :: "string \<Rightarrow> sync_engine \<Rightarrow> queued_envelope_record list \<Rightarrow> (bytes32 \<Rightarrow> i64) \<Rightarrow> int" where
  "committed account e rs amount =
     (\<Sum>r \<leftarrow> rs. set_aside account amount
        (case engine_settlement_status e (rec_id r) of None \<Rightarrow> Queued | Some s \<Rightarrow> s) r)"

lemma reserved_sum_committed: "reserved_sum account (engine_spends e rs amount) = committed account e rs amount"
proof -
  have "reserved_sum account (engine_spends e rs amount) =
      (\<Sum>s \<leftarrow> engine_spends e rs amount. if reserves account s then sint (spend_amount s) else 0)"
    unfolding reserved_sum_def by (rule sum_list_map_filter')
  also have "\<dots> = committed account e rs amount"
    unfolding engine_spends_def committed_def map_map comp_def
    by (intro arg_cong [where f = sum_list] map_cong refl)
      (auto simp: reserves_def spend_new_def set_aside_def in_flight_status_def)
  finally show ?thesis .
qed

lemma committed_cong:
  assumes "\<And>r. r \<in> set rs \<Longrightarrow>
    in_flight_status (case engine_settlement_status e' (rec_id r) of None \<Rightarrow> Queued | Some s \<Rightarrow> s) =
    in_flight_status (case engine_settlement_status e (rec_id r) of None \<Rightarrow> Queued | Some s \<Rightarrow> s)"
  shows "committed account e' rs amount = committed account e rs amount"
  unfolding committed_def by (intro arg_cong [where f = sum_list] map_cong refl) (simp add: set_aside_def assms)

text \<open>One status changes.\<close>

lemma committed_update:
  assumes ids: "distinct (map rec_id rs)" and r: "r \<in> set rs" "engine_settlement_status e (rec_id r) = Some cur"
    and upd: "engine_settlement_status e' = (engine_settlement_status e)(rec_id r \<mapsto> nxt)"
  shows "committed account e' rs amount =
     committed account e rs amount - set_aside account amount cur r + set_aside account amount nxt r"
proof -
  let ?g = "\<lambda>e r. set_aside account amount
      (case engine_settlement_status e (rec_id r) of None \<Rightarrow> Queued | Some s \<Rightarrow> s) r"
  have dist: "distinct rs" and inj: "inj_on rec_id (set rs)" using ids by (auto simp: distinct_map)
  have split: "committed account x rs amount = ?g x r + sum (?g x) (set rs - {r})" for x
    unfolding committed_def using dist r(1) by (simp add: sum_list_distinct_conv_sum_set sum.remove)
  have "sum (?g e') (set rs - {r}) = sum (?g e) (set rs - {r})"
    using inj r(1) by (intro sum.cong refl) (auto simp: upd inj_on_def)
  then show ?thesis unfolding split [of e] split [of e'] using r(2) by (simp add: upd)
qed

section \<open>What each call does to the balance\<close>

lemma dispatch_committed:
  assumes "engine_inv S e rs" and run: "next_to_dispatch hex now e fault = Some (out, e')"
  shows "list_queued_envelopes S (eng_db e') None = Inr rs" and "committed account e' rs amount = committed account e rs amount"
proof -
  note step = next_to_dispatch_inv [OF assms]
  then show "list_queued_envelopes S (eng_db e') None = Inr rs" by (intro stored_records engine_inv_parts(1)) simp
  show "committed account e' rs amount = committed account e rs amount"
  proof (cases out)
    case None
    then show ?thesis using step by simp
  next
    case (Some env)
    have was: "engine_settlement_status e (message_id env) = Some Queued"
      and upd: "engine_settlement_status e' = (engine_settlement_status e)(message_id env \<mapsto> Propagating)"
      using step Some by (auto simp: engine_settlement_status_def fun_eq_iff)
    show ?thesis by (rule committed_cong) (use was in \<open>simp add: upd in_flight_status_def\<close>)
  qed
qed

lemma report_committed:
  assumes inv: "engine_inv S e rs" and run: "mark_settlement hex e mid nxt t fault = (Inr (), e')"
  shows "list_queued_envelopes S (eng_db e') None = Inr rs \<and>
    (\<exists>r \<in> set rs. \<exists>cur. rec_id r = mid \<and> engine_settlement_status e mid = Some cur \<and>
       committed account e' rs amount =
         committed account e rs amount - set_aside account amount cur r + set_aside account amount nxt r)"
  using run
proof (cases rule: mark_settlement_cases)
  case (stored s db)
  have upd: "engine_settlement_status e' = (engine_settlement_status e)(mid \<mapsto> nxt)"
    using stored(5) by (auto simp: engine_settlement_status_def status_ops fun_eq_iff)
  have s: "engine_settlement_status e mid = Some s" using stored(2) by (simp add: engine_settlement_status_def)
  then obtain r where r: "r \<in> set rs" "mid = rec_id r" by (auto simp: statuses_current [OF inv] split: if_splits)
  note disk = engine_inv_parts(1) [OF inv]
  have "committed account e' rs amount =
      committed account e rs amount - set_aside account amount s r + set_aside account amount nxt r"
    using committed_update [OF disk_ok_ids [OF disk] r(1)] s upd r(2) by simp
  then show ?thesis using stored_records [OF mark_settlement_disk(1) [OF disk run]] r s by blast
qed simp_all

lemma payment_committed:
  assumes inv: "engine_inv S e rs" and logs: "logs_inv X P (conn (eng_db e)) rs D A"
    and P: "payments_ok X S P" "(now, key, xdr, ttl) \<in> P"
    and room: "\<forall>l. last_reserved (eng_sequences e) acc = Some l \<longrightarrow> sint l < i64_max"
    and run: "queue_payment X S now nonce e acc key xdr priority ttl fault = (Inr env, e')"
  shows "\<exists>r. list_queued_envelopes S (eng_db e') None = Inr (rs @ [r]) \<and> rec_envelope r = env \<and>
    rec_source_account r = acc \<and>
    committed account e' (rs @ [r]) amount = committed account e rs amount + set_aside account amount Queued r"
proof (cases rule: pay_step [OF inv logs P room run, case_names failed queued])
  case (queued sq l)
  let ?r = "\<lparr>rec_envelope = sealed X (now, key, xdr, ttl), rec_source_account = acc, rec_sequence = sq,
      rec_priority = priority, rec_enqueued_at = now\<rparr>"
  have id: "rec_id ?r = message_id (sealed X (now, key, xdr, ttl))" by (simp add: rec_id_def)
  have old: "engine_settlement_status e' (rec_id r) = engine_settlement_status e (rec_id r)" if "r \<in> set rs" for r
  proof -
    have "rec_id r \<noteq> message_id (sealed X (now, key, xdr, ttl))" using that queued(3) by (metis imageI)
    then show ?thesis using that by (simp add: statuses_current [OF inv] statuses_current [OF queued(2)] queued(8))
  qed
  have "engine_settlement_status e' (rec_id ?r) = Some Queued"
    by (simp add: statuses_current [OF queued(2)] queued(8) id)
  moreover have "committed account e' rs amount = committed account e rs amount"
    by (rule committed_cong) (simp add: old)
  ultimately have "committed account e' (rs @ [?r]) amount = committed account e rs amount + set_aside account amount Queued ?r"
    by (simp add: committed_def)
  then show ?thesis using stored_records [OF engine_inv_parts(1) [OF queued(2)]] queued(1)
    by (intro exI [of _ ?r]) simp
qed simp

section \<open>The property\<close>

text \<open>
  C34. The wallet's balance follows the engine.  In every state of a run the estimate over the
  engine's envelopes is the known balance less what its envelopes in flight set aside; handing an
  envelope to the mesh or restarting the engine frees nothing, a report changes what is set aside by exactly
  the envelope it is about, and a payment sets its own amount aside at once.
\<close>

theorem spendable_follows_engine:
  assumes run: "engine_run X S hex path P e D A" and path: "path \<noteq> '':memory:''" and P: "payments_ok X S P"
    and rs: "list_queued_envelopes S (eng_db e) None = Inr rs"
  shows "sint (estimate_spendable account balance (engine_spends e rs amount)) =
       max i64_min (sint balance - min i64_max (committed account e rs amount)) \<and>
     (\<forall>now fault out e'. next_to_dispatch hex now e fault = Some (out, e') \<longrightarrow>
        list_queued_envelopes S (eng_db e') None = Inr rs \<and>
        estimate_spendable account balance (engine_spends e' rs amount) =
          estimate_spendable account balance (engine_spends e rs amount)) \<and>
     (\<forall>e'. engine_open S path (Some (conn (eng_db e))) None = Inr e' \<longrightarrow>
        engine_spends e' rs amount = engine_spends e rs amount) \<and>
     (\<forall>mid nxt t fault e'. mark_settlement hex e mid nxt t fault = (Inr (), e') \<longrightarrow>
        list_queued_envelopes S (eng_db e') None = Inr rs \<and>
        (\<exists>r \<in> set rs. \<exists>cur. rec_id r = mid \<and> engine_settlement_status e mid = Some cur \<and>
           committed account e' rs amount =
             committed account e rs amount - set_aside account amount cur r + set_aside account amount nxt r)) \<and>
     (\<forall>now key xdr ttl nonce acc priority fault env e'.
        (now, key, xdr, ttl) \<in> P \<and> (\<forall>l. last_reserved (eng_sequences e) acc = Some l \<longrightarrow> sint l < i64_max) \<and>
        queue_payment X S now nonce e acc key xdr priority ttl fault = (Inr env, e') \<longrightarrow>
        (\<exists>r. list_queued_envelopes S (eng_db e') None = Inr (rs @ [r]) \<and> rec_envelope r = env \<and>
           rec_source_account r = acc \<and>
           committed account e' (rs @ [r]) amount =
             committed account e rs amount + set_aside account amount Queued r))"
proof -
  obtain rs' where inv: "engine_inv S e rs'" and logs: "logs_inv X P (conn (eng_db e)) rs' D A"
    by (rule engine_run_state [OF run path P])
  then have "rs' = rs" using rs stored_records [OF engine_inv_parts(1) [OF inv]] by simp
  note inv = inv [unfolded this] and logs = logs [unfolded this]
  have estimate: "sint (estimate_spendable account balance (engine_spends x rs amount)) =
      max i64_min (sint balance - min i64_max (committed account x rs amount))" for x
    by (simp add: sint_estimate reserved_sum_committed)
  have restart: "engine_spends e' rs amount = engine_spends e rs amount"
    if "engine_open S path (Some (conn (eng_db e))) None = Inr e'" for e'
  proof -
    have "engine_settlement_status e' = engine_settlement_status e"
      using that by (rule_tac reopen [OF inv path]) simp
    then show ?thesis by (simp only: engine_spends_def)
  qed
  have dispatch: "estimate_spendable account balance (engine_spends e' rs amount) =
      estimate_spendable account balance (engine_spends e rs amount)"
    if "next_to_dispatch hex now e fault = Some (out, e')" for now fault out e'
    using dispatch_committed(2) [OF inv that] estimate by (simp flip: sint_i64_eq_iff)
  note report = report_committed [OF inv]
  show ?thesis
    by (intro conjI allI impI estimate; (elim conjE)?;
      (rule dispatch_committed(1) [OF inv] dispatch restart report [THEN conjunct1] report [THEN conjunct2]
        payment_committed [OF inv logs P], assumption+))
qed

text \<open>After one payment of 30 out of 100, 70 is left.\<close>

theorem spendable_follows_engine_witness:
  "\<exists>rs. list_queued_envelopes sample_codec (eng_db sample_queued) None = Inr rs \<and>
     sint (estimate_spendable ''G1'' 100 (engine_spends sample_queued rs (\<lambda>_. 30))) = 70"
proof -
  obtain rs where inv: "engine_inv sample_codec sample_queued rs"
    and logs: "logs_inv sample_party sample_payments (conn (eng_db sample_queued)) rs [] [(''G1'', 5)]"
    by (rule engine_run_state [OF sample_engine_run _ sample_payments_ok]) simp
  have rs: "list_queued_envelopes sample_codec (eng_db sample_queued) None = Inr rs"
    by (rule stored_records [OF engine_inv_parts(1) [OF inv]])
  have "map rec_number rs = [(''G1'', 5)]" using logs by (simp add: logs_inv_def)
  then obtain r where r: "rs = [r]" "rec_source_account r = ''G1''" by (auto simp: rec_number_def)
  have "size (mset (map rec_entry (filter (waiting sample_queued) rs))) = 1"
    using sample_queue_len queue_contents_waiting [OF inv] by (simp add: queue_len_contents)
  then have "engine_settlement_status sample_queued (rec_id r) = Some Queued"
    by (simp add: r(1) waiting_def split: if_splits)
  then have "committed ''G1'' sample_queued rs (\<lambda>_. 30) = 30"
    by (simp add: committed_def set_aside_def in_flight_status_def r)
  then show ?thesis
    using rs spendable_follows_engine [OF sample_engine_run _ sample_payments_ok rs, of "''G1''" 100 "\<lambda>_. 30"]
    by auto
qed

end
