(* ===== verification/Spec2Isabelle.thy ===== *)
theory Spec2Isabelle
  imports Clock Detector Resolver Quorum Escalation Sequence Priority Dispatch Spendable Settlement
    Envelope Encryption Storage_Properties Engine_Properties
    Transparency_Log Vdf_Params Metrics_Properties Sim_Properties Violation_Display
    Payment_Errors Engine_Clients Ffi_Sessions Dispute_Pipeline Device_Migration Engine_Spendable
begin

text \<open>
  A verification library for the StellarConduit sync engine, the Rust crate under \<open>src/src\<close>: the
  part of an offline payment wallet that signs payments without a network, keeps them durably,
  hands them to a mesh of relays, follows them to settlement, and settles the disputes that two
  signed payments for one sequence number raise.

  \<^bold>\<open>The program and its theories.\<close>

  \<^item> The driver, \<open>engine.rs\<close>: \<open>SyncEngine\<close> owns a database handle, the outbound queue, the
    sequence reservations and the settlement tracker.  Theory \<open>Engine\<close> has one definition per
    method (\<open>engine_open\<close>, \<open>seed_account\<close>, \<open>queue_payment\<close>, \<open>next_to_dispatch\<close>,
    \<open>mark_settlement\<close> and the queries); \<open>Engine_Laws\<close> has the agreement of memory and storage,
    \<open>Engine_Runs\<close> the runs with failing statements, crashes and restarts as an inductive relation,
    \<open>Engine_Properties\<close> what they promise, \<open>Payment_Errors\<close> every way a payment is refused.
    \<open>Engine_History\<close> says what the settlement history holds after a run,
    \<open>Engine_Spendable\<close> follows the balance a wallet shows, \<open>Device_Migration\<close> moves an engine to a
    new device by a snapshot;
    \<open>Engine_Clients\<close> puts the engine together with the inspector and the conflict detector.
  \<^item> Durable storage, \<open>storage/db.rs\<close>: \<open>Tables\<close> models the SQL statements used, on lists of rows
    (locale \<open>keyed_table\<close>, interpreted for the three tables with a primary key); \<open>Storage\<close> has
    the rows, \<open>SyncEngineDb\<close> and its operations, \<open>Storage_Laws\<close> and \<open>Storage_Properties\<close> their
    lemmas and contracts.  \<open>Encryption\<close> is \<open>encryption.rs\<close>.
  \<^item> The queue, \<open>queue/priority.rs\<close>: \<open>Binary_Heap\<close> is the standard library's heap (locale
    \<open>max_heap\<close>), \<open>Priority\<close> the tiers, the queue and the guard on Emergency payments.
    \<open>Sequence\<close>, \<open>Dispatch\<close>, \<open>Spendable\<close> are the other files of \<open>queue/\<close>; \<open>Vdf\<close>,
    \<open>Vdf_Laws\<close>, \<open>Vdf_Properties\<close>, \<open>Vdf_Params\<close> model \<open>queue/vdf_ordering.rs\<close>.
  \<^item> Settlement: \<open>Settlement\<close> is \<open>settlement/tracker.rs\<close> and the checker of
    \<open>settlement/invariants\<close>, \<open>Violation_Display\<close> its messages; \<open>Merkle\<close>, \<open>Merkle_Laws\<close>, \<open>Transparency_Log\<close> are
    \<open>settlement/transparency_log.rs\<close>.
  \<^item> Conflicts: \<open>Detector\<close>, \<open>Resolver\<close>, \<open>Quorum\<close>, \<open>Escalation\<close> are the files of \<open>conflict/\<close>
    and \<open>stellar_address.rs\<close>; \<open>Dispute_Pipeline\<close> follows a conflict through all of them.
  \<^item> Envelopes: \<open>Envelope\<close> is \<open>envelope/builder.rs\<close>, \<open>xdr.rs\<close> and \<open>pq.rs\<close>.
  \<^item> Around the engine: \<open>Ffi\<close> and \<open>Ffi_Properties\<close> are the C interface \<open>ffi.rs\<close>, over an explicit
    store of live handles and strings, and \<open>Ffi_Sessions\<close> shows that what a C client does through
    a handle is a run of the engine; \<open>Cli\<close> and \<open>Cli_Properties\<close> the inspector \<open>cli.rs\<close>;
    \<open>Metrics\<close> and \<open>Metrics_Properties\<close> the counters and the differentially private exporter of
    \<open>metrics.rs\<close>; \<open>Sim\<close>, \<open>Sim_Laws\<close>, \<open>Sim_Properties\<close> the adversarial simulation of \<open>sim/\<close>,
    which drives the detector and the resolver.
  \<^item> Shared: \<open>Prelude\<close> (machine integers, byte arrays, hash maps, the \<open>codec\<close> locale), \<open>Core_Types\<close>
    (the types of \<open>stellarconduit-core\<close> the sources take apart), \<open>Errors\<close> and \<open>Error_Display\<close>
    (\<open>errors.rs\<close>), \<open>Clock\<close> (\<open>clock.rs\<close>), \<open>Text_Laws\<close> and \<open>Hex_Codec\<close> (rendered text).

  \<^bold>\<open>How the model reads.\<close>  State is a record passed in and returned; a \<open>Result\<close> is
  \<open>error + value\<close>; a call that may panic or may not return gives an option.  Integers keep their
  width.  A database statement fails when the argument \<open>fault\<close> says so, at the place it says, and a
  transaction that fails is rolled back; time, nonces and random draws are arguments.  A
  \<open>HashMap\<close> is an association list, and where the iteration order of the real map is not fixed
  either the result is shown not to depend on it or the order is part of the model's input.

  \<^bold>\<open>What the lemmas show.\<close>
  \<^item> Engine: over any run no envelope is handed out twice and no sequence number is used twice; a
    queued payment survives a crash at any statement; reopening restores exactly the memory; the
    dispatch loop hands out everything queued in priority order; a payment is refused for exactly
    four reasons and then leaves nothing behind; the inspector prints what the engine answers, and
    the detector finds no conflict among an engine's own envelopes.  The settlement history holds
    the settlement reports and nothing else; a snapshot moves all of it to another device; seeding an
    account again reuses numbers.  The wallet's balance follows queuing and settlement.
  \<^item> Storage: the type invariant, atomicity of queuing, the history as a gap-free chain, batch
    updates against a pure specification, snapshots that restore, imports that are all or nothing.
  \<^item> Queue: heap correctness, the rate limit of the guard, the dispatch window; for the delay
    function completeness of proofs, termination of both prime searches and exactness of the test.
  \<^item> Conflicts: the detector is exact, a side wins only with a verified quorum of distinct relays, and
    what no quorum decides is escalated and stays on the list until it has been submitted.
  \<^item> Envelopes: nothing is signed for another account or number, promotion needs the threshold.
  \<^item> Transparency log: the level-wise tree is the recursive one; equal roots mean equal entries
    unless a collision is exhibited; which inclusion proofs verify.
  \<^item> C interface: memory safety for a client that uses what it holds; a session refines a run of
    the engine; the JSON and the identifiers can be read back.  Inspector: listings are exact,
    tables can be read back.  Metrics: the release budget, the noise mechanism and the sensitivity.
    Simulation: the sweep ends with no failure.
  \<^item> Where the code does not do what its documentation says (a proof of zeros that verifies, old
    roots with made-up consistency proofs, inclusion proofs of unpaired nodes, a dispatch without a
    history entry, a report stored by half, the export of an encrypted database) the theorem
    states what it does.

  \<^bold>\<open>Loops.\<close>  No definition uses a fuel argument: structural recursion where the code iterates over
  a collection, \<open>function\<close> with a measure where indices are halved or counted, and
  \<open>partial_function (option)\<close> for the searches that end only when a draw or a hash is favourable
  (\<open>hash_to_prime\<close>, \<open>generate_prime\<close>, \<open>sample_laplace\<close>, \<open>draw_unique\<close>); that they return is then
  stated under the condition that makes them return.

  \<^bold>\<open>Parameters.\<close>  AES-256-GCM, Argon2id, SHA-256, Ed25519, ML-DSA, the XDR and strkey codecs,
  \<open>serde\<close> and MessagePack, the \<open>hex\<close> crate, \<open>f64\<close> arithmetic and the random generators are
  records of functions the definitions take; what is relied on is a named hypothesis
  (\<open>hex_ok\<close>, \<open>payments_ok\<close>, \<open>env_ok\<close>, \<open>envelope_codec_ok\<close> and their kin), each instantiated by
  the example behind a witness.

  \<^bold>\<open>Not modelled.\<close>  SQL text and SQLite itself, tokio and the waiting of locks (each call is one
  step), logging, \<open>clap\<close>'s argument parser, \<open>serde_json\<close>'s text, the \<open>main\<close> of the binary, a
  trace's JSON fingerprint, the formatting of
  floating-point numbers, \<open>Debug\<close> implementations, and the tests, benches and examples.
\<close>

end
